(* ===== verification/Prelude.thy ===== *)
theory Prelude
  imports Complex_Main "HOL-Library.Word" "HOL-Library.AList" "HOL-Library.Char_ord"
    "HOL-Library.List_Lexorder" "HOL-Library.Product_Lexorder" "HOL-Library.Multiset"
begin

text \<open>
  Shared vocabulary of the development: the machine types and the container types of the
  Rust sources, the identifier check that most modules repeat, bounded logs (a deque that
  drops its oldest entry when it is full) and registries (keyed tables with a revision
  counter).  The two last ones are stated as locales, because seven components of the
  program are bounded logs and four are registries; each of them interprets the locale in
  its own theory.

  Conventions used in all theories:
  \<^item> \<open>u32\<close>, \<open>u64\<close> and \<open>usize\<close> counters are words, so that \<open>+\<close> wraps as the release build does;
    lengths of vectors are \<open>nat\<close> (they are bounded by the address space);
  \<^item> a \<open>String\<close> is a \<^typ>\<open>string\<close>, that is its list of bytes, with byte-lexicographic order;
  \<^item> a \<open>HashMap\<close> is an association list with distinct keys, its list order being one
    possible iteration order; a \<open>BTreeMap\<close> is such a list sorted by key;
  \<^item> an \<open>Instant\<close> or \<open>SystemTime\<close> is a number of nanoseconds, a \<open>Duration\<close> likewise; the clock
    is an argument of the operation that reads it;
  \<^item> \<open>Result<A, E>\<close> is \<open>E + A\<close>.
\<close>

type_synonym u8 = "8 word"
type_synonym u32 = "32 word"
type_synonym u64 = "64 word"
type_synonym usize = "64 word"

type_synonym tenant_id = string
type_synonym node_id = string

type_synonym instant = nat
type_synonym system_time = int
type_synonym duration = nat

type_synonym ('k, 'v) hmap = "('k \<times> 'v) list"

abbreviation millis :: "nat \<Rightarrow> duration" where
  "millis n \<equiv> n * 1000000"

abbreviation secs :: "nat \<Rightarrow> duration" where
  "secs n \<equiv> n * 1000000000"

named_theorems map_laws "lookup laws of the association-list maps"

section \<open>Association-list maps\<close>

text \<open>
  \<open>HashMap::get\<close> is \<^const>\<open>map_of\<close>, \<open>insert\<close> is \<^const>\<open>AList.update\<close>, \<open>remove\<close> is
  \<^const>\<open>AList.delete\<close>, \<open>retain\<close> is \<^const>\<open>filter\<close>, \<open>len\<close> is \<^const>\<open>length\<close>.
\<close>

abbreviation contains_key :: "('k, 'v) hmap \<Rightarrow> 'k \<Rightarrow> bool" where
  "contains_key m k \<equiv> map_of m k \<noteq> None"

abbreviation distinct_keys :: "('k, 'v) hmap \<Rightarrow> bool" where
  "distinct_keys m \<equiv> distinct (map fst m)"

text \<open>\<open>entry(k).or_default()\<close>: the value stored under \<open>k\<close>, or the default.\<close>

definition get_or :: "'v \<Rightarrow> ('k, 'v) hmap \<Rightarrow> 'k \<Rightarrow> 'v" where
  "get_or d m k = (case map_of m k of None \<Rightarrow> d | Some v \<Rightarrow> v)"

lemma map_of_update [map_laws]: "map_of (AList.update k v m) = (map_of m)(k \<mapsto> v)"
  by (simp add: update_conv')

lemma map_of_delete [map_laws]: "map_of (AList.delete k m) = (map_of m)(k := None)"
  by (simp add: delete_conv')

lemma get_or_update [map_laws]:
  "get_or d (AList.update k v m) k' = (if k' = k then v else get_or d m k')"
  by (simp add: get_or_def map_laws)

lemma distinct_keys_update [intro]: "distinct_keys m \<Longrightarrow> distinct_keys (AList.update k v m)"
  by (rule distinct_update)

lemma distinct_keys_delete [intro]: "distinct_keys m \<Longrightarrow> distinct_keys (AList.delete k m)"
  by (rule distinct_delete)

lemma distinct_keys_filter [intro]: "distinct_keys m \<Longrightarrow> distinct_keys (filter P m)"
  by (induction m) auto

lemma map_of_filter_distinct:
  "distinct_keys m \<Longrightarrow>
   map_of (filter P m) k = (case map_of m k of None \<Rightarrow> None
      | Some v \<Rightarrow> if P (k, v) then Some v else None)"
  by (induction m) (auto split: option.splits simp: map_of_eq_None_iff image_iff)

lemma map_of_filter_Some:
  "distinct_keys m \<Longrightarrow> map_of (filter P m) k = Some v \<longleftrightarrow> map_of m k = Some v \<and> P (k, v)"
  by (cases "map_of m k") (auto simp: map_of_filter_distinct)

lemma length_update:
  "length (AList.update k v m) = (if contains_key m k then length m else Suc (length m))"
  by (induction m) auto

lemma length_delete_distinct:
  "distinct_keys m \<Longrightarrow> length (AList.delete k m) = (if contains_key m k then length m - 1 else length m)"
proof (induction m)
  case (Cons p m)
  obtain a b where p: "p = (a, b)" by (cases p)
  show ?case
  proof (cases "a = k")
    case True
    with Cons.prems p show ?thesis by (simp add: delete_idem)
  next
    case False
    moreover have "m \<noteq> []" if "contains_key m k" using that by (cases m) auto
    ultimately show ?thesis using Cons p by (auto simp: Suc_pred' simp flip: length_greater_0_conv)
  qed
qed simp

section \<open>Ordered maps\<close>

text \<open>A \<open>BTreeMap\<close>: the list is kept sorted by key, which is its iteration order.\<close>

fun bt_insert :: "'k::linorder \<Rightarrow> 'v \<Rightarrow> ('k, 'v) hmap \<Rightarrow> ('k, 'v) hmap" where
  "bt_insert k v [] = [(k, v)]"
| "bt_insert k v ((k', v') # m) =
     (if k < k' then (k, v) # (k', v') # m
      else if k = k' then (k, v) # m
      else (k', v') # bt_insert k v m)"

abbreviation sorted_keys :: "('k::linorder, 'v) hmap \<Rightarrow> bool" where
  "sorted_keys m \<equiv> sorted_wrt (<) (map fst m)"

lemma set_keys_bt_insert: "fst ` set (bt_insert k v m) = insert k (fst ` set m)"
  by (induction k v m rule: bt_insert.induct) auto

lemma sorted_keys_bt_insert [intro]: "sorted_keys m \<Longrightarrow> sorted_keys (bt_insert k v m)"
proof (induction k v m rule: bt_insert.induct)
  case (2 k v k' v' m)
  then show ?case
    using set_keys_bt_insert [of k v m] by auto
qed simp

lemma map_of_bt_insert [map_laws]:
  "sorted_keys m \<Longrightarrow> map_of (bt_insert k v m) = (map_of m)(k \<mapsto> v)"
proof (induction k v m rule: bt_insert.induct)
  case (2 k v k' v' m)
  then show ?case
    by (auto simp: fun_eq_iff map_of_eq_None_iff)
qed simp

lemma sorted_keys_distinct: "sorted_keys m \<Longrightarrow> distinct_keys m"
  by (simp add: strict_sorted_iff)

lemma sorted_keys_delete [intro]: "sorted_keys m \<Longrightarrow> sorted_keys (AList.delete k m)"
  unfolding AList.delete_eq by (simp add: sorted_wrt_map sorted_wrt_filter)

text \<open>Sorted lists with the same lookups are equal: a \<open>BTreeMap\<close> is determined by its entries.\<close>

lemma rebuild_map:
  "distinct_keys m \<Longrightarrow> map (\<lambda>k. (k, the (map_of m k))) (map fst m) = m"
proof (rule nth_equalityI)
  fix i
  assume d: "distinct_keys m" and i: "i < length (map (\<lambda>k. (k, the (map_of m k))) (map fst m))"
  then have "map_of m (fst (m ! i)) = Some (snd (m ! i))" by (intro map_of_is_SomeI) simp_all
  then show "map (\<lambda>k. (k, the (map_of m k))) (map fst m) ! i = m ! i" using i by simp
qed simp

lemma sorted_keys_unique:
  assumes "sorted_keys m" "sorted_keys m'" "map_of m = map_of m'"
  shows "m = m'"
proof -
  have "fst ` set m = fst ` set m'" using assms(3) dom_map_of_conv_image_fst by metis
  then have "map fst m = map fst m'" using assms(1,2) by (intro strict_sorted_equal) simp_all
  then show ?thesis
    using rebuild_map [OF sorted_keys_distinct [OF assms(1)]]
      rebuild_map [OF sorted_keys_distinct [OF assms(2)]] assms(3) by simp
qed

section \<open>Identifiers\<close>

text \<open>
  \<open>byte.is_ascii_alphanumeric() || matches!(byte, b'_' | b'-' | b'.')\<close>, the character class
  every module uses for identifiers.
\<close>

definition is_ascii_alphanumeric :: "char \<Rightarrow> bool" where
  "is_ascii_alphanumeric c =
     (let n = (of_char c :: nat)
      in 48 \<le> n \<and> n \<le> 57 \<or> 65 \<le> n \<and> n \<le> 90 \<or> 97 \<le> n \<and> n \<le> 122)"

definition id_char :: "char \<Rightarrow> bool" where
  "id_char c = (is_ascii_alphanumeric c \<or> c \<in> {CHR ''_'', CHR ''-'', CHR ''.''})"

lemma id_char_not_colon: "id_char c \<Longrightarrow> c \<noteq> CHR '':''"
  by (auto simp: id_char_def is_ascii_alphanumeric_def)

section \<open>Filtering with a reason\<close>

lemma map_filter_reason:
  "(c, r) \<in> set (List.map_filter (\<lambda>c. map_option (Pair c) (f c)) xs) \<longleftrightarrow> c \<in> set xs \<and> f c = Some r"
  by (induction xs) (auto simp: List.map_filter_simps split: option.split)

lemma sort_key_mset:
  assumes "mset xs = mset ys" "inj_on f (set xs)"
  shows "sort_key f xs = sort_key f ys"
  by (rule sort_key_inj_key_eq) (simp_all add: assms)

lemma sort_key_Nil_iff: "sort_key f xs = [] \<longleftrightarrow> xs = []"
  by (metis set_empty set_sort)

lemma hd_sort_key_least:
  assumes "sort_key f xs = y # ys"
  shows "y \<in> set xs \<and> (\<forall>x \<in> set xs. f y \<le> f x)"
proof -
  have "sorted (map f (sort_key f xs))" "set (sort_key f xs) = set xs" by simp_all
  then show ?thesis unfolding assms by auto
qed

section \<open>Bounded logs\<close>

text \<open>
  A deque that drops its oldest entry when it is full.  The modules test for a full log with
  \<open>==\<close> or with \<open>>=\<close>; below the capacity both do the same, which is all the laws ask for.
\<close>

definition push_when_equal :: "nat \<Rightarrow> 'a \<Rightarrow> 'a list \<Rightarrow> 'a list" where
  "push_when_equal cap x xs = (if length xs = cap then tl xs else xs) @ [x]"

definition push_when_at_least :: "nat \<Rightarrow> 'a \<Rightarrow> 'a list \<Rightarrow> 'a list" where
  "push_when_at_least cap x xs = (if length xs \<ge> cap then tl xs else xs) @ [x]"

locale bounded_log =
  fixes push :: "'a \<Rightarrow> 'l \<Rightarrow> 'l"
    and entries :: "'l \<Rightarrow> 'a list"
    and cap :: "'l \<Rightarrow> nat"
  assumes entries_push: "length (entries l) \<le> cap l \<Longrightarrow>
      entries (push x l) = (if length (entries l) = cap l then tl (entries l) else entries l) @ [x]"
    and cap_push: "cap (push x l) = cap l"
begin

definition log_ok :: "'l \<Rightarrow> bool" where
  "log_ok l \<longleftrightarrow> 0 < cap l \<and> length (entries l) \<le> cap l"

lemma log_ok_push: "log_ok l \<Longrightarrow> log_ok (push x l)"
  by (auto simp: log_ok_def entries_push cap_push)

lemma log_ok_fold: "log_ok l \<Longrightarrow> log_ok (fold push xs l)"
  by (induction xs arbitrary: l) (simp_all add: log_ok_push)

lemma cap_fold: "cap (fold push xs l) = cap l"
  by (induction xs arbitrary: l) (simp_all add: cap_push)

lemma last_push: "log_ok l \<Longrightarrow> last (entries (push x l)) = x"
  by (simp add: log_ok_def entries_push)

lemma entries_push_drop:
  "log_ok l \<Longrightarrow> entries (push x l) = drop (Suc (length (entries l)) - cap l) (entries l @ [x])"
  by (auto simp: log_ok_def entries_push drop_Suc tl_append split: list.split)

text \<open>The log holds exactly the most recent entries, oldest first.\<close>

lemma entries_fold:
  "log_ok l \<Longrightarrow> entries (fold push xs l)
     = drop (length (entries l) + length xs - cap l) (entries l @ xs)"
proof (induction xs arbitrary: l)
  case (Cons x xs)
  have len: "length (entries (push x l)) = min (cap l) (Suc (length (entries l)))"
    using Cons.prems by (auto simp: log_ok_def entries_push)
  have "entries (fold push (x # xs) l)
      = drop (length (entries (push x l)) + length xs - cap l) (entries (push x l) @ xs)"
    using Cons.IH [OF log_ok_push [OF Cons.prems]] by (simp add: cap_push)
  also have "entries (push x l) @ xs = drop (Suc (length (entries l)) - cap l) (entries l @ x # xs)"
    using Cons.prems entries_push_drop [OF Cons.prems, of x] by (auto simp: log_ok_def)
  finally show ?case using len Cons.prems by (auto simp: log_ok_def min_def add.commute)
qed (simp add: log_ok_def)

end

section \<open>Registries\<close>

text \<open>
  A keyed table that validates what it registers, refuses a second value for a key, and counts
  its changes.  Every registered value stays valid, is never overwritten, and the first valid
  value offered for a key is the one that is found.
\<close>

locale registry =
  fixes register :: "'v \<Rightarrow> 's \<Rightarrow> ('e + unit) \<times> 's"
    and lookup :: "'s \<Rightarrow> 'k \<Rightarrow> 'v option"
    and key_of :: "'v \<Rightarrow> 'k"
    and valid :: "'v \<Rightarrow> bool"
    and inv :: "'s \<Rightarrow> bool"
  assumes accept: "inv s \<Longrightarrow> valid v \<Longrightarrow> lookup s (key_of v) = None \<Longrightarrow>
      fst (register v s) = Inr () \<and> inv (snd (register v s))
      \<and> lookup (snd (register v s)) = (lookup s)(key_of v \<mapsto> v)"
    and reject: "inv s \<Longrightarrow> \<not> valid v \<or> lookup s (key_of v) \<noteq> None \<Longrightarrow>
      isl (fst (register v s)) \<and> snd (register v s) = s"
begin

definition sound :: "'s \<Rightarrow> bool" where
  "sound s \<longleftrightarrow> inv s \<and> (\<forall>k v. lookup s k = Some v \<longrightarrow> valid v \<and> key_of v = k)"

lemma register_cases:
  assumes "inv s"
  obtains "valid v" "lookup s (key_of v) = None" "fst (register v s) = Inr ()" "inv (snd (register v s))"
      "lookup (snd (register v s)) = (lookup s)(key_of v \<mapsto> v)"
  | "\<not> valid v \<or> lookup s (key_of v) \<noteq> None" "isl (fst (register v s))" "snd (register v s) = s"
  using accept [OF assms, of v] reject [OF assms, of v] by blast

lemma sound_register: "sound s \<Longrightarrow> sound (snd (register v s))"
  by (rule register_cases [of s v]) (auto simp: sound_def split: if_splits)

lemma never_overwritten: "inv s \<Longrightarrow> lookup s k = Some w \<Longrightarrow> lookup (snd (register v s)) k = Some w"
  by (rule register_cases [of s v]) auto

lemma accepted_iff: "inv s \<Longrightarrow> fst (register v s) = Inr () \<longleftrightarrow> valid v \<and> lookup s (key_of v) = None"
  by (rule register_cases [of s v]) (auto simp: isl_def)

lemma lookup_fold:
  "inv s \<Longrightarrow> lookup (fold (\<lambda>v s. snd (register v s)) vs s) k
     = (case lookup s k of Some w \<Rightarrow> Some w | None \<Rightarrow> List.find (\<lambda>v. valid v \<and> key_of v = k) vs)"
proof (induction vs arbitrary: s)
  case (Cons v vs)
  show ?case
    by (rule register_cases [OF Cons.prems, of v]) (use Cons in \<open>auto split: option.split\<close>)
qed (simp split: option.split)

end

section \<open>Valid identifiers\<close>

text \<open>
  The check that \<open>admission\<close>, \<open>backend_registry\<close>, \<open>capacity\<close>, \<open>decision_trace\<close>, \<open>execution\<close>, \<open>kv\<close>
  and \<open>system_planning\<close> each define with the same text.
\<close>

definition valid_identifier :: "string \<Rightarrow> bool" where
  "valid_identifier value \<longleftrightarrow> value \<noteq> [] \<and> length value \<le> 128 \<and> list_all id_char value"

lemma valid_identifier_no_colon: "valid_identifier s \<Longrightarrow> CHR '':'' \<notin> set s"
  by (auto simp: valid_identifier_def list_all_iff dest: id_char_not_colon)

text \<open>\<open>(0.0..=1.0).contains(&v)\<close> after \<open>v.is_finite()\<close>, and the iteration over optional values.\<close>

definition some_list :: "'a option list \<Rightarrow> 'a list" where
  "some_list xs = List.map_filter id xs"

lemma some_list_simps [simp]:
  "some_list [] = []" "some_list (None # xs) = some_list xs" "some_list (Some x # xs) = x # some_list xs"
  by (simp_all add: some_list_def)

end
