(* ===== verification/F64.thy ===== *)
theory F64
  imports Prelude "HOL-Library.Log_Nat"
begin

text \<open>
  The \<open>f64\<close> of the sources: IEEE-754 binary64 with round-to-nearest-even, computed exactly.
  A finite number is its sign and its magnitude, a rational; every operation computes the
  exact rational result and rounds it to 53 significant bits (with the subnormal range and
  overflow to infinity), which is what the standard prescribes, so the definitions are
  executable and nothing about rounding is assumed.  Signed zeros, infinities and NaNs with
  sign and payload are kept, because \<open>total_cmp\<close> orders them; an operation that creates a NaN
  creates the quiet NaN with an empty payload.
\<close>

datatype f64 = NaN bool nat | Inf bool | Fin bool rat

section \<open>Rounding\<close>

text \<open>The exponent of the leading bit: \<open>2 powi e \<le> x < 2 powi (e + 1)\<close>.\<close>

definition lead_exp :: "rat \<Rightarrow> int" where
  "lead_exp x = (let (a, b) = quotient_of x; l = bitlen a - bitlen b
                 in if 2 powi l \<le> x then l else l - 1)"

definition round_half_even :: "rat \<Rightarrow> int" where
  "round_half_even y = (let f = \<lfloor>y\<rfloor>; r = y - of_int f
     in if r < 1/2 then f else if r > 1/2 then f + 1 else if even f then f else f + 1)"

text \<open>The unit in the last place of the binade of \<open>x\<close>; \<open>2 powi -1074\<close> is the least subnormal.\<close>

definition ulp_exp :: "rat \<Rightarrow> int" where
  "ulp_exp x = max (lead_exp x - 52) (- 1074)"

definition rnd :: "rat \<Rightarrow> rat" where
  "rnd x = (if x \<le> 0 then 0
            else of_int (round_half_even (x / 2 powi ulp_exp x)) * 2 powi ulp_exp x)"

text \<open>The largest finite magnitude, \<open>(2 ^ 53 - 1) * 2 ^ 971\<close>, as a literal.\<close>

definition max_mag :: rat where
  "max_mag = 179769313486231570814527423731704356798070567525844996598917476803157260780028538760589558632766878171540458953514382464234321326889464182768467546703537516986049910576551282076245490090389328944075868508455133942304583236903222948165808559332123348274797826204144723168738177180919299881250404026184124858368"

lemma max_mag_eq: "max_mag = (2 ^ 53 - 1) * 2 ^ 971"
  by (simp add: max_mag_def)

definition mk_f64 :: "bool \<Rightarrow> rat \<Rightarrow> f64" where
  "mk_f64 s x = (if rnd x > max_mag then Inf s else Fin s (rnd x))"

text \<open>A decimal literal of the source is the nearest binary64.\<close>

definition f64_lit :: "rat \<Rightarrow> f64" where
  "f64_lit x = mk_f64 (x < 0) \<bar>x\<bar>"

subsection \<open>Rounding is monotone and leaves representable numbers alone\<close>

lemma bitlen_bounds_rat:
  assumes "0 < a"
  shows "2 powi (bitlen a - 1) \<le> (of_int a :: rat)" "(of_int a :: rat) < 2 powi bitlen a"
proof -
  have pos: "0 < bitlen a" using assms bitlen_eq_zero_iff [of a] bitlen_nonneg [of a] by linarith
  have b: "2 ^ nat (bitlen a - 1) \<le> a" "a < 2 ^ nat (bitlen a)"
    using bitlen_bounds [OF assms] by auto
  have "(2::rat) powi (bitlen a - 1) = of_int (2 ^ nat (bitlen a - 1))"
    using pos by (simp add: power_int_def)
  with b show "2 powi (bitlen a - 1) \<le> (of_int a :: rat)" by (simp only: of_int_le_iff)
  have "(2::rat) powi bitlen a = of_int (2 ^ nat (bitlen a))"
    using pos by (simp add: power_int_def)
  with b show "(of_int a :: rat) < 2 powi bitlen a" by (simp only: of_int_less_iff)
qed

lemma lead_exp_bounds:
  assumes "0 < x"
  shows "2 powi lead_exp x \<le> x" "x < 2 powi (lead_exp x + 1)"
proof -
  obtain a b where q: "quotient_of x = (a, b)" by fastforce
  have b: "0 < b" using quotient_of_denom_pos [OF q] .
  have x: "x = of_int a / of_int b" using quotient_of_div [OF q] .
  have a: "0 < a" using assms b by (simp add: x zero_less_divide_iff)
  define l where "l = bitlen a - bitlen b"
  note ba = bitlen_bounds_rat [OF a] and bb = bitlen_bounds_rat [OF b]
  have "x < 2 powi bitlen a / 2 powi (bitlen b - 1)"
    unfolding x using ba bb b a by (intro frac_less) auto
  also have "\<dots> = 2 powi (l + 1)" by (simp add: l_def power_int_diff power_int_add)
  finally have hi: "x < 2 powi (l + 1)" .
  have "2 powi (bitlen a - 1) / 2 powi bitlen b \<le> x"
    unfolding x using ba bb b a by (intro frac_le) auto
  moreover have "(2::rat) powi (bitlen a - 1) / 2 powi bitlen b = 2 powi (l - 1)"
    by (simp add: l_def power_int_diff)
  ultimately have lo: "2 powi (l - 1) \<le> x" by simp
  have e: "lead_exp x = (if 2 powi l \<le> x then l else l - 1)"
    by (simp add: lead_exp_def q l_def)
  show "2 powi lead_exp x \<le> x" "x < 2 powi (lead_exp x + 1)"
    using hi lo by (simp_all add: e)
qed

lemma lead_exp_mono:
  assumes "0 < x" "x \<le> y"
  shows "lead_exp x \<le> lead_exp y"
proof (rule ccontr)
  assume "\<not> lead_exp x \<le> lead_exp y"
  then have "(2::rat) powi (lead_exp y + 1) \<le> 2 powi lead_exp x"
    by (intro power_int_increasing) auto
  then show False using lead_exp_bounds [of x] lead_exp_bounds [of y] assms by linarith
qed

lemma round_half_even_bounds:
  "\<lfloor>y\<rfloor> \<le> round_half_even y" "round_half_even y \<le> \<lfloor>y\<rfloor> + 1"
  by (auto simp: round_half_even_def Let_def)

lemma round_half_even_mono: "x \<le> y \<Longrightarrow> round_half_even x \<le> round_half_even y"
proof (cases "\<lfloor>x\<rfloor> = \<lfloor>y\<rfloor>")
  case True
  assume "x \<le> y"
  with True show ?thesis by (auto simp: round_half_even_def Let_def)
next
  case False
  assume "x \<le> y"
  with False have "\<lfloor>x\<rfloor> + 1 \<le> \<lfloor>y\<rfloor>" using floor_mono [of x y] by linarith
  then show ?thesis
    using round_half_even_bounds(2) [of x] round_half_even_bounds(1) [of y] by linarith
qed

lemma round_half_even_of_int [simp]: "round_half_even (of_int n) = n"
  by (simp add: round_half_even_def)

lemma round_half_even_nonneg: "0 \<le> x \<Longrightarrow> 0 \<le> round_half_even x"
  using round_half_even_mono [of 0 x] round_half_even_of_int [of 0] by simp

lemma rnd_zero [simp]: "rnd 0 = 0"
  by (simp add: rnd_def)

lemma rnd_pos_eq: "0 < x \<Longrightarrow> rnd x = of_int (round_half_even (x / 2 powi ulp_exp x)) * 2 powi ulp_exp x"
  by (simp add: rnd_def)

lemma rnd_nonneg [simp]: "0 \<le> rnd x"
  by (cases "x \<le> 0") (auto simp: rnd_def intro!: mult_nonneg_nonneg round_half_even_nonneg)

text \<open>
  Every integer multiple of the unit in the last place, up to the top of the binade, is a
  fixed point; the top of the binade is one of them, which gives monotonicity across binades.
\<close>

lemma two_powi_int: "0 \<le> k \<Longrightarrow> (2::rat) powi k = of_int (2 ^ nat k)"
  by (simp add: power_int_def)

lemma rnd_le_binade_top:
  assumes "0 < x" "ulp_exp x \<le> k" "x \<le> 2 powi k"
  shows "rnd x \<le> 2 powi k"
proof -
  let ?u = "ulp_exp x"
  have u: "(0::rat) < 2 powi ?u" by simp
  have k: "(2::rat) powi k / 2 powi ?u = of_int (2 ^ nat (k - ?u))"
    using assms(2) by (simp add: two_powi_int flip: power_int_diff)
  have "x / 2 powi ?u \<le> of_int (2 ^ nat (k - ?u))"
    using assms(3) u unfolding k [symmetric] by (intro divide_right_mono) auto
  then have "round_half_even (x / 2 powi ?u) \<le> 2 ^ nat (k - ?u)"
    using round_half_even_mono round_half_even_of_int by metis
  then have "of_int (round_half_even (x / 2 powi ?u)) \<le> (of_int (2 ^ nat (k - ?u)) :: rat)"
    by (simp only: of_int_le_iff)
  then have "of_int (round_half_even (x / 2 powi ?u)) \<le> (2::rat) powi k / 2 powi ?u"
    by (simp only: k)
  then show ?thesis using assms(1) u by (simp add: rnd_pos_eq pos_le_divide_eq)
qed

lemma rnd_ge_binade_bottom:
  assumes "0 < x" "ulp_exp x \<le> k" "2 powi k \<le> x"
  shows "2 powi k \<le> rnd x"
proof -
  let ?u = "ulp_exp x"
  have u: "(0::rat) < 2 powi ?u" by simp
  have k: "(2::rat) powi k / 2 powi ?u = of_int (2 ^ nat (k - ?u))"
    using assms(2) by (simp add: two_powi_int flip: power_int_diff)
  have "of_int (2 ^ nat (k - ?u)) \<le> x / 2 powi ?u"
    using assms(3) u unfolding k [symmetric] by (intro divide_right_mono) auto
  then have "2 ^ nat (k - ?u) \<le> round_half_even (x / 2 powi ?u)"
    using round_half_even_mono round_half_even_of_int by metis
  then have "(of_int (2 ^ nat (k - ?u)) :: rat) \<le> of_int (round_half_even (x / 2 powi ?u))"
    by (simp only: of_int_le_iff)
  then have "(2::rat) powi k / 2 powi ?u \<le> of_int (round_half_even (x / 2 powi ?u))"
    by (simp only: k)
  then show ?thesis using assms(1) u by (simp add: rnd_pos_eq pos_divide_le_eq)
qed

lemma rnd_mono:
  assumes "x \<le> y"
  shows "rnd x \<le> rnd y"
proof (cases "0 < x")
  case False
  then show ?thesis by (simp add: rnd_def [of x])
next
  case True
  with assms have y: "0 < y" by simp
  have le: "ulp_exp x \<le> ulp_exp y"
    using lead_exp_mono [OF True assms] by (simp add: ulp_exp_def)
  show ?thesis
  proof (cases "ulp_exp x = ulp_exp y")
    case eq: True
    have "x / 2 powi ulp_exp y \<le> y / 2 powi ulp_exp y"
      using assms by (intro divide_right_mono) auto
    then have "round_half_even (x / 2 powi ulp_exp y) \<le> round_half_even (y / 2 powi ulp_exp y)"
      by (rule round_half_even_mono)
    then show ?thesis
      by (simp add: rnd_pos_eq [OF True] rnd_pos_eq [OF y] eq)
  next
    case False
    with le have lt: "ulp_exp x < ulp_exp y" by simp
    then have ey: "ulp_exp y = lead_exp y - 52" and "lead_exp x < lead_exp y"
      by (auto simp: ulp_exp_def)
    then have "x \<le> 2 powi lead_exp y"
      using lead_exp_bounds(2) [OF True] power_int_increasing [of "lead_exp x + 1" "lead_exp y" "2::rat"]
      by simp
    then have "rnd x \<le> 2 powi lead_exp y"
      using True lt ey by (intro rnd_le_binade_top) auto
    also have "\<dots> \<le> rnd y"
      using y ey lead_exp_bounds(1) [OF y] by (intro rnd_ge_binade_bottom) auto
    finally show ?thesis .
  qed
qed

text \<open>A number with at most 53 significant bits above the subnormal limit is its own rounding.\<close>

lemma rnd_fixed:
  assumes n: "0 \<le> n" "n \<le> 2 ^ 53" and e: "- 1074 \<le> e"
  shows "rnd (of_int n * 2 powi e) = of_int n * 2 powi e"
proof (cases "n = 0")
  case False
  let ?x = "of_int n * 2 powi e :: rat"
  from False n have pos: "0 < ?x" by simp
  show ?thesis
  proof (cases "ulp_exp ?x \<le> e")
    case True
    define u where "u = ulp_exp ?x"
    have d: "of_int (n * 2 ^ nat (e - u)) = of_int n * (2::rat) powi (e - u)"
      using True two_powi_int [of "e - u"] by (simp add: u_def)
    have "?x / 2 powi u = of_int (n * 2 ^ nat (e - u))"
      unfolding d by (simp add: power_int_diff)
    then have "rnd ?x = of_int (n * 2 ^ nat (e - u)) * 2 powi u"
      by (simp only: rnd_pos_eq [OF pos] round_half_even_of_int flip: u_def)
    also have "\<dots> = of_int n * (2 powi (e - u) * 2 powi u)"
      unfolding d by simp
    finally show ?thesis by (simp flip: power_int_add)
  next
    case False
    then have u: "ulp_exp ?x = lead_exp ?x - 52" and le: "e + 53 \<le> lead_exp ?x"
      using e by (auto simp: ulp_exp_def max_def split: if_splits)
    have "?x \<le> of_int (2 ^ 53) * 2 powi e"
      using n by (intro mult_right_mono) (auto simp only: of_int_le_iff, simp)
    also have "\<dots> = 2 powi (e + 53)" by (simp add: power_int_add)
    finally have hi: "?x \<le> 2 powi (e + 53)" .
    have "(2::rat) powi (e + 53) \<le> 2 powi lead_exp ?x"
      using le by (intro power_int_increasing) auto
    then have x: "?x = 2 powi lead_exp ?x"
      using lead_exp_bounds(1) [OF pos] hi by linarith
    then have "rnd ?x = 2 powi lead_exp ?x"
      using rnd_le_binade_top [OF pos, of "lead_exp ?x"] rnd_ge_binade_bottom [OF pos, of "lead_exp ?x"] u
      by simp
    with x show ?thesis by simp
  qed
qed simp

lemma rnd_idem [simp]: "rnd (rnd x) = rnd x"
proof (cases "0 < x")
  case False
  then show ?thesis by (simp add: rnd_def)
next
  case True
  let ?u = "ulp_exp x" and ?n = "round_half_even (x / 2 powi ulp_exp x)"
  have "x < 2 powi (lead_exp x + 1)" by (rule lead_exp_bounds [OF True])
  also have "(2::rat) powi (lead_exp x + 1) \<le> 2 powi (?u + 53)"
    by (intro power_int_increasing) (auto simp: ulp_exp_def)
  finally have "x / 2 powi ?u \<le> 2 ^ 53" by (simp add: power_int_add pos_divide_le_eq)
  then have "?n \<le> round_half_even (of_int (2 ^ 53))" by (intro round_half_even_mono) simp
  then have "?n \<le> 2 ^ 53" by (simp only: round_half_even_of_int)
  moreover have "0 \<le> ?n" using True by (intro round_half_even_nonneg) simp
  ultimately show ?thesis
    using rnd_fixed [of ?n ?u] by (simp add: rnd_pos_eq [OF True] ulp_exp_def)
qed

lemma rnd_of_int: "0 \<le> n \<Longrightarrow> n \<le> 2 ^ 53 \<Longrightarrow> rnd (of_int n) = of_int n"
  using rnd_fixed [of n 0] by simp

lemma rnd_of_nat: "n \<le> 2 ^ 53 \<Longrightarrow> rnd (of_nat n) = of_nat n"
  using rnd_of_int [of "int n"] of_nat_mono [of n "2 ^ 53", where ?'a = int] by simp

lemma rnd_le_max: "x \<le> max_mag \<Longrightarrow> rnd x \<le> max_mag"
proof -
  have "rnd max_mag = max_mag"
    using rnd_fixed [of "2 ^ 53 - 1" 971] by (simp add: max_mag_eq)
  then show "x \<le> max_mag \<Longrightarrow> rnd x \<le> max_mag" by (metis rnd_mono)
qed

section \<open>Operations\<close>

definition f_nan :: f64 where
  "f_nan = NaN False (2 ^ 51)"

abbreviation f_inf :: f64 where
  "f_inf \<equiv> Inf False"

abbreviation f_zero :: f64 where
  "f_zero \<equiv> Fin False 0"

abbreviation f_one :: f64 where
  "f_one \<equiv> Fin False 1"

fun is_nan :: "f64 \<Rightarrow> bool" where
  "is_nan (NaN s p) = True"
| "is_nan _ = False"

fun is_infinite :: "f64 \<Rightarrow> bool" where
  "is_infinite (Inf s) = True"
| "is_infinite _ = False"

fun is_finite :: "f64 \<Rightarrow> bool" where
  "is_finite (Fin s m) = True"
| "is_finite _ = False"

definition signed :: "bool \<Rightarrow> rat \<Rightarrow> rat" where
  "signed s m = (if s then - m else m)"

fun fneg :: "f64 \<Rightarrow> f64" where
  "fneg (NaN s p) = NaN (\<not> s) p"
| "fneg (Inf s) = Inf (\<not> s)"
| "fneg (Fin s m) = Fin (\<not> s) m"

fun fabs :: "f64 \<Rightarrow> f64" where
  "fabs (NaN s p) = NaN False p"
| "fabs (Inf s) = Inf False"
| "fabs (Fin s m) = Fin False m"

text \<open>An exact zero sum is \<open>+0\<close> unless both operands are negative.\<close>

fun fadd :: "f64 \<Rightarrow> f64 \<Rightarrow> f64" where
  "fadd (Fin s m) (Fin t n) =
     (let v = signed s m + signed t n
      in if v = 0 then Fin (s \<and> t) 0 else mk_f64 (v < 0) \<bar>v\<bar>)"
| "fadd (Inf s) (Inf t) = (if s = t then Inf s else f_nan)"
| "fadd (Inf s) (Fin t n) = Inf s"
| "fadd (Fin s m) (Inf t) = Inf t"
| "fadd _ _ = f_nan"

definition fsub :: "f64 \<Rightarrow> f64 \<Rightarrow> f64" where
  "fsub a b = fadd a (fneg b)"

fun fmul :: "f64 \<Rightarrow> f64 \<Rightarrow> f64" where
  "fmul (Fin s m) (Fin t n) = mk_f64 (s \<noteq> t) (m * n)"
| "fmul (Inf s) (Inf t) = Inf (s \<noteq> t)"
| "fmul (Inf s) (Fin t n) = (if n = 0 then f_nan else Inf (s \<noteq> t))"
| "fmul (Fin s m) (Inf t) = (if m = 0 then f_nan else Inf (s \<noteq> t))"
| "fmul _ _ = f_nan"

fun fdiv :: "f64 \<Rightarrow> f64 \<Rightarrow> f64" where
  "fdiv (Fin s m) (Fin t n) =
     (if n = 0 then (if m = 0 then f_nan else Inf (s \<noteq> t)) else mk_f64 (s \<noteq> t) (m / n))"
| "fdiv (Inf s) (Inf t) = f_nan"
| "fdiv (Inf s) (Fin t n) = Inf (s \<noteq> t)"
| "fdiv (Fin s m) (Inf t) = Fin (s \<noteq> t) 0"
| "fdiv _ _ = f_nan"

text \<open>The IEEE comparisons: false on NaN, and the two zeros are equal.\<close>

fun cmp_key :: "f64 \<Rightarrow> int \<times> rat" where
  "cmp_key (Fin s m) = (0, signed s m)"
| "cmp_key (Inf s) = (if s then - 1 else 1, 0)"
| "cmp_key (NaN s p) = (2, 0)"

definition f_lt :: "f64 \<Rightarrow> f64 \<Rightarrow> bool" where
  "f_lt a b = (\<not> is_nan a \<and> \<not> is_nan b \<and> cmp_key a < cmp_key b)"

definition f_le :: "f64 \<Rightarrow> f64 \<Rightarrow> bool" where
  "f_le a b = (\<not> is_nan a \<and> \<not> is_nan b \<and> cmp_key a \<le> cmp_key b)"

definition f_eq :: "f64 \<Rightarrow> f64 \<Rightarrow> bool" where
  "f_eq a b = (\<not> is_nan a \<and> \<not> is_nan b \<and> cmp_key a = cmp_key b)"

abbreviation f_gt :: "f64 \<Rightarrow> f64 \<Rightarrow> bool" where
  "f_gt a b \<equiv> f_lt b a"

abbreviation f_ge :: "f64 \<Rightarrow> f64 \<Rightarrow> bool" where
  "f_ge a b \<equiv> f_le b a"

text \<open>\<open>clamp\<close> keeps a NaN; \<open>max\<close> and \<open>min\<close> return the operand that is not NaN.\<close>

definition fclamp :: "f64 \<Rightarrow> f64 \<Rightarrow> f64 \<Rightarrow> f64" where
  "fclamp x lo hi = (let y = (if f_lt x lo then lo else x) in if f_gt y hi then hi else y)"

definition fmax :: "f64 \<Rightarrow> f64 \<Rightarrow> f64" where
  "fmax a b = (if is_nan a then b else if is_nan b then a else if f_lt a b then b else a)"

definition fmin :: "f64 \<Rightarrow> f64 \<Rightarrow> f64" where
  "fmin a b = (if is_nan a then b else if is_nan b then a else if f_lt b a then b else a)"

text \<open>\<open>n as f64\<close> rounds; \<open>x as u64\<close> truncates and saturates, a NaN gives 0.\<close>

definition f64_of_nat :: "nat \<Rightarrow> f64" where
  "f64_of_nat n = mk_f64 False (of_nat n)"

abbreviation f64_of_u64 :: "64 word \<Rightarrow> f64" where
  "f64_of_u64 w \<equiv> f64_of_nat (unat w)"

fun f64_to_nat :: "nat \<Rightarrow> f64 \<Rightarrow> nat" where
  "f64_to_nat mx (Fin s m) = (if s then 0 else min mx (nat \<lfloor>m\<rfloor>))"
| "f64_to_nat mx (Inf s) = (if s then 0 else mx)"
| "f64_to_nat mx (NaN s p) = 0"

definition f64_to_u64 :: "f64 \<Rightarrow> 64 word" where
  "f64_to_u64 x = of_nat (f64_to_nat (2 ^ 64 - 1) x)"

text \<open>\<open>round\<close>: to the nearest integer, halves away from zero.\<close>

fun fround :: "f64 \<Rightarrow> f64" where
  "fround (Fin s m) = Fin s (of_int \<lfloor>m + 1/2\<rfloor>)"
| "fround x = x"

section \<open>The total order of \<open>total_cmp\<close>\<close>

text \<open>
  \<open>total_cmp\<close> orders the bit patterns: negative NaN, \<open>-\<infinity>\<close>, the negative numbers, \<open>-0\<close>, \<open>+0\<close>,
  the positive numbers, \<open>+\<infinity>\<close>, positive NaN.  It is the \<open>linorder\<close> of the type, so that
  \<open>sort_by(|a, b| a.total_cmp(b))\<close> is \<^const>\<open>sort_key\<close>.
\<close>

fun total_key :: "f64 \<Rightarrow> int \<times> rat" where
  "total_key (NaN s p) = (if s then (- 3, - of_nat p) else (3, of_nat p))"
| "total_key (Inf s) = (if s then (- 2, 0) else (2, 0))"
| "total_key (Fin s m) = (if s then (- 1, - m) else (1, m))"

lemma total_key_inject: "total_key a = total_key b \<Longrightarrow> a = b"
  by (cases a; cases b) (auto split: if_splits)

instantiation f64 :: linorder
begin

definition less_eq_f64 :: "f64 \<Rightarrow> f64 \<Rightarrow> bool" where
  "a \<le> b \<longleftrightarrow> total_key a \<le> total_key b"

definition less_f64 :: "f64 \<Rightarrow> f64 \<Rightarrow> bool" where
  "a < b \<longleftrightarrow> total_key a < total_key b"

instance
  by standard (auto simp: less_eq_f64_def less_f64_def dest: total_key_inject)

end

section \<open>Non-negative values\<close>

text \<open>
  Costs are non-negative: a finite magnitude or \<open>+\<infinity>\<close>.  On them the IEEE comparisons and the
  total order agree, addition is monotone and, on values that are in binary64, never goes down.
\<close>

fun fnonneg :: "f64 \<Rightarrow> bool" where
  "fnonneg (Fin s m) = (\<not> s \<and> 0 \<le> m)"
| "fnonneg (Inf s) = (\<not> s)"
| "fnonneg (NaN s p) = False"

fun wf_f64 :: "f64 \<Rightarrow> bool" where
  "wf_f64 (Fin s m) = (rnd m = m \<and> m \<le> max_mag)"
| "wf_f64 _ = True"

lemma wf_mk_f64 [simp]: "wf_f64 (mk_f64 s x)"
  by (simp add: mk_f64_def)

lemma fnonneg_mk_f64 [simp]: "fnonneg (mk_f64 False x)"
  by (simp add: mk_f64_def)

lemma mk_f64_mono: "x \<le> y \<Longrightarrow> mk_f64 False x \<le> mk_f64 False y"
  using rnd_mono [of x y] by (auto simp: mk_f64_def less_eq_f64_def)

lemma fnonneg_cases:
  assumes "fnonneg a"
  obtains (fin) m where "a = Fin False m" "0 \<le> m" | (inf) "a = Inf False"
  using assms by (cases a) auto

lemma f_lt_nonneg: "fnonneg a \<Longrightarrow> fnonneg b \<Longrightarrow> f_lt a b \<longleftrightarrow> a < b"
  by (elim fnonneg_cases) (auto simp: f_lt_def less_f64_def signed_def)

lemma f_le_nonneg: "fnonneg a \<Longrightarrow> fnonneg b \<Longrightarrow> f_le a b \<longleftrightarrow> a \<le> b"
  by (elim fnonneg_cases) (auto simp: f_le_def less_eq_f64_def signed_def)

lemma fadd_fin_nonneg: "0 \<le> m \<Longrightarrow> 0 \<le> n \<Longrightarrow> fadd (Fin False m) (Fin False n) = mk_f64 False (m + n)"
  by (auto simp: signed_def Let_def mk_f64_def)
    (simp_all add: max_mag_def)

lemma fadd_nonneg [simp]: "fnonneg a \<Longrightarrow> fnonneg b \<Longrightarrow> fnonneg (fadd a b)"
  by (elim fnonneg_cases) (simp_all add: fadd_fin_nonneg del: fadd.simps(1))

lemma wf_fadd [simp]: "wf_f64 (fadd a b)"
  by (cases "(a, b)" rule: fadd.cases) (simp_all add: Let_def f_nan_def max_mag_def)

lemma fnonneg_le_inf: "fnonneg a \<Longrightarrow> a \<le> Inf False"
  by (elim fnonneg_cases) (auto simp: less_eq_f64_def)

lemma fadd_mono_left:
  assumes "fnonneg a" "fnonneg b" "fnonneg w" "a \<le> b"
  shows "fadd a w \<le> fadd b w"
  using assms
  by (elim fnonneg_cases)
    (auto simp: fadd_fin_nonneg less_eq_f64_def simp del: fadd.simps(1)
      intro: mk_f64_mono [unfolded less_eq_f64_def] fnonneg_le_inf [unfolded less_eq_f64_def, simplified])

lemma fadd_increases:
  assumes "fnonneg a" "wf_f64 a" "fnonneg w"
  shows "a \<le> fadd a w"
  using assms(1)
proof (cases rule: fnonneg_cases)
  case (fin m)
  show ?thesis
    using assms(3)
  proof (cases rule: fnonneg_cases)
    case w: (fin n)
    have "a = mk_f64 False m" using fin assms(2) by (auto simp: mk_f64_def)
    also have "\<dots> \<le> mk_f64 False (m + n)" using w by (intro mk_f64_mono) simp
    finally show ?thesis using fin w by (simp add: fadd_fin_nonneg del: fadd.simps)
  qed (use fin in \<open>simp add: less_eq_f64_def\<close>)
next
  case inf
  then show ?thesis using assms(3) by (elim fnonneg_cases) (simp_all add: less_eq_f64_def)
qed

section \<open>Bounded values\<close>

text \<open>
  \<open>fbounded B a\<close>: \<open>a\<close> is a finite number between 0 and \<open>B\<close>.  Rounding cannot leave such an
  interval when \<open>B\<close> itself is in binary64, so bounds of exact arithmetic carry over.
\<close>

definition fbounded :: "rat \<Rightarrow> f64 \<Rightarrow> bool" where
  "fbounded B a = (case a of Fin s m \<Rightarrow> \<not> s \<and> 0 \<le> m \<and> m \<le> B | _ \<Rightarrow> False)"

named_theorems fbound "bounds of rounded operations"

lemma fboundedE:
  assumes "fbounded B a"
  obtains m where "a = Fin False m" "0 \<le> m" "m \<le> B"
  using assms by (auto simp: fbounded_def split: f64.splits)

lemma fbounded_Fin [simp]: "fbounded B (Fin s m) \<longleftrightarrow> \<not> s \<and> 0 \<le> m \<and> m \<le> B"
  by (simp add: fbounded_def)

lemma fbounded_special [simp]: "\<not> fbounded B (Inf s)" "\<not> fbounded B (NaN s k)"
  by (simp_all add: fbounded_def)

lemma fbounded_fnonneg: "fbounded B a \<Longrightarrow> fnonneg a"
  by (auto elim!: fboundedE)

lemma fbounded_finite: "fbounded B a \<Longrightarrow> is_finite a"
  by (auto elim!: fboundedE)

lemma fbounded_mono: "fbounded A a \<Longrightarrow> A \<le> B \<Longrightarrow> fbounded B a"
  by (auto elim!: fboundedE)

lemma max_mag_gt: "2 ^ 53 \<le> max_mag"
  by (simp add: max_mag_def)

lemma fbounded_mk:
  assumes "x \<le> of_int n" "0 \<le> n" "n \<le> 2 ^ 53"
  shows "fbounded (of_int n) (mk_f64 False x)"
proof -
  have "rnd x \<le> of_int n" using rnd_mono [OF assms(1)] rnd_of_int [OF assms(2,3)] by simp
  moreover have "(of_int n :: rat) \<le> of_int (2 ^ 53)" using assms(3) by (simp only: of_int_le_iff)
  then have "of_int n \<le> max_mag" using max_mag_gt by simp
  ultimately show ?thesis by (simp add: mk_f64_def)
qed

lemma fbounded_mk_pow:
  assumes "x \<le> 2 ^ k" "k \<le> 1023"
  shows "fbounded (2 ^ k) (mk_f64 False x)"
proof -
  have "rnd (2 ^ k) = 2 ^ k" using rnd_fixed [of 1 "int k"] by simp
  with rnd_mono [OF assms(1)] have le: "rnd x \<le> 2 ^ k" by simp
  have "(2::rat) ^ k \<le> 2 ^ 1023" using assms(2) by (intro power_increasing) auto
  then have "(2::rat) ^ k \<le> max_mag" by (rule order_trans) (simp add: max_mag_def)
  with le show ?thesis by (simp add: mk_f64_def)
qed

lemma fbounded_fadd_pow:
  assumes "fbounded (2 ^ k) a" "fbounded (2 ^ k) b" "k < 1023"
  shows "fbounded (2 ^ Suc k) (fadd a b)"
proof -
  from assms(1,2) obtain x y where "a = Fin False x" "b = Fin False y" "0 \<le> x" "0 \<le> y"
    and "x + y \<le> 2 ^ Suc k"
    by (elim fboundedE) simp
  then show ?thesis using fbounded_mk_pow [of _ "Suc k"] assms(3)
    by (simp add: fadd_fin_nonneg del: fadd.simps)
qed

lemma fbounded_fdiv_pow:
  assumes "fbounded (2 ^ k) a" "1 \<le> c" "k \<le> 1023"
  shows "fbounded (2 ^ k) (fdiv a (Fin False c))"
proof -
  from assms obtain x where x: "a = Fin False x" "0 \<le> x" "x \<le> 2 ^ k" by (elim fboundedE)
  have "x / c \<le> x / 1" using x assms(2) by (intro divide_left_mono) auto
  with x have "x / c \<le> 2 ^ k" by simp
  then show ?thesis using x assms fbounded_mk_pow by simp
qed

lemma fbounded_fadd [fbound]:
  assumes "fbounded (of_int m) a" "fbounded (of_int n) b" "0 \<le> m + n" "m + n \<le> 2 ^ 53"
  shows "fbounded (of_int (m + n)) (fadd a b)"
proof -
  from assms(1,2) obtain x y where "a = Fin False x" "b = Fin False y" "0 \<le> x" "0 \<le> y"
    and "x + y \<le> of_int (m + n)"
    by (elim fboundedE) simp
  then show ?thesis using fbounded_mk [OF _ assms(3,4)] by (simp add: fadd_fin_nonneg del: fadd.simps)
qed

lemma fbounded_fmul [fbound]:
  assumes "fbounded (of_int m) a" "fbounded (of_int n) b" "0 \<le> m * n" "m * n \<le> 2 ^ 53"
  shows "fbounded (of_int (m * n)) (fmul a b)"
proof -
  obtain x where x: "a = Fin False x" "0 \<le> x" "x \<le> of_int m" using assms(1) by (rule fboundedE)
  obtain y where y: "b = Fin False y" "0 \<le> y" "y \<le> of_int n" using assms(2) by (rule fboundedE)
  have "x * y \<le> of_int m * of_int n" using x y by (intro mult_mono) auto
  then show ?thesis using fbounded_mk [OF _ assms(3,4)] by (simp add: x y)
qed

lemma fbounded_fdiv_lit:
  assumes "fbounded (of_int (m * n)) a" "0 < n" "0 \<le> m" "m \<le> 2 ^ 53"
  shows "fbounded (of_int m) (fdiv a (Fin False (of_int n)))"
proof -
  from assms obtain x where "a = Fin False x" "0 \<le> x" "x \<le> of_int m * of_int n"
    by (auto elim!: fboundedE)
  moreover from this assms have "x / of_int n \<le> of_int m" by (simp add: pos_divide_le_eq)
  ultimately show ?thesis using assms by (auto intro!: fbounded_mk)
qed

lemma f64_lit_int: "0 \<le> n \<Longrightarrow> n \<le> 2 ^ 53 \<Longrightarrow> f64_lit (of_int n) = Fin False (of_int n)"
proof -
  assume n: "0 \<le> n" "n \<le> 2 ^ 53"
  then have "(of_int n :: rat) \<le> of_int (2 ^ 53)" by (simp only: of_int_le_iff)
  then have "of_int n \<le> max_mag" using max_mag_gt by simp
  with n show ?thesis by (simp add: f64_lit_def mk_f64_def rnd_of_int)
qed

lemma f64_of_nat_small:
  assumes "n \<le> 2 ^ 53"
  shows "f64_of_nat n = Fin False (of_nat n)"
proof -
  have "of_nat n \<le> max_mag" using max_mag_gt of_nat_mono [OF assms, where ?'a = rat] by simp
  with assms show ?thesis by (simp add: f64_of_nat_def mk_f64_def rnd_of_nat)
qed

lemma fnonneg_f64_of_nat [simp]: "fnonneg (f64_of_nat n)"
  by (simp add: f64_of_nat_def)

lemma rnd_unit: "rnd x \<le> 1" if "x \<le> 1"
  using rnd_mono [OF that] rnd_of_int [of 1] by simp

lemma fbounded_f64_lit: "0 \<le> x \<Longrightarrow> x \<le> 1 \<Longrightarrow> fbounded 1 (f64_lit x)"
  using fbounded_mk [of x 1] by (simp add: f64_lit_def)

lemma fbounded_one_minus: "fbounded 1 a \<Longrightarrow> fbounded 1 (fsub f_one a)"
proof (elim fboundedE)
  fix m assume m: "a = Fin False m" "0 \<le> m" "m \<le> 1"
  then have "fsub f_one a = (if m = 1 then Fin False 0 else mk_f64 False (1 - m))"
    by (auto simp: fsub_def signed_def Let_def)
  with m show ?thesis using fbounded_mk [of "1 - m" 1] by simp
qed

lemma wf_f64_nonneg: "wf_f64 (Fin s m) \<Longrightarrow> 0 \<le> m"
  using rnd_nonneg [of m] by simp

lemma fclamp_unit_id: "fbounded 1 a \<Longrightarrow> fclamp a f_zero f_one = a"
  by (auto elim!: fboundedE simp: fclamp_def f_lt_def signed_def Let_def)

lemma percentile_bound:
  assumes "fbounded 1 p" "n \<le> 2 ^ 53"
  shows "f64_to_nat mx (fround (fmul (f64_of_nat n) p)) \<le> n"
proof -
  from assms(1) obtain q where q: "p = Fin False q" "0 \<le> q" "q \<le> 1" by (rule fboundedE)
  have "of_nat n * q \<le> of_int (int n)" using q by (simp add: mult_left_le)
  with assms(2) have "fbounded (of_int (int n)) (fmul (f64_of_nat n) p)"
    using fbounded_mk [of "of_nat n * q" "int n"] of_nat_mono [OF assms(2), where ?'a = int]
    by (simp add: f64_of_nat_small q)
  then obtain r where "fmul (f64_of_nat n) p = Fin False r" "0 \<le> r" "r \<le> of_nat n"
    by (auto elim!: fboundedE)
  then show ?thesis by (simp add: min_le_iff_disj) linarith
qed

section \<open>Values that compare as non-negative\<close>

text \<open>
  A check \<open>x >= 0.0\<close> also accepts \<open>-0.0\<close>.  \<open>fge0\<close> is what such a check establishes; adding
  a value without a sign bit gives a value without a sign bit again.
\<close>

fun fge0 :: "f64 \<Rightarrow> bool" where
  "fge0 (Fin s m) = (0 \<le> m \<and> (s \<longrightarrow> m = 0))"
| "fge0 (Inf s) = (\<not> s)"
| "fge0 (NaN s p) = False"

lemma fnonneg_fge0: "fnonneg a \<Longrightarrow> fge0 a"
  by (cases a) auto

lemma fge0_iff_compare:
  assumes "wf_f64 a"
  shows "fge0 a \<longleftrightarrow> f_ge a f_zero"
proof (cases a)
  case (Fin s m)
  then show ?thesis using assms wf_f64_nonneg [of s m] by (auto simp: f_le_def signed_def)
qed (auto simp: f_le_def signed_def)

lemma mk_f64_zero [simp]: "mk_f64 s 0 = Fin s 0"
  by (simp add: mk_f64_def max_mag_def)

lemma fge0_mk_f64 [simp]: "fge0 (mk_f64 False x)"
  by (rule fnonneg_fge0) simp

lemma fge0_fadd [simp]: "fge0 a \<Longrightarrow> fge0 b \<Longrightarrow> fge0 (fadd a b)"
  by (cases "(a, b)" rule: fadd.cases) (auto simp: Let_def signed_def)

lemma fnonneg_fadd_right: "fge0 a \<Longrightarrow> fnonneg b \<Longrightarrow> fnonneg (fadd a b)"
  by (cases "(a, b)" rule: fadd.cases) (auto simp: Let_def signed_def)

lemma fge0_fmul: "fge0 a \<Longrightarrow> fge0 b \<Longrightarrow> is_finite a \<Longrightarrow> is_finite b \<Longrightarrow> fge0 (fmul a b)"
  by (cases a; cases b) auto

lemma fge0_fdiv: "fge0 a \<Longrightarrow> is_finite a \<Longrightarrow> fge0 b \<Longrightarrow> f_lt f_zero b \<Longrightarrow> fge0 (fdiv a b)"
  by (cases a; cases b) (auto simp: f_lt_def signed_def split: if_splits)

lemma fclamp_unit:
  assumes "fge0 a"
  shows "fge0 (fclamp a f_zero f_one)" "is_finite (fclamp a f_zero f_one)"
    "f_le (fclamp a f_zero f_one) f_one"
  using assms by (cases a; auto simp: fclamp_def f_lt_def f_le_def signed_def Let_def)+

end
