(* ===== verification/Kv.thy ===== *)
theory Kv
  imports F64
begin

text \<open>
  \<open>src/src/kv.rs\<close>: metadata of models, the registry of measured cross-model KV-cache transfers,
  and the selection of a KV strategy, which falls back to a normal prefill unless every gate is
  passed.  Both tables are instances of the locale \<open>registry\<close>.
\<close>

section \<open>Models\<close>

datatype model_reference = ModelReference (model_id: string) (model_version: string)

instantiation model_reference :: linorder
begin

definition less_eq_model_reference :: "model_reference \<Rightarrow> model_reference \<Rightarrow> bool" where
  "a \<le> b \<longleftrightarrow> (model_id a, model_version a) \<le> (model_id b, model_version b)"

definition less_model_reference :: "model_reference \<Rightarrow> model_reference \<Rightarrow> bool" where
  "a < b \<longleftrightarrow> (model_id a, model_version a) < (model_id b, model_version b)"

instance
  by standard (auto simp: less_eq_model_reference_def less_model_reference_def model_reference.expand)

end

definition model_new :: "string \<Rightarrow> string \<Rightarrow> model_reference" where
  "model_new i version = ModelReference i version"

datatype inference_strategy = NormalPrefill

datatype kv_strategy = NoKv | PrefixCache | CachedKv | CrossModelKvTransfer

type_synonym model_capabilities = "kv_strategy set"

definition normal_prefill :: model_capabilities where
  "normal_prefill = {}"

definition with_kv :: "kv_strategy \<Rightarrow> model_capabilities \<Rightarrow> model_capabilities" where
  "with_kv value c = (if value \<noteq> NoKv then insert value c else c)"

definition caps_support :: "model_capabilities \<Rightarrow> kv_strategy \<Rightarrow> bool" where
  "caps_support c value \<longleftrightarrow> value = NoKv \<or> value \<in> c"

record model_metadata =
  mm_model :: model_reference
  kv_layout :: string
  capabilities :: model_capabilities

datatype kv_error =
    KvInvalid string | DuplicateModel model_reference | UnknownModelError string
  | UnknownVersionError model_reference | DuplicateCompatibility

record model_registry =
  models_map :: "(model_reference, model_metadata) hmap"
  models_revision :: u64

definition empty_models :: model_registry where
  "empty_models = \<lparr>models_map = [], models_revision = 0\<rparr>"

definition metadata_valid :: "model_metadata \<Rightarrow> bool" where
  "metadata_valid m \<longleftrightarrow> valid_identifier (model_id (mm_model m)) \<and> valid_identifier (model_version (mm_model m))
     \<and> valid_identifier (kv_layout m) \<and> NoKv \<notin> capabilities m"

definition model_register :: "model_metadata \<Rightarrow> model_registry \<Rightarrow> (kv_error + unit) \<times> model_registry" where
  "model_register m r =
     (if \<not> metadata_valid m then (Inl (KvInvalid ''invalid model metadata''), r)
      else if contains_key (models_map r) (mm_model m) then (Inl (DuplicateModel (mm_model m)), r)
      else (Inr (), r\<lparr>models_map := bt_insert (mm_model m) m (models_map r),
                     models_revision := models_revision r + 1\<rparr>))"

definition model_lookup :: "model_registry \<Rightarrow> model_reference \<Rightarrow> kv_error + model_metadata" where
  "model_lookup r m =
     (case map_of (models_map r) m of
        Some v \<Rightarrow> Inr v
      | None \<Rightarrow> if list_ex (\<lambda>(x, _). model_id x = model_id m) (models_map r)
                then Inl (UnknownVersionError m) else Inl (UnknownModelError (model_id m)))"

interpretation models: registry model_register "\<lambda>r. map_of (models_map r)" mm_model metadata_valid
  "\<lambda>r. sorted_keys (models_map r)"
  by unfold_locales (auto simp: model_register_def map_laws)

section \<open>Compatibility records\<close>

record kv_compat =
  kc_source :: model_reference
  kc_target :: model_reference
  kc_supported :: bool
  mapping_version :: "string option"
  quality_retention :: "f64 option"
  quality_variance :: "f64 option"
  transfer_latency_p50_ms :: "f64 option"
  transfer_latency_p95_ms :: "f64 option"
  failure_rate :: "f64 option"
  sample_count :: "u64 option"
  confidence :: "f64 option"

definition compat_unknown :: "model_reference \<Rightarrow> model_reference \<Rightarrow> kv_compat" where
  "compat_unknown source target =
     \<lparr>kc_source = source, kc_target = target, kc_supported = False, mapping_version = None,
      quality_retention = None, quality_variance = None, transfer_latency_p50_ms = None,
      transfer_latency_p95_ms = None, failure_rate = None, sample_count = None, confidence = None\<rparr>"

text \<open>\<open>value.is_finite() && (0.0..=1.0).contains(&value)\<close>\<close>

definition is_ratio :: "f64 \<Rightarrow> bool" where
  "is_ratio v \<longleftrightarrow> is_finite v \<and> f_le f_zero v \<and> f_le v f_one"

definition is_measure :: "f64 \<Rightarrow> bool" where
  "is_measure v \<longleftrightarrow> is_finite v \<and> \<not> f_lt v f_zero"

definition compat_validate :: "kv_compat \<Rightarrow> kv_error + unit" where
  "compat_validate r =
     (if kc_source r = kc_target r \<or> \<not> valid_identifier (model_id (kc_source r))
         \<or> \<not> valid_identifier (model_version (kc_source r)) \<or> \<not> valid_identifier (model_id (kc_target r))
         \<or> \<not> valid_identifier (model_version (kc_target r))
      then Inl (KvInvalid ''invalid source or target model'')
      else if kc_supported r \<and> mapping_version r = None
      then Inl (KvInvalid ''supported transfer requires a mapping version'')
      else if (case mapping_version r of None \<Rightarrow> False | Some v \<Rightarrow> \<not> valid_identifier v)
      then Inl (KvInvalid ''invalid mapping version'')
      else if \<not> list_all is_ratio (some_list [quality_retention r, failure_rate r, confidence r])
      then Inl (KvInvalid ''invalid ratio measurement'')
      else if \<not> list_all is_measure
                (some_list [quality_variance r, transfer_latency_p50_ms r, transfer_latency_p95_ms r])
      then Inl (KvInvalid ''invalid non-negative measurement'')
      else if sample_count r = Some 0 then Inl (KvInvalid ''sample_count must be positive'')
      else case (transfer_latency_p50_ms r, transfer_latency_p95_ms r) of
             (Some p50, Some p95) \<Rightarrow>
               if f_lt p95 p50 then Inl (KvInvalid ''transfer p95 cannot be below p50'') else Inr ()
           | _ \<Rightarrow> Inr ())"

record kv_compat_registry =
  records_map :: "(model_reference \<times> model_reference, kv_compat) hmap"
  records_revision :: u64

definition empty_compat :: kv_compat_registry where
  "empty_compat = \<lparr>records_map = [], records_revision = 0\<rparr>"

definition compat_register :: "kv_compat \<Rightarrow> kv_compat_registry \<Rightarrow> (kv_error + unit) \<times> kv_compat_registry" where
  "compat_register c r =
     (case compat_validate c of
        Inl e \<Rightarrow> (Inl e, r)
      | Inr _ \<Rightarrow>
          (let key = (kc_source c, kc_target c)
           in if contains_key (records_map r) key then (Inl DuplicateCompatibility, r)
              else (Inr (), r\<lparr>records_map := bt_insert key c (records_map r),
                             records_revision := records_revision r + 1\<rparr>)))"

definition compat_lookup :: "kv_compat_registry \<Rightarrow> model_reference \<Rightarrow> model_reference \<Rightarrow> kv_compat option" where
  "compat_lookup r s t = map_of (records_map r) (s, t)"

interpretation compat: registry compat_register "\<lambda>r. map_of (records_map r)"
  "\<lambda>c. (kc_source c, kc_target c)" "\<lambda>c. compat_validate c = Inr ()" "\<lambda>r. sorted_keys (records_map r)"
  by unfold_locales (auto simp: compat_register_def Let_def map_laws split: sum.split)

section \<open>Policy\<close>

record kv_policy =
  min_quality_retention :: f64
  max_quality_variance :: f64
  min_confidence :: f64
  max_failure_rate :: f64

definition default_kv_policy :: kv_policy where
  "default_kv_policy = \<lparr>min_quality_retention = f64_lit (95/100), max_quality_variance = f64_lit (2/100),
     min_confidence = f64_lit (95/100), max_failure_rate = f64_lit (1/100)\<rparr>"

definition kv_policy_validate :: "kv_policy \<Rightarrow> kv_error + unit" where
  "kv_policy_validate p =
     (if list_all is_ratio [min_quality_retention p, max_quality_variance p, min_confidence p, max_failure_rate p]
      then Inr () else Inl (KvInvalid ''invalid KV policy ratio''))"

section \<open>Selection\<close>

record kv_context =
  cx_target :: model_reference
  cx_source :: "model_reference option"
  cx_requested :: kv_strategy

datatype kv_fallback =
    UnknownModel | UnknownVersion | UnknownSourceModel | UnknownSourceVersion
  | UnsupportedStrategy | MissingSource | CompatibilityUnknown | CompatibilityNotSupported
  | MeasurementsUnknown | InsufficientQuality | ExcessQualityVariance | InsufficientConfidence
  | UnreliableTransfer | InvalidPolicy

record kv_plan =
  kp_inference :: inference_strategy
  kp_strategy :: kv_strategy
  kp_target :: "model_reference option"
  kp_source :: "model_reference option"
  kp_mapping_version :: "string option"
  kp_model_revision :: u64
  kp_compatibility_revision :: u64
  kp_fallback_reason :: "kv_fallback option"

record kv_intelligence =
  ki_models :: model_registry
  ki_compatibility :: kv_compat_registry
  ki_policy :: kv_policy

definition kv_normal :: "kv_intelligence \<Rightarrow> kv_plan" where
  "kv_normal k = \<lparr>kp_inference = NormalPrefill, kp_strategy = NoKv, kp_target = None, kp_source = None,
     kp_mapping_version = None, kp_model_revision = models_revision (ki_models k),
     kp_compatibility_revision = records_revision (ki_compatibility k), kp_fallback_reason = None\<rparr>"

definition kv_fallback_plan :: "kv_intelligence \<Rightarrow> kv_context \<Rightarrow> kv_fallback \<Rightarrow> kv_plan" where
  "kv_fallback_plan k c reason = (kv_normal k)\<lparr>kp_target := Some (cx_target c), kp_source := cx_source c,
     kp_fallback_reason := Some reason\<rparr>"

definition kv_chosen :: "kv_intelligence \<Rightarrow> kv_context \<Rightarrow> string option \<Rightarrow> kv_plan" where
  "kv_chosen k c mapping = (kv_normal k)\<lparr>kp_strategy := cx_requested c, kp_target := Some (cx_target c),
     kp_source := cx_source c, kp_mapping_version := mapping\<rparr>"

text \<open>The measurements of a supported record against the policy, in the order of the code.\<close>

definition measured_gates :: "kv_policy \<Rightarrow> kv_compat \<Rightarrow> kv_fallback + string" where
  "measured_gates p r =
     (case (mapping_version r, quality_retention r, quality_variance r, failure_rate r, sample_count r,
            confidence r, transfer_latency_p50_ms r, transfer_latency_p95_ms r) of
        (Some mapping, Some q, Some variance, Some f, Some n, Some conf, Some _, Some _) \<Rightarrow>
          if n = 0 then Inl MeasurementsUnknown
          else if f_lt q (min_quality_retention p) then Inl InsufficientQuality
          else if f_gt variance (max_quality_variance p) then Inl ExcessQualityVariance
          else if f_lt conf (min_confidence p) then Inl InsufficientConfidence
          else if f_gt f (max_failure_rate p) then Inl UnreliableTransfer
          else Inr mapping
      | _ \<Rightarrow> Inl MeasurementsUnknown)"

definition select_transfer :: "kv_intelligence \<Rightarrow> kv_context \<Rightarrow> kv_plan" where
  "select_transfer k c =
     (case cx_source c of
        None \<Rightarrow> kv_fallback_plan k c MissingSource
      | Some source \<Rightarrow>
          (case model_lookup (ki_models k) source of
             Inl (UnknownVersionError _) \<Rightarrow> kv_fallback_plan k c UnknownSourceVersion
           | Inl _ \<Rightarrow> kv_fallback_plan k c UnknownSourceModel
           | Inr source_metadata \<Rightarrow>
               if \<not> caps_support (capabilities source_metadata) (cx_requested c)
               then kv_fallback_plan k c UnsupportedStrategy
               else case compat_lookup (ki_compatibility k) source (cx_target c) of
                      None \<Rightarrow> kv_fallback_plan k c CompatibilityUnknown
                    | Some r \<Rightarrow>
                        if \<not> kc_supported r then kv_fallback_plan k c CompatibilityNotSupported
                        else case measured_gates (ki_policy k) r of
                               Inl reason \<Rightarrow> kv_fallback_plan k c reason
                             | Inr mapping \<Rightarrow> kv_chosen k c (Some mapping)))"

definition kv_select :: "kv_intelligence \<Rightarrow> kv_context \<Rightarrow> kv_plan" where
  "kv_select k c =
     (if isl (kv_policy_validate (ki_policy k)) then kv_fallback_plan k c InvalidPolicy
      else case model_lookup (ki_models k) (cx_target c) of
             Inl (UnknownVersionError _) \<Rightarrow> kv_fallback_plan k c UnknownVersion
           | Inl _ \<Rightarrow> kv_fallback_plan k c UnknownModel
           | Inr target \<Rightarrow>
               if cx_requested c = NoKv then kv_normal k
               else if \<not> caps_support (capabilities target) (cx_requested c)
               then kv_fallback_plan k c UnsupportedStrategy
               else if cx_requested c \<noteq> CrossModelKvTransfer then kv_chosen k c None
               else select_transfer k c)"

section \<open>Properties\<close>

lemma model_lookup_Inr: "model_lookup r m = Inr v \<longleftrightarrow> map_of (models_map r) m = Some v"
  by (auto simp: model_lookup_def split: option.split)

lemma plan_strategies [simp]:
  "kp_strategy (kv_normal k) = NoKv" "kp_strategy (kv_fallback_plan k c reason) = NoKv"
  "kp_strategy (kv_chosen k c mapping) = cx_requested c"
  "kp_fallback_reason (kv_normal k) = None" "kp_fallback_reason (kv_fallback_plan k c reason) = Some reason"
  "kp_fallback_reason (kv_chosen k c mapping) = None"
  "kp_mapping_version (kv_normal k) = None" "kp_mapping_version (kv_fallback_plan k c reason) = None"
  "kp_mapping_version (kv_chosen k c mapping) = mapping"
  "kp_target (kv_chosen k c mapping) = Some (cx_target c)"
  by (simp_all add: kv_normal_def kv_fallback_plan_def kv_chosen_def)

text \<open>What a supported record must have measured to be used under a policy.\<close>

definition transfer_allowed :: "kv_policy \<Rightarrow> kv_compat \<Rightarrow> string \<Rightarrow> bool" where
  "transfer_allowed p r mapping \<longleftrightarrow> mapping_version r = Some mapping
     \<and> (\<exists>q v f n conf l50 l95. quality_retention r = Some q \<and> quality_variance r = Some v \<and> failure_rate r = Some f
          \<and> sample_count r = Some n \<and> confidence r = Some conf
          \<and> transfer_latency_p50_ms r = Some l50 \<and> transfer_latency_p95_ms r = Some l95
          \<and> n \<noteq> 0 \<and> \<not> f_lt q (min_quality_retention p) \<and> \<not> f_gt v (max_quality_variance p)
          \<and> \<not> f_lt conf (min_confidence p) \<and> \<not> f_gt f (max_failure_rate p))"

lemma measured_gates_Inr: "measured_gates p r = Inr mapping \<longleftrightarrow> transfer_allowed p r mapping"
  by (auto simp: measured_gates_def transfer_allowed_def split: option.splits if_splits)

lemma select_transfer_chosen:
  "cx_requested c = CrossModelKvTransfer \<Longrightarrow>
   kp_strategy (select_transfer k c) = CrossModelKvTransfer \<longleftrightarrow>
     (\<exists>source sm r mapping. cx_source c = Some source \<and> map_of (models_map (ki_models k)) source = Some sm
        \<and> CrossModelKvTransfer \<in> capabilities sm \<and> compat_lookup (ki_compatibility k) source (cx_target c) = Some r
        \<and> kc_supported r \<and> transfer_allowed (ki_policy k) r mapping)"
  by (auto simp: select_transfer_def caps_support_def measured_gates_Inr [symmetric] model_lookup_Inr [symmetric]
      split: option.splits sum.splits kv_error.splits)

text \<open>
  C21: A cross-model KV transfer is chosen exactly when it was requested and every gate is
  passed: a valid policy, both models registered and capable of transfers, a compatibility
  record for this ordered pair marked as supported, and complete measurements within the
  policy's limits.  Anything unknown leads to the normal prefill.
\<close>
theorem transfer_chosen_iff:
  "kp_strategy (kv_select k c) = CrossModelKvTransfer \<longleftrightarrow>
     kv_policy_validate (ki_policy k) = Inr () \<and> cx_requested c = CrossModelKvTransfer
     \<and> (\<exists>tm. map_of (models_map (ki_models k)) (cx_target c) = Some tm \<and> CrossModelKvTransfer \<in> capabilities tm)
     \<and> (\<exists>source sm r mapping. cx_source c = Some source \<and> map_of (models_map (ki_models k)) source = Some sm
          \<and> CrossModelKvTransfer \<in> capabilities sm
          \<and> compat_lookup (ki_compatibility k) source (cx_target c) = Some r
          \<and> kc_supported r \<and> transfer_allowed (ki_policy k) r mapping)"
  (is "?l \<longleftrightarrow> ?r")
proof (cases "kv_policy_validate (ki_policy k)")
  case (Inr u)
  show ?thesis
  proof (cases "model_lookup (ki_models k) (cx_target c)")
    case (Inl e)
    then show ?thesis using Inr model_lookup_Inr [of "ki_models k" "cx_target c"]
      by (cases e) (auto simp: kv_select_def)
  next
    case (Inr tm)
    then have sel: "kp_strategy (kv_select k c) = CrossModelKvTransfer \<longleftrightarrow> cx_requested c = CrossModelKvTransfer
        \<and> CrossModelKvTransfer \<in> capabilities tm \<and> kp_strategy (select_transfer k c) = CrossModelKvTransfer"
      using \<open>kv_policy_validate (ki_policy k) = Inr u\<close> by (simp add: kv_select_def caps_support_def)
    have "map_of (models_map (ki_models k)) (cx_target c) = Some tm" using Inr by (simp add: model_lookup_Inr)
    then show ?thesis
      unfolding sel using \<open>kv_policy_validate (ki_policy k) = Inr u\<close> select_transfer_chosen [of c k]
      by (cases "cx_requested c = CrossModelKvTransfer") simp_all
  qed
qed (simp add: kv_select_def)

lemma select_transfer_cases:
  "(\<exists>reason. select_transfer k c = kv_fallback_plan k c reason) \<or> (\<exists>mapping. select_transfer k c = kv_chosen k c (Some mapping))"
  by (auto simp: select_transfer_def split: option.splits sum.splits kv_error.splits)

text \<open>
  A plan never claims reuse that the target model does not support: a strategy other than
  the normal one is the requested one, of a registered target model with that capability, under
  a valid policy, and carries no fallback reason; a plan with a fallback reason reuses nothing.
\<close>
theorem plan_strategy_supported:
  "(kp_strategy (kv_select k c) \<noteq> NoKv \<longrightarrow>
      kp_strategy (kv_select k c) = cx_requested c \<and> kp_target (kv_select k c) = Some (cx_target c)
      \<and> kp_fallback_reason (kv_select k c) = None \<and> kv_policy_validate (ki_policy k) = Inr ()
      \<and> (\<exists>tm. map_of (models_map (ki_models k)) (cx_target c) = Some tm \<and> cx_requested c \<in> capabilities tm))
   \<and> (kp_fallback_reason (kv_select k c) \<noteq> None \<longrightarrow>
      kp_strategy (kv_select k c) = NoKv \<and> kp_mapping_version (kv_select k c) = None)"
proof (cases "kv_policy_validate (ki_policy k)")
  case (Inr u)
  show ?thesis
  proof (cases "model_lookup (ki_models k) (cx_target c)")
    case (Inl e)
    then show ?thesis using Inr by (cases e) (auto simp: kv_select_def)
  next
    case (Inr tm)
    then have "map_of (models_map (ki_models k)) (cx_target c) = Some tm" by (simp add: model_lookup_Inr)
    then show ?thesis
      using Inr \<open>kv_policy_validate (ki_policy k) = Inr u\<close> select_transfer_cases [of k c]
      by (auto simp: kv_select_def caps_support_def)
  qed
qed (simp add: kv_select_def)

definition fast_model :: model_metadata where
  "fast_model = \<lparr>mm_model = model_new ''m'' ''1'', kv_layout = ''l'', capabilities = with_kv PrefixCache normal_prefill\<rparr>"

definition demo_kv :: kv_intelligence where
  "demo_kv = \<lparr>ki_models = snd (model_register fast_model empty_models), ki_compatibility = empty_compat,
     ki_policy = \<lparr>min_quality_retention = f_zero, max_quality_variance = f_one, min_confidence = f_zero,
       max_failure_rate = f_one\<rparr>\<rparr>"

lemma demo_prefix: "kp_strategy (kv_select demo_kv
   \<lparr>cx_target = model_new ''m'' ''1'', cx_source = None, cx_requested = PrefixCache\<rparr>) = PrefixCache"
  by code_simp

theorem plan_strategy_supported_witness:
  "\<exists>tm :: model_metadata. map_of (models_map (ki_models demo_kv)) (model_new ''m'' ''1'') = Some tm
     \<and> PrefixCache \<in> capabilities tm"
  using plan_strategy_supported [of demo_kv "\<lparr>cx_target = model_new ''m'' ''1'', cx_source = None, cx_requested = PrefixCache\<rparr>"]
    demo_prefix by simp

text \<open>
  The compatibility registry answers with the first valid record registered for an ordered
  pair of models: invalid records and later records for the same pair change nothing.
\<close>
theorem compat_registry_first_valid:
  "compat_lookup (fold (\<lambda>c r. snd (compat_register c r)) cs empty_compat) s t
     = List.find (\<lambda>c. compat_validate c = Inr () \<and> (kc_source c, kc_target c) = (s, t)) cs"
  using compat.lookup_fold [of empty_compat cs "(s, t)"] by (simp add: compat_lookup_def empty_compat_def)

text \<open>
  So every record the selection can use is a validated one: different models, ratios in the
  unit interval, non-negative latencies with p50 not above p95, and at least one sample.
\<close>
theorem compat_records_valid:
  assumes "compat_lookup (fold (\<lambda>c r. snd (compat_register c r)) cs empty_compat) s t = Some r"
  shows "kc_source r = s \<and> kc_target r = t \<and> s \<noteq> t
    \<and> (kc_supported r \<longrightarrow> mapping_version r \<noteq> None)
    \<and> (\<forall>v. quality_retention r = Some v \<or> failure_rate r = Some v \<or> confidence r = Some v \<longrightarrow> is_ratio v)
    \<and> (\<forall>v. quality_variance r = Some v \<or> transfer_latency_p50_ms r = Some v \<or> transfer_latency_p95_ms r = Some v
          \<longrightarrow> is_measure v)
    \<and> sample_count r \<noteq> Some 0
    \<and> (\<forall>p50 p95. transfer_latency_p50_ms r = Some p50 \<longrightarrow> transfer_latency_p95_ms r = Some p95 \<longrightarrow> \<not> f_lt p95 p50)"
proof -
  have "List.find (\<lambda>c. compat_validate c = Inr () \<and> (kc_source c, kc_target c) = (s, t)) cs = Some r"
    using assms compat.lookup_fold [of empty_compat cs "(s, t)"] by (simp add: compat_lookup_def empty_compat_def)
  then have r: "compat_validate r = Inr ()" "kc_source r = s" "kc_target r = t"
    by (auto simp: find_Some_iff)
  have ratios: "list_all is_ratio (some_list [quality_retention r, failure_rate r, confidence r])"
    and measures: "list_all is_measure (some_list [quality_variance r, transfer_latency_p50_ms r, transfer_latency_p95_ms r])"
    and rest: "s \<noteq> t" "kc_supported r \<longrightarrow> mapping_version r \<noteq> None" "sample_count r \<noteq> Some 0"
      "\<forall>p50 p95. transfer_latency_p50_ms r = Some p50 \<longrightarrow> transfer_latency_p95_ms r = Some p95 \<longrightarrow> \<not> f_lt p95 p50"
    using r by (auto simp: compat_validate_def split: if_splits option.splits)
  have "is_ratio v" if "quality_retention r = Some v \<or> failure_rate r = Some v \<or> confidence r = Some v" for v
    using ratios that by (cases "quality_retention r"; cases "failure_rate r"; cases "confidence r") auto
  moreover have "is_measure v" if "quality_variance r = Some v \<or> transfer_latency_p50_ms r = Some v
      \<or> transfer_latency_p95_ms r = Some v" for v
    using measures that
    by (cases "quality_variance r"; cases "transfer_latency_p50_ms r"; cases "transfer_latency_p95_ms r") auto
  ultimately show ?thesis using r rest by blast
qed

definition ab_record :: kv_compat where
  "ab_record = (compat_unknown (model_new ''a'' ''1'') (model_new ''b'' ''1''))\<lparr>quality_retention := Some f_one\<rparr>"

lemma ab_registered: "compat_lookup (fold (\<lambda>c r. snd (compat_register c r)) [ab_record] empty_compat)
    (model_new ''a'' ''1'') (model_new ''b'' ''1'') = Some ab_record"
  by code_simp

theorem compat_records_valid_witness: "kc_source ab_record = model_new ''a'' ''1'' \<and> sample_count ab_record \<noteq> Some 0"
  using compat_records_valid [OF ab_registered] by blast

end
