(* ===== verification/Backends.thy ===== *)
theory Backends
  imports Kv
begin

text \<open>
  \<open>src/src/backend.rs\<close> and \<open>src/src/backend_registry.rs\<close>: the interface of inference backends, the
  mock backend, and the registry that checks a declared capability before it executes anything.
  A backend is the pair of its name and its \<open>execute\<close> function.
\<close>

section \<open>Backends\<close>

record backend_request =
  br_request_id :: string
  br_model :: model_reference
  br_strategy :: kv_strategy

datatype backend_failure =
    Timeout | Overloaded | OutOfMemory | UnavailableModel | KvTransferFailed | CapacityExhausted | QualityViolation

record backend_result =
  backend :: string
  res_success :: bool
  res_latency_ms :: "u64 option"
  estimated_cost :: "f64 option"
  failure :: "backend_failure option"

record inference_backend =
  backend_name :: string
  backend_execute :: "backend_request \<Rightarrow> backend_result"

record mock_backend =
  mock_name :: string
  mock_model :: model_reference
  mock_supported :: "kv_strategy list"
  mock_result :: backend_result

definition mock_supports :: "mock_backend \<Rightarrow> model_reference \<Rightarrow> kv_strategy \<Rightarrow> bool" where
  "mock_supports b m s \<longleftrightarrow> mock_model b = m \<and> s \<in> set (mock_supported b)"

definition mock_execute :: "mock_backend \<Rightarrow> backend_request \<Rightarrow> backend_result" where
  "mock_execute b r =
     (if \<not> mock_supports b (br_model r) (br_strategy r)
      then \<lparr>backend = mock_name b, res_success = False, res_latency_ms = None, estimated_cost = None,
            failure = Some UnavailableModel\<rparr>
      else mock_result b)"

definition mock_as_backend :: "mock_backend \<Rightarrow> inference_backend" where
  "mock_as_backend b = \<lparr>backend_name = mock_name b, backend_execute = mock_execute b\<rparr>"

section \<open>The registry\<close>

record backend_descriptor =
  bd_id :: string
  bd_version :: string
  bd_capabilities :: "(model_reference, kv_strategy set) hmap"

definition descriptor_supports :: "backend_descriptor \<Rightarrow> model_reference \<Rightarrow> kv_strategy \<Rightarrow> bool" where
  "descriptor_supports d m s = (case map_of (bd_capabilities d) m of None \<Rightarrow> False | Some ss \<Rightarrow> s \<in> ss)"

datatype backend_registry_error =
    InvalidDescriptor | DuplicateBackend string | UnknownBackend string
  | UnsupportedCapability string model_reference kv_strategy

definition descriptor_validate :: "backend_descriptor \<Rightarrow> backend_registry_error + unit" where
  "descriptor_validate d =
     (if \<not> valid_identifier (bd_id d) \<or> \<not> valid_identifier (bd_version d) \<or> bd_capabilities d = []
      then Inl InvalidDescriptor
      else if list_ex (\<lambda>(m, ss). \<not> valid_identifier (model_id m) \<or> \<not> valid_identifier (model_version m) \<or> ss = {})
                (bd_capabilities d)
      then Inl InvalidDescriptor
      else Inr ())"

record backend_registry =
  backend_entries :: "(string, backend_descriptor \<times> inference_backend) hmap"
  backend_revision :: u64

definition empty_backends :: backend_registry where
  "empty_backends = \<lparr>backend_entries = [], backend_revision = 0\<rparr>"

definition backend_register ::
  "backend_descriptor \<times> inference_backend \<Rightarrow> backend_registry \<Rightarrow> (backend_registry_error + unit) \<times> backend_registry" where
  "backend_register e r =
     (case e of (d, b) \<Rightarrow>
        (case descriptor_validate d of
           Inl err \<Rightarrow> (Inl err, r)
         | Inr _ \<Rightarrow>
             if bd_id d \<noteq> backend_name b then (Inl InvalidDescriptor, r)
             else if contains_key (backend_entries r) (bd_id d) then (Inl (DuplicateBackend (bd_id d)), r)
             else (Inr (), r\<lparr>backend_entries := bt_insert (bd_id d) (d, b) (backend_entries r),
                            backend_revision := backend_revision r + 1\<rparr>)))"

interpretation backends: registry backend_register "\<lambda>r. map_of (backend_entries r)" "\<lambda>(d, _). bd_id d"
  "\<lambda>(d, b). descriptor_validate d = Inr () \<and> bd_id d = backend_name b" "\<lambda>r. sorted_keys (backend_entries r)"
  by unfold_locales (auto simp: backend_register_def map_laws split: sum.split prod.splits)

definition registry_supports ::
  "backend_registry \<Rightarrow> string \<Rightarrow> model_reference \<Rightarrow> kv_strategy \<Rightarrow> backend_registry_error + bool" where
  "registry_supports r i m s =
     (case map_of (backend_entries r) i of
        None \<Rightarrow> Inl (UnknownBackend i)
      | Some (d, _) \<Rightarrow> Inr (descriptor_supports d m s))"

definition registry_execute ::
  "backend_registry \<Rightarrow> string \<Rightarrow> backend_request \<Rightarrow> backend_registry_error + backend_result" where
  "registry_execute r i q =
     (case map_of (backend_entries r) i of
        None \<Rightarrow> Inl (UnknownBackend i)
      | Some (d, b) \<Rightarrow>
          if \<not> descriptor_supports d (br_model q) (br_strategy q)
          then Inl (UnsupportedCapability i (br_model q) (br_strategy q))
          else Inr (backend_execute b q))"

definition backend_ids :: "backend_registry \<Rightarrow> string list" where
  "backend_ids r = map fst (backend_entries r)"

section \<open>Properties\<close>

definition backends_of :: "(backend_descriptor \<times> inference_backend) list \<Rightarrow> backend_registry" where
  "backends_of es = fold (\<lambda>e r. snd (backend_register e r)) es empty_backends"

lemma backends_sound: "backends.sound (backends_of es)"
proof -
  have "backends.sound (fold (\<lambda>e r. snd (backend_register e r)) es r)" if "backends.sound r" for r
    using that by (induction es arbitrary: r) (simp_all add: backends.sound_register)
  moreover have "backends.sound empty_backends" by (simp add: backends.sound_def empty_backends_def)
  ultimately show ?thesis by (simp add: backends_of_def)
qed

text \<open>
  A registry runs a backend only under its own name and only for a declared capability:
  when an execution succeeds, the entry found under the id carries that id as descriptor and as
  backend name, its descriptor is valid and declares the model with the strategy, and the result
  is what that backend returned.  Execution and the capability check agree.
\<close>
theorem execution_is_declared:
  assumes "registry_execute (backends_of es) i q = Inr res"
  shows "registry_supports (backends_of es) i (br_model q) (br_strategy q) = Inr True
    \<and> (\<exists>d b. (d, b) \<in> set es \<and> bd_id d = i \<and> backend_name b = i \<and> descriptor_validate d = Inr ()
         \<and> descriptor_supports d (br_model q) (br_strategy q) \<and> res = backend_execute b q)"
proof -
  obtain d b where e: "map_of (backend_entries (backends_of es)) i = Some (d, b)"
    and s: "descriptor_supports d (br_model q) (br_strategy q)" "res = backend_execute b q"
    using assms by (auto simp: registry_execute_def split: option.splits if_splits)
  have "List.find (\<lambda>v. (case v of (d, b) \<Rightarrow> descriptor_validate d = Inr () \<and> bd_id d = backend_name b)
      \<and> (case v of (d, _) \<Rightarrow> bd_id d) = i) es = Some (d, b)"
    using e backends.lookup_fold [of empty_backends es i] by (simp add: backends_of_def empty_backends_def)
  then have "(d, b) \<in> set es" "descriptor_validate d = Inr ()" "bd_id d = backend_name b" "bd_id d = i"
    by (auto simp: find_Some_iff) (metis nth_mem)
  then show ?thesis using e s by (auto simp: registry_supports_def)
qed

definition demo_mock :: mock_backend where
  "demo_mock = \<lparr>mock_name = ''b'', mock_model = model_new ''m'' ''1'', mock_supported = [NoKv],
     mock_result = \<lparr>backend = ''b'', res_success = True, res_latency_ms = Some 5, estimated_cost = None, failure = None\<rparr>\<rparr>"

definition demo_descriptor :: backend_descriptor where
  "demo_descriptor = \<lparr>bd_id = ''b'', bd_version = ''1'', bd_capabilities = [(model_new ''m'' ''1'', {NoKv})]\<rparr>"

definition demo_request :: backend_request where
  "demo_request = \<lparr>br_request_id = ''r'', br_model = model_new ''m'' ''1'', br_strategy = NoKv\<rparr>"

lemma demo_lookup: "map_of (backend_entries (backends_of [(demo_descriptor, mock_as_backend demo_mock)])) ''b''
   = Some (demo_descriptor, mock_as_backend demo_mock)"
proof -
  have "descriptor_validate demo_descriptor = Inr ()" by code_simp
  then show ?thesis
    by (simp add: backends_of_def backend_register_def empty_backends_def)
       (simp add: demo_descriptor_def mock_as_backend_def demo_mock_def)
qed

lemma demo_executes: "registry_execute (backends_of [(demo_descriptor, mock_as_backend demo_mock)]) ''b'' demo_request
   = Inr (mock_execute demo_mock demo_request)"
  by (simp add: registry_execute_def demo_lookup)
     (simp add: demo_descriptor_def demo_request_def descriptor_supports_def mock_as_backend_def)

theorem execution_is_declared_witness:
  "registry_supports (backends_of [(demo_descriptor, mock_as_backend demo_mock)]) ''b'' (model_new ''m'' ''1'') NoKv = Inr True"
  using execution_is_declared [OF demo_executes] by (simp add: demo_request_def)

end
