(* ===== verification/Health.thy ===== *)
theory Health
  imports F64
begin

text \<open>
  The circuit breaker of \<open>src/src/lib.rs\<close>: health policies, the four-state tracker of one
  node, its bounded latency window with the p99 estimate, and the routing penalty.  A tracker
  is driven by three operations (a recorded result, a timed probe, a forced probe); the step
  relation \<open>ht_step\<close> collects them, and the invariant \<open>ht_inv\<close> holds in every reachable state.
\<close>

section \<open>Policies and errors\<close>

definition OPEN_THRESHOLD :: u32 where "OPEN_THRESHOLD = 5"
definition DEGRADED_THRESHOLD :: u32 where "DEGRADED_THRESHOLD = 2"
definition HALF_OPEN_SUCCESS_NEEDED :: u32 where "HALF_OPEN_SUCCESS_NEEDED = 3"
definition DEGRADED_SUCCESS_NEEDED :: u32 where "DEGRADED_SUCCESS_NEEDED = 2"
definition DEFAULT_COOLDOWN :: duration where "DEFAULT_COOLDOWN = secs 30"
definition LATENCY_SAMPLE_LIMIT :: nat where "LATENCY_SAMPLE_LIMIT = 128"

datatype router_error = InvalidCostModel string | InvalidHealthPolicy string

fun router_error_display :: "router_error \<Rightarrow> string" where
  "router_error_display (InvalidCostModel message) = ''invalid cost model: '' @ message"
| "router_error_display (InvalidHealthPolicy message) = ''invalid health policy: '' @ message"

record health_policy =
  open_threshold :: u32
  degraded_threshold :: u32
  half_open_success_needed :: u32
  degraded_success_needed :: u32
  cooldown :: duration

definition default_health_policy :: health_policy where
  "default_health_policy =
     \<lparr>open_threshold = OPEN_THRESHOLD, degraded_threshold = DEGRADED_THRESHOLD,
      half_open_success_needed = HALF_OPEN_SUCCESS_NEEDED,
      degraded_success_needed = DEGRADED_SUCCESS_NEEDED, cooldown = DEFAULT_COOLDOWN\<rparr>"

definition health_policy_validate :: "health_policy \<Rightarrow> router_error + unit" where
  "health_policy_validate p =
     (if degraded_threshold p = 0 \<or> open_threshold p = 0
      then Inl (InvalidHealthPolicy ''failure thresholds must be greater than zero'')
      else if degraded_threshold p > open_threshold p
      then Inl (InvalidHealthPolicy ''degraded_threshold cannot exceed open_threshold'')
      else if half_open_success_needed p = 0 \<or> degraded_success_needed p = 0
      then Inl (InvalidHealthPolicy ''success thresholds must be greater than zero'')
      else if cooldown p = 0
      then Inl (InvalidHealthPolicy ''cooldown must be greater than zero'')
      else Inr ())"

section \<open>The tracker\<close>

datatype node_state = Healthy | Degraded | Open | HalfOpen

record health_tracker =
  ht_state :: node_state
  consecutive_failures :: u32
  consecutive_successes :: u32
  p99_latency_ms :: u64
  success_rate :: f64
  opened_at :: "instant option"
  latency_samples :: "u64 list"

definition default_health_tracker :: health_tracker where
  "default_health_tracker =
     \<lparr>ht_state = Healthy, consecutive_failures = 0, consecutive_successes = 0,
      p99_latency_ms = 0, success_rate = f_one, opened_at = None, latency_samples = []\<rparr>"

text \<open>\<open>((n as f64) * p).round() as usize\<close>, the index every percentile of the program uses.\<close>

definition percentile_index :: "nat \<Rightarrow> f64 \<Rightarrow> nat" where
  "percentile_index n p = f64_to_nat (2 ^ 64 - 1) (fround (fmul (f64_of_nat n) p))"

definition record_latency_sample :: "u64 \<Rightarrow> health_tracker \<Rightarrow> health_tracker" where
  "record_latency_sample latency_ms t =
     (let kept = (if length (latency_samples t) = LATENCY_SAMPLE_LIMIT
                  then tl (latency_samples t) else latency_samples t);
          window = kept @ [latency_ms];
          samples = sort window;
          index = percentile_index (length samples - 1) (f64_lit (99/100))
      in t\<lparr>latency_samples := window,
           p99_latency_ms := (if index < length samples then samples ! index else latency_ms)\<rparr>)"

definition record_success :: "health_policy \<Rightarrow> health_tracker \<Rightarrow> health_tracker" where
  "record_success policy t =
     (let t = t\<lparr>consecutive_successes := consecutive_successes t + 1, consecutive_failures := 0,
                success_rate := fdiv (fadd (fmul (success_rate t) (f64_lit 9)) f_one) (f64_lit 10)\<rparr>
      in case ht_state t of
           HalfOpen \<Rightarrow> if consecutive_successes t \<ge> half_open_success_needed policy
                       then t\<lparr>ht_state := Healthy, opened_at := None\<rparr> else t
         | Degraded \<Rightarrow> if consecutive_successes t \<ge> degraded_success_needed policy
                       then t\<lparr>ht_state := Healthy, opened_at := None\<rparr> else t
         | _ \<Rightarrow> t)"

definition record_failure :: "instant \<Rightarrow> health_policy \<Rightarrow> health_tracker \<Rightarrow> health_tracker" where
  "record_failure now policy t =
     (let previous_state = ht_state t;
          t = t\<lparr>consecutive_failures := consecutive_failures t + 1, consecutive_successes := 0,
                success_rate := fdiv (fmul (success_rate t) (f64_lit 9)) (f64_lit 10)\<rparr>;
          failures = consecutive_failures t;
          t = t\<lparr>ht_state := (if failures \<ge> open_threshold policy then Open
                             else if failures \<ge> degraded_threshold policy then Degraded
                             else ht_state t)\<rparr>
      in if ht_state t = Open \<and> previous_state \<noteq> Open then t\<lparr>opened_at := Some now\<rparr> else t)"

text \<open>Returns whether the state changed; \<open>now\<close> is the instant read when the node opens.\<close>

definition record_result_with_policy ::
  "instant \<Rightarrow> bool \<Rightarrow> u64 \<Rightarrow> health_policy \<Rightarrow> health_tracker \<Rightarrow> bool \<times> health_tracker" where
  "record_result_with_policy now success latency_ms policy t =
     (let t1 = record_latency_sample latency_ms t;
          t2 = (if success then record_success policy t1 else record_failure now policy t1)
      in (ht_state t \<noteq> ht_state t2, t2))"

definition record_result_default ::
  "instant \<Rightarrow> bool \<Rightarrow> u64 \<Rightarrow> health_tracker \<Rightarrow> bool \<times> health_tracker" where
  "record_result_default now success latency_ms t =
     record_result_with_policy now success latency_ms default_health_policy t"

text \<open>\<open>duration_since\<close> saturates at zero, as subtraction on \<^typ>\<open>nat\<close> does.\<close>

definition transition_to_half_open_if_ready ::
  "duration \<Rightarrow> instant \<Rightarrow> health_tracker \<Rightarrow> bool \<times> health_tracker" where
  "transition_to_half_open_if_ready cooldown_time now t =
     (if ht_state t \<noteq> Open then (False, t)
      else case opened_at t of
             None \<Rightarrow> (False, t)
           | Some opened \<Rightarrow>
               if now - opened < cooldown_time then (False, t)
               else (True, t\<lparr>ht_state := HalfOpen, consecutive_successes := 0\<rparr>))"

definition tracker_force_half_open :: "health_tracker \<Rightarrow> bool \<times> health_tracker" where
  "tracker_force_half_open t =
     (if ht_state t \<noteq> Open then (False, t)
      else (True, t\<lparr>ht_state := HalfOpen, consecutive_successes := 0\<rparr>))"

definition penalty :: "health_tracker \<Rightarrow> f64" where
  "penalty t =
     (let latency_penalty = fdiv (f64_of_u64 (p99_latency_ms t)) (f64_lit 10000);
          success_penalty = fsub f_one (fclamp (success_rate t) f_zero f_one)
      in case ht_state t of
           Healthy \<Rightarrow> fadd latency_penalty success_penalty
         | Degraded \<Rightarrow> fadd (fadd (f64_lit (1/2)) latency_penalty) success_penalty
         | HalfOpen \<Rightarrow> fadd (fadd (f64_lit (3/10)) latency_penalty) success_penalty
         | Open \<Rightarrow> f_inf)"

section \<open>Steps and reachable states\<close>

inductive ht_step :: "health_policy \<Rightarrow> health_tracker \<Rightarrow> health_tracker \<Rightarrow> bool" where
  result: "ht_step p t (snd (record_result_with_policy now success latency p t))"
| probe: "ht_step p t (snd (transition_to_half_open_if_ready cd now t))"
| force: "ht_step p t (snd (tracker_force_half_open t))"

inductive ht_reachable :: "health_policy \<Rightarrow> health_tracker \<Rightarrow> bool" where
  start: "ht_reachable p default_health_tracker"
| step: "ht_reachable p t \<Longrightarrow> ht_step p t t' \<Longrightarrow> ht_reachable p t'"


inductive_cases ht_stepE: "ht_step p t t'"

section \<open>Reading the operations\<close>

named_theorems ht_defs "definitions of the tracker operations"

lemmas [ht_defs] = record_latency_sample_def record_success_def record_failure_def
  record_result_with_policy_def transition_to_half_open_if_ready_def tracker_force_half_open_def
  Let_def

lemma record_latency_sample_frame [simp]:
  "ht_state (record_latency_sample l t) = ht_state t"
  "consecutive_failures (record_latency_sample l t) = consecutive_failures t"
  "consecutive_successes (record_latency_sample l t) = consecutive_successes t"
  "success_rate (record_latency_sample l t) = success_rate t"
  "opened_at (record_latency_sample l t) = opened_at t"
  by (simp_all add: ht_defs)

lemma record_success_frame [simp]:
  "latency_samples (record_success p t) = latency_samples t"
  "p99_latency_ms (record_success p t) = p99_latency_ms t"
  "consecutive_failures (record_success p t) = 0"
  "consecutive_successes (record_success p t) = consecutive_successes t + 1"
  "success_rate (record_success p t)
     = fdiv (fadd (fmul (success_rate t) (f64_lit 9)) f_one) (f64_lit 10)"
  by (simp_all add: ht_defs split: node_state.split)

lemma record_failure_frame [simp]:
  "latency_samples (record_failure now p t) = latency_samples t"
  "p99_latency_ms (record_failure now p t) = p99_latency_ms t"
  "consecutive_failures (record_failure now p t) = consecutive_failures t + 1"
  "consecutive_successes (record_failure now p t) = 0"
  "success_rate (record_failure now p t) = fdiv (fmul (success_rate t) (f64_lit 9)) (f64_lit 10)"
  by (simp_all add: ht_defs)

lemma record_success_state:
  "ht_state (record_success p t) =
     (if ht_state t = HalfOpen \<and> consecutive_successes t + 1 \<ge> half_open_success_needed p
         \<or> ht_state t = Degraded \<and> consecutive_successes t + 1 \<ge> degraded_success_needed p
      then Healthy else ht_state t)"
  by (simp add: ht_defs split: node_state.split)

lemma record_failure_state:
  "ht_state (record_failure now p t) =
     (if consecutive_failures t + 1 \<ge> open_threshold p then Open
      else if consecutive_failures t + 1 \<ge> degraded_threshold p then Degraded
      else ht_state t)"
  by (simp add: ht_defs)

section \<open>The latency window\<close>

lemma lit_99_100: "f64_lit (99/100) = Fin False (8917127262193582 / 9007199254740992)"
  by code_simp

lemma percentile_index_99_le: "n \<le> 2 ^ 53 \<Longrightarrow> percentile_index n (f64_lit (99/100)) \<le> n"
  unfolding percentile_index_def by (rule percentile_bound) (simp_all add: fbounded_f64_lit)

text \<open>
  In a window of at most 128 samples the index is never below the last but one: the exact
  product is at least \<open>n - 3/2\<close>, which is in binary64, so its rounding is as well.
\<close>

lemma percentile_index_99_ge:
  assumes "n < 128"
  shows "n \<le> Suc (percentile_index n (f64_lit (99/100)))"
proof (cases "n \<le> 1")
  case False
  define q :: rat where "q = 8917127262193582 / 9007199254740992"
  define k where "k = 2 * int n - 3"
  have n: "(2::rat) \<le> of_nat n" "(of_nat n :: rat) \<le> 127"
    using False assms of_nat_mono [of 2 n, where ?'a = rat] of_nat_mono [of n 127, where ?'a = rat]
    by simp_all
  have k: "of_int k * 2 powi (- 1) = (of_nat n - 3/2 :: rat)"
    by (simp add: k_def power_int_minus field_simps)
  have "of_nat n - 3/2 \<le> of_nat n * q"
    using n by (simp add: q_def field_simps)
  then have "of_int k * 2 powi (- 1) \<le> of_nat n * q" by (simp only: k)
  from rnd_mono [OF this] have lo: "of_nat n - 3/2 \<le> rnd (of_nat n * q)"
    using rnd_fixed [of k "- 1"] False assms by (simp only: k) (simp add: k_def)
  have "of_nat n * q \<le> of_int 127" using n by (simp add: q_def)
  from fbounded_mk [OF this] have "mk_f64 False (of_nat n * q) = Fin False (rnd (of_nat n * q))"
    by (simp add: mk_f64_def split: if_splits)
  moreover have "rnd (of_nat n * q) \<le> 127"
    using rnd_mono [of "of_nat n * q" "of_int 127"] rnd_of_int [of 127] n by (simp add: q_def)
  moreover from this have "nat \<lfloor>rnd (of_nat n * q) + 1/2\<rfloor> \<le> 127" by linarith
  ultimately have "percentile_index n (f64_lit (99/100)) = nat \<lfloor>rnd (of_nat n * q) + 1/2\<rfloor>"
    using assms by (simp add: percentile_index_def lit_99_100 f64_of_nat_small q_def)
  moreover have "int n - 1 \<le> \<lfloor>rnd (of_nat n * q) + 1/2\<rfloor>"
    using lo by (simp add: le_floor_iff)
  ultimately show ?thesis by linarith
qed simp

lemma latency_window_bounded:
  "length (latency_samples t) \<le> LATENCY_SAMPLE_LIMIT \<Longrightarrow>
   length (latency_samples (record_latency_sample l t)) \<le> LATENCY_SAMPLE_LIMIT"
  by (auto simp: record_latency_sample_def Let_def LATENCY_SAMPLE_LIMIT_def)

lemma p99_order_statistic:
  fixes l :: u64
  assumes "length (latency_samples t) \<le> LATENCY_SAMPLE_LIMIT"
  defines "w \<equiv> latency_samples (record_latency_sample l t)"
  shows "p99_latency_ms (record_latency_sample l t)
           = sort w ! percentile_index (length w - 1) (f64_lit (99/100))"
    and "percentile_index (length w - 1) (f64_lit (99/100)) < length w"
proof -
  have ne: "w \<noteq> []" by (simp add: w_def record_latency_sample_def Let_def)
  have "length w \<le> 128"
    using latency_window_bounded [OF assms(1)] by (simp add: w_def LATENCY_SAMPLE_LIMIT_def)
  then have "percentile_index (length w - 1) (f64_lit (99/100)) \<le> length w - 1"
    by (intro percentile_index_99_le) simp
  with ne show lt: "percentile_index (length w - 1) (f64_lit (99/100)) < length w"
    by (cases w) auto
  with ne show "p99_latency_ms (record_latency_sample l t)
           = sort w ! percentile_index (length w - 1) (f64_lit (99/100))"
    by (simp add: w_def record_latency_sample_def Let_def)
qed

lemma sorted_nth_exceed:
  assumes "sorted xs" "i < length xs"
  shows "length (filter (\<lambda>x. x > xs ! i) xs) \<le> length xs - Suc i"
proof -
  have "\<not> x > xs ! i" if "x \<in> set (take (Suc i) xs)" for x
    using that assms by (auto simp: in_set_conv_nth sorted_iff_nth_mono not_less less_Suc_eq_le)
  then have none: "filter (\<lambda>x. x > xs ! i) (take (Suc i) xs) = []" by (simp add: filter_empty_conv)
  have "filter (\<lambda>x. x > xs ! i) xs
          = filter (\<lambda>x. x > xs ! i) (take (Suc i) xs) @ filter (\<lambda>x. x > xs ! i) (drop (Suc i) xs)"
    by (simp flip: filter_append)
  with none have "length (filter (\<lambda>x. x > xs ! i) xs) \<le> length (drop (Suc i) xs)"
    by (simp only: append_Nil length_filter_le)
  then show ?thesis by simp
qed

lemma p99_exceeded_once:
  fixes l :: u64
  assumes "length (latency_samples t) \<le> LATENCY_SAMPLE_LIMIT"
  defines "w \<equiv> latency_samples (record_latency_sample l t)"
    and "p \<equiv> p99_latency_ms (record_latency_sample l t)"
  shows "p \<in> set w" "length (filter (\<lambda>x. x > p) w) \<le> 1"
proof -
  let ?i = "percentile_index (length w - 1) (f64_lit (99/100))"
  have p: "p = sort w ! ?i" and i: "?i < length w"
    using p99_order_statistic [OF assms(1), of l] by (simp_all add: w_def p_def)
  have "sort w ! ?i \<in> set (sort w)" using i by (intro nth_mem) simp
  then show "p \<in> set w" by (simp add: p)
  have "length w \<le> 128"
    using latency_window_bounded [OF assms(1)] by (simp add: w_def LATENCY_SAMPLE_LIMIT_def)
  then have "length w - 1 \<le> Suc ?i" by (intro percentile_index_99_ge) (use i in linarith)
  moreover have "length (filter (\<lambda>x. x > p) (sort w)) \<le> length w - Suc ?i"
    using sorted_nth_exceed [of "sort w" ?i] i by (simp add: p)
  moreover have "length (filter (\<lambda>x. x > p) (sort w)) = length (filter (\<lambda>x. x > p) w)"
    by (metis mset_filter mset_sort size_mset)
  ultimately show "length (filter (\<lambda>x. x > p) w) \<le> 1" by linarith
qed

section \<open>The success rate\<close>

lemma lit_9 [simp]: "f64_lit 9 = Fin False 9" and lit_10 [simp]: "f64_lit 10 = Fin False 10"
  using f64_lit_int [of 9] f64_lit_int [of 10] by simp_all

lemma success_rate_success:
  "fbounded 1 r \<Longrightarrow> fbounded 1 (fdiv (fadd (fmul r (f64_lit 9)) f_one) (f64_lit 10))"
  using fbounded_fdiv_lit [of 1 10] fbounded_fadd [of 9 _ 1 f_one] fbounded_fmul [of 1 r 9 "Fin False 9"]
  by simp

lemma success_rate_failure:
  "fbounded 1 r \<Longrightarrow> fbounded 1 (fdiv (fmul r (f64_lit 9)) (f64_lit 10))"
  using fbounded_fdiv_lit [of 1 10 "fmul r (Fin False 9)"] fbounded_fmul [of 1 r 9 "Fin False 9"]
    fbounded_mono [of 9 "fmul r (Fin False 9)" 10]
  by simp

section \<open>The invariant\<close>

definition ht_inv :: "health_tracker \<Rightarrow> bool" where
  "ht_inv t \<longleftrightarrow>
     fbounded 1 (success_rate t)
     \<and> length (latency_samples t) \<le> LATENCY_SAMPLE_LIMIT
     \<and> (latency_samples t = [] \<and> p99_latency_ms t = 0
        \<or> p99_latency_ms t \<in> set (latency_samples t)
          \<and> length (filter (\<lambda>x. x > p99_latency_ms t) (latency_samples t)) \<le> 1)
     \<and> (ht_state t = Open \<longrightarrow> opened_at t \<noteq> None)
     \<and> (consecutive_failures t = 0 \<or> consecutive_successes t = 0)"

lemma ht_inv_default: "ht_inv default_health_tracker"
  by (simp add: ht_inv_def default_health_tracker_def)

lemma ht_inv_sample: "ht_inv t \<Longrightarrow> ht_inv (record_latency_sample l t)"
  using p99_exceeded_once [of t l] latency_window_bounded [of t l] by (simp add: ht_inv_def)

lemma ht_inv_success: "ht_inv t \<Longrightarrow> ht_inv (record_success p t)"
proof -
  assume inv: "ht_inv t"
  then have "ht_state (record_success p t) = Open \<longrightarrow> opened_at (record_success p t) \<noteq> None"
    by (simp add: ht_inv_def record_success_def Let_def split: node_state.split)
  with inv show ?thesis
    using success_rate_success [of "success_rate t"]
    by (simp add: ht_inv_def del: lit_9 lit_10)
qed

lemma ht_inv_failure: "ht_inv t \<Longrightarrow> ht_inv (record_failure now p t)"
proof -
  assume inv: "ht_inv t"
  then have "ht_state (record_failure now p t) = Open \<longrightarrow> opened_at (record_failure now p t) \<noteq> None"
    by (auto simp: ht_inv_def record_failure_def Let_def)
  with inv show ?thesis
    using success_rate_failure [of "success_rate t"]
    by (simp add: ht_inv_def del: lit_9 lit_10)
qed

lemma ht_inv_half_open:
  "ht_inv t \<Longrightarrow> ht_inv (t\<lparr>ht_state := HalfOpen, consecutive_successes := 0\<rparr>)"
  by (simp add: ht_inv_def)

lemma ht_inv_step: "ht_step p t t' \<Longrightarrow> ht_inv t \<Longrightarrow> ht_inv t'"
proof (induction rule: ht_step.induct)
  case (result p t now success latency)
  then show ?case
    by (simp add: record_result_with_policy_def Let_def ht_inv_sample ht_inv_success ht_inv_failure)
next
  case (probe p t cd now)
  then show ?case
    by (simp add: transition_to_half_open_if_ready_def ht_inv_half_open split: option.split)
next
  case (force p t)
  then show ?case by (simp add: tracker_force_half_open_def ht_inv_half_open)
qed

lemma ht_inv_reachable: "ht_reachable p t \<Longrightarrow> ht_inv t"
  by (induction rule: ht_reachable.induct) (blast intro: ht_inv_default ht_inv_step)+

section \<open>Transitions of the state machine\<close>

text \<open>The state changes a single step can make.\<close>

definition may_become :: "node_state \<Rightarrow> node_state set" where
  "may_become s = (case s of
       Healthy \<Rightarrow> {Healthy, Degraded, Open}
     | Degraded \<Rightarrow> {Degraded, Healthy, Open}
     | HalfOpen \<Rightarrow> {HalfOpen, Healthy, Degraded, Open}
     | Open \<Rightarrow> {Open, HalfOpen, Degraded})"

lemma ht_step_may_become: "ht_step p t t' \<Longrightarrow> ht_state t' \<in> may_become (ht_state t)"
proof (induction rule: ht_step.induct)
  case (result p t now success latency)
  then show ?case
    by (cases "ht_state t") (auto simp: may_become_def record_result_with_policy_def Let_def
        record_success_state record_failure_state)
next
  case (probe p t cd now)
  then show ?case
    by (cases "ht_state t")
      (auto simp: may_become_def transition_to_half_open_if_ready_def split: option.split)
next
  case (force p t)
  then show ?case
    by (cases "ht_state t") (auto simp: may_become_def tracker_force_half_open_def)
qed

text \<open>An outcome, as \<open>record_result\<close> receives it: the clock, success and latency.\<close>

type_synonym outcome = "instant \<times> bool \<times> u64"

definition apply_outcome :: "health_policy \<Rightarrow> outcome \<Rightarrow> health_tracker \<Rightarrow> health_tracker" where
  "apply_outcome p oc t =
     (case oc of (now, success, latency) \<Rightarrow> snd (record_result_with_policy now success latency p t))"

definition apply_outcomes :: "health_policy \<Rightarrow> outcome list \<Rightarrow> health_tracker \<Rightarrow> health_tracker" where
  "apply_outcomes p = fold (apply_outcome p)"

abbreviation all_outcomes :: "bool \<Rightarrow> outcome list \<Rightarrow> bool" where
  "all_outcomes b os \<equiv> \<forall>oc \<in> set os. fst (snd oc) = b"

lemma apply_outcome_failure:
  "fst (snd oc) = False \<Longrightarrow>
   consecutive_failures (apply_outcome p oc t) = consecutive_failures t + 1
   \<and> ht_state (apply_outcome p oc t) =
      (if consecutive_failures t + 1 \<ge> open_threshold p then Open
       else if consecutive_failures t + 1 \<ge> degraded_threshold p then Degraded else ht_state t)"
  by (cases oc) (simp add: apply_outcome_def record_result_with_policy_def Let_def record_failure_state)

lemma apply_outcome_success:
  "fst (snd oc) = True \<Longrightarrow>
   consecutive_successes (apply_outcome p oc t) = consecutive_successes t + 1
   \<and> ht_state (apply_outcome p oc t) =
      (if ht_state t = HalfOpen \<and> consecutive_successes t + 1 \<ge> half_open_success_needed p
          \<or> ht_state t = Degraded \<and> consecutive_successes t + 1 \<ge> degraded_success_needed p
       then Healthy else ht_state t)"
  by (cases oc) (simp add: apply_outcome_def record_result_with_policy_def Let_def record_success_state)

lemma apply_outcomes_snoc:
  "apply_outcomes p (os @ [oc]) t = apply_outcome p oc (apply_outcomes p os t)"
  by (simp add: apply_outcomes_def)

lemma failures_counted:
  "all_outcomes False os \<Longrightarrow>
   consecutive_failures (apply_outcomes p os t) = consecutive_failures t + of_nat (length os)"
proof (induction os rule: rev_induct)
  case (snoc oc os)
  then show ?case by (simp add: apply_outcomes_snoc apply_outcome_failure)
qed (simp add: apply_outcomes_def)

lemma successes_counted:
  "all_outcomes True os \<Longrightarrow>
   consecutive_successes (apply_outcomes p os t) = consecutive_successes t + of_nat (length os)"
proof (induction os rule: rev_induct)
  case (snoc oc os)
  then show ?case by (simp add: apply_outcomes_snoc apply_outcome_success)
qed (simp add: apply_outcomes_def)

lemma u32_count_le:
  fixes c w :: u32
  assumes "unat c + n < 2 ^ 32" "unat w \<le> unat c + n"
  shows "w \<le> c + of_nat n"
proof -
  have "unat (c + of_nat n) = unat c + n"
    using assms(1) by (simp add: unat_word_ariths unat_of_nat take_bit_eq_mod)
  with assms(2) show ?thesis by (simp add: word_le_nat_alt)
qed

lemma failures_open:
  assumes "os \<noteq> []" "all_outcomes False os"
    and "unat (consecutive_failures t) + length os < 2 ^ 32"
    and "unat (open_threshold p) \<le> unat (consecutive_failures t) + length os"
  shows "ht_state (apply_outcomes p os t) = Open"
proof -
  obtain os' oc where os: "os = os' @ [oc]" using assms(1) by (meson rev_exhaust)
  have "open_threshold p \<le> consecutive_failures t + of_nat (length os)"
    using assms(3,4) by (rule u32_count_le)
  then have "open_threshold p \<le> consecutive_failures (apply_outcomes p os' t) + 1"
    using assms(2) by (simp add: os failures_counted algebra_simps)
  then show ?thesis using assms(2) by (simp add: os apply_outcomes_snoc apply_outcome_failure)
qed

lemma successes_close:
  assumes "all_outcomes True os" "ht_state t = HalfOpen" "consecutive_successes t = 0"
    and "length os < 2 ^ 32" "0 < unat (half_open_success_needed p)"
  shows "ht_state (apply_outcomes p os t) \<in> {HalfOpen, Healthy}
    \<and> (unat (half_open_success_needed p) \<le> length os
        \<longrightarrow> ht_state (apply_outcomes p os t) = Healthy)"
  using assms
proof (induction os rule: rev_induct)
  case Nil
  then show ?case by (simp add: apply_outcomes_def)
next
  case (snoc oc os)
  then have cnt: "consecutive_successes (apply_outcomes p os t) = of_nat (length os)"
    by (simp add: successes_counted)
  have "half_open_success_needed p \<le> of_nat (length os) + 1"
    if "unat (half_open_success_needed p) \<le> length (os @ [oc])"
    using u32_count_le [of 0 "length (os @ [oc])" "half_open_success_needed p"] snoc.prems that
    by (simp add: algebra_simps)
  with snoc cnt show ?case
    by (auto simp: apply_outcomes_snoc apply_outcome_success)
qed

section \<open>The penalty\<close>

lemma lit_10000: "f64_lit 10000 = Fin False 10000"
  using f64_lit_int [of 10000] by simp

lemma unat_u64_less: "unat (w :: u64) < 2 ^ 64"
  using unsigned_less [of w, where ?'a = nat] by simp

lemma latency_penalty_bounded:
  "fbounded (2 ^ 64) (fdiv (f64_of_u64 w) (f64_lit 10000))"
proof -
  have "of_nat (unat w) \<le> (2::rat) ^ 64"
    using of_nat_mono [OF less_imp_le [OF unat_u64_less [of w]], where ?'a = rat] by simp
  from fbounded_mk_pow [OF this] have "fbounded (2 ^ 64) (f64_of_u64 w)"
    by (simp add: f64_of_nat_def)
  then show ?thesis unfolding lit_10000 by (rule fbounded_fdiv_pow) simp_all
qed

lemma success_penalty_bounded:
  "fbounded 1 r \<Longrightarrow> fbounded (2 ^ 64) (fsub f_one (fclamp r f_zero f_one))"
  by (rule fbounded_mono [OF fbounded_one_minus]) (simp_all add: fclamp_unit_id)

lemma fbounded_lit_pow: "0 \<le> x \<Longrightarrow> x \<le> 1 \<Longrightarrow> fbounded (2 ^ k) (f64_lit x)"
  by (rule fbounded_mono [OF fbounded_f64_lit]) simp_all

lemma penalty_finite:
  assumes "fbounded 1 (success_rate t)" "ht_state t \<noteq> Open"
  shows "fbounded (2 ^ 66) (penalty t)"
proof -
  note lat = latency_penalty_bounded [of "p99_latency_ms t"]
    and suc = success_penalty_bounded [OF assms(1)]
  have lat': "fbounded (2 ^ 65) (fadd c (fdiv (f64_of_u64 (p99_latency_ms t)) (f64_lit 10000)))"
    if "c \<in> {f64_lit (1/2), f64_lit (3/10)}" for c
    using that fbounded_fadd_pow [OF _ lat, of c] fbounded_lit_pow [of "1/2" 64] fbounded_lit_pow [of "3/10" 64]
    by auto
  have "fbounded (2 ^ 65) (fadd (fdiv (f64_of_u64 (p99_latency_ms t)) (f64_lit 10000))
          (fsub f_one (fclamp (success_rate t) f_zero f_one)))"
    using fbounded_fadd_pow [OF lat suc] by simp
  moreover have "fbounded (2 ^ 66) (fadd (fadd c (fdiv (f64_of_u64 (p99_latency_ms t)) (f64_lit 10000)))
          (fsub f_one (fclamp (success_rate t) f_zero f_one)))"
    if "c \<in> {f64_lit (1/2), f64_lit (3/10)}" for c
    using fbounded_fadd_pow [OF lat' [OF that] fbounded_mono [OF suc]] by simp
  ultimately show ?thesis
    using assms(2) by (cases "ht_state t") (auto simp: penalty_def Let_def intro: fbounded_mono)
qed

lemma penalty_open: "ht_state t = Open \<Longrightarrow> penalty t = f_inf"
  by (simp add: penalty_def Let_def)

lemma penalty_nonneg: "fbounded 1 (success_rate t) \<Longrightarrow> fnonneg (penalty t)"
  by (cases "ht_state t = Open") (auto simp: penalty_open dest!: penalty_finite intro: fbounded_fnonneg)

lemma penalty_infinite_iff:
  "fbounded 1 (success_rate t) \<Longrightarrow> is_infinite (penalty t) \<longleftrightarrow> ht_state t = Open"
  using penalty_finite [of t]
  by (cases "ht_state t = Open"; cases "penalty t") (auto simp: penalty_open)

section \<open>Properties\<close>

lemma ht_reachable_outcomes: "ht_reachable p t \<Longrightarrow> ht_reachable p (apply_outcomes p os t)"
proof (induction os rule: rev_induct)
  case (snoc oc os)
  then show ?case
    by (cases oc) (auto simp: apply_outcomes_snoc apply_outcome_def intro: ht_reachable.step ht_step.result)
qed (simp add: apply_outcomes_def)

lemma success_rate_outcomes:
  "fbounded 1 (success_rate t) \<Longrightarrow> fbounded 1 (success_rate (apply_outcomes p os t))"
proof (induction os rule: rev_induct)
  case (snoc oc os)
  then show ?case
    by (cases oc) (simp add: apply_outcomes_snoc apply_outcome_def record_result_with_policy_def Let_def
        success_rate_success success_rate_failure del: lit_9 lit_10)
qed (simp add: apply_outcomes_def)

definition five_failures :: "outcome list" where
  "five_failures = replicate 5 (7, False, 30)"

lemma five_failures_open:
  "ht_reachable default_health_policy (apply_outcomes default_health_policy five_failures default_health_tracker)"
  "ht_state (apply_outcomes default_health_policy five_failures default_health_tracker) = Open"
  by (rule ht_reachable_outcomes [OF ht_reachable.start])
    (rule failures_open, simp_all add: five_failures_def default_health_tracker_def
      default_health_policy_def OPEN_THRESHOLD_def)

text \<open>
  C8: In every state a circuit breaker can reach, under any policy and any interleaving of
  recorded results, timed probes and forced probes, the success rate is a number in the unit
  interval, the latency window holds at most 128 samples, the p99 estimate is one of the
  samples and at most one sample is larger, an open breaker knows when it opened, and failures
  and successes are never counted at the same time.
\<close>
theorem breaker_invariant:
  assumes "ht_reachable p t"
  shows "fbounded 1 (success_rate t)
    \<and> length (latency_samples t) \<le> LATENCY_SAMPLE_LIMIT
    \<and> (latency_samples t \<noteq> [] \<longrightarrow> p99_latency_ms t \<in> set (latency_samples t)
           \<and> length (filter (\<lambda>x. x > p99_latency_ms t) (latency_samples t)) \<le> 1)
    \<and> (ht_state t = Open \<longrightarrow> opened_at t \<noteq> None)
    \<and> (consecutive_failures t = 0 \<or> consecutive_successes t = 0)"
  using ht_inv_reachable [OF assms] by (auto simp: ht_inv_def)

theorem breaker_invariant_witness:
  "\<exists>t :: health_tracker. ht_state t = Open \<and> opened_at t \<noteq> None \<and> fbounded 1 (success_rate t)"
  using breaker_invariant [OF five_failures_open(1)] five_failures_open(2) by blast

text \<open>
  C9: The penalty of a reachable breaker is never negative and never NaN, and it is infinite
  exactly when the breaker is open: an open node is fenced out of every path, and a node in
  any other state keeps a finite penalty.
\<close>
theorem penalty_fences_open:
  assumes "ht_reachable p t"
  shows "fnonneg (penalty t) \<and> (is_infinite (penalty t) \<longleftrightarrow> ht_state t = Open)"
  using ht_inv_reachable [OF assms] by (simp add: ht_inv_def penalty_nonneg penalty_infinite_iff)

theorem penalty_fences_open_witness:
  "is_infinite (penalty (apply_outcomes default_health_policy five_failures default_health_tracker))"
  using penalty_fences_open [OF five_failures_open(1)] five_failures_open(2) by simp

text \<open>
  A run of failures opens the breaker from any state, as soon as the consecutive failures
  counted before and during the run reach the policy's threshold (counters below their 32-bit
  limit).
\<close>
theorem failures_open_breaker:
  assumes "os \<noteq> []" "all_outcomes False os"
    and "unat (consecutive_failures t) + length os < 2 ^ 32"
    and "unat (open_threshold p) \<le> unat (consecutive_failures t) + length os"
  shows "ht_state (apply_outcomes p os t) = Open \<and> penalty (apply_outcomes p os t) = f_inf"
  using failures_open [OF assms] by (simp add: penalty_open)

theorem failures_open_breaker_witness:
  "penalty (apply_outcomes default_health_policy five_failures default_health_tracker) = f_inf"
  using failures_open_breaker [of five_failures default_health_tracker default_health_policy]
  by (simp add: five_failures_def default_health_tracker_def default_health_policy_def OPEN_THRESHOLD_def)

text \<open>
  C35: Recovery is possible: a reachable open breaker probed once its cooldown has passed
  becomes half-open, and a run of successes as long as the policy asks for then closes it.
\<close>
theorem open_breaker_recovers:
  assumes "ht_reachable p t" "ht_state t = Open"
    and "the (opened_at t) + cd \<le> now"
    and "all_outcomes True os" "length os < 2 ^ 32"
    and "0 < unat (half_open_success_needed p)" "unat (half_open_success_needed p) \<le> length os"
  shows "fst (transition_to_half_open_if_ready cd now t)
    \<and> ht_state (snd (transition_to_half_open_if_ready cd now t)) = HalfOpen
    \<and> ht_state (apply_outcomes p os (snd (transition_to_half_open_if_ready cd now t))) = Healthy"
proof -
  obtain opened where at: "opened_at t = Some opened"
    using ht_inv_reachable [OF assms(1)] assms(2) by (auto simp: ht_inv_def)
  then have "transition_to_half_open_if_ready cd now t
      = (True, t\<lparr>ht_state := HalfOpen, consecutive_successes := 0\<rparr>)"
    using assms(2,3) by (simp add: transition_to_half_open_if_ready_def not_less)
  then show ?thesis
    using successes_close [OF assms(4) _ _ assms(5,6), of "t\<lparr>ht_state := HalfOpen, consecutive_successes := 0\<rparr>"]
      assms(7) by simp
qed

theorem open_breaker_recovers_witness:
  "\<exists>(t :: health_tracker) os. ht_state t = Open \<and> length os = 3
     \<and> ht_state (apply_outcomes default_health_policy os
          (snd (transition_to_half_open_if_ready DEFAULT_COOLDOWN (the (opened_at t) + DEFAULT_COOLDOWN) t)))
        = Healthy"
proof -
  let ?t = "apply_outcomes default_health_policy five_failures default_health_tracker"
  have "ht_state (apply_outcomes default_health_policy (replicate 3 (9, True, 30))
          (snd (transition_to_half_open_if_ready DEFAULT_COOLDOWN (the (opened_at ?t) + DEFAULT_COOLDOWN) ?t)))
        = Healthy"
    using open_breaker_recovers [OF five_failures_open, of DEFAULT_COOLDOWN
        "the (opened_at ?t) + DEFAULT_COOLDOWN" "replicate 3 (9, True, 30)"]
    by (simp add: default_health_policy_def HALF_OPEN_SUCCESS_NEEDED_def)
  then show ?thesis using five_failures_open(2) by (meson length_replicate)
qed

text \<open>
  No step leads from open straight to healthy, and a step leaves the open state only for
  half-open or degraded; which steps change the state at all is described by \<open>may_become\<close>.
\<close>
theorem breaker_transitions:
  assumes "ht_step p t t'"
  shows "ht_state t' \<in> (case ht_state t of
       Healthy \<Rightarrow> {Healthy, Degraded, Open}
     | Degraded \<Rightarrow> {Degraded, Healthy, Open}
     | HalfOpen \<Rightarrow> {HalfOpen, Healthy, Degraded, Open}
     | Open \<Rightarrow> {Open, HalfOpen, Degraded})"
  using ht_step_may_become [OF assms] by (simp add: may_become_def)

theorem breaker_transitions_witness:
  "ht_state (snd (record_result_with_policy 0 False 1 default_health_policy default_health_tracker))
     \<in> {Healthy, Degraded, Open}"
  using breaker_transitions [OF ht_step.result [of default_health_policy default_health_tracker 0 False 1]]
  by (simp add: default_health_tracker_def)

text \<open>
  An open breaker can become routable by failing.  A success reported while the breaker is
  open resets the failure count but not the state; if the policy's degraded threshold is below
  its open threshold, a run of exactly that many failures then assigns the degraded state, so
  the node is routable again without a cooldown and without a probe.
\<close>
theorem open_breaker_reopened_by_failures:
  assumes "ht_state t = Open" "fbounded 1 (success_rate t)"
    and "0 < degraded_threshold p" "degraded_threshold p < open_threshold p"
    and "fst (snd s) = True" "all_outcomes False os" "length os = unat (degraded_threshold p)"
  shows "ht_state (apply_outcomes p (s # os) t) = Degraded
    \<and> \<not> is_infinite (penalty (apply_outcomes p (s # os) t))"
proof -
  define t1 where "t1 = apply_outcome p s t"
  have t1: "consecutive_failures t1 = 0" "ht_state t1 = Open"
    using assms(1,5) apply_outcome_success [of s p t]
    by (cases s; simp add: t1_def apply_outcome_def record_result_with_policy_def Let_def record_success_state)+
  have ne: "os \<noteq> []" using assms(3,7) by (auto simp: word_less_nat_alt)
  then obtain os' oc where os: "os = os' @ [oc]" by (meson rev_exhaust)
  have run: "apply_outcomes p (s # os) t = apply_outcome p oc (apply_outcomes p os' t1)"
    by (simp add: os t1_def apply_outcomes_def)
  have "of_nat (length os) = degraded_threshold p" using assms(7) by simp
  then have cnt: "consecutive_failures (apply_outcomes p os' t1) + 1 = degraded_threshold p"
    using assms(6) by (simp add: os failures_counted t1 algebra_simps)
  have st: "ht_state (apply_outcomes p (s # os) t) = Degraded"
    unfolding run using assms(4,6) by (simp add: os apply_outcome_failure cnt not_le)
  have "fbounded 1 (success_rate (apply_outcomes p (s # os) t))"
    using assms(2) by (rule success_rate_outcomes)
  with st show ?thesis using penalty_infinite_iff by fastforce
qed

theorem open_breaker_reopened_by_failures_witness:
  "ht_state (apply_outcomes default_health_policy [(8, True, 30), (9, False, 30), (10, False, 30)]
     (apply_outcomes default_health_policy five_failures default_health_tracker)) = Degraded"
  using open_breaker_reopened_by_failures [OF five_failures_open(2), of default_health_policy "(8, True, 30)"
      "[(9, False, 30), (10, False, 30)]"] ht_inv_reachable [OF five_failures_open(1)]
  by (simp add: ht_inv_def default_health_policy_def DEGRADED_THRESHOLD_def OPEN_THRESHOLD_def)

end
