(* ===== verification/Costs.thy ===== *)
theory Costs
  imports Health
begin

text \<open>
  The cost model of \<open>src/src/lib.rs\<close>: tenant weights and ceilings with their validation, edges,
  and the weight of an edge, a weighted sum of four quantities normalised to the unit interval.
  Everything is computed on \<^typ>\<open>f64\<close>.  The sources compute the weight twice, on an \<open>Edge\<close> and on
  the \<open>IndexedEdge\<close> of the interned graph; both are translated and compared.
\<close>

section \<open>Cost models\<close>

record cost_weights =
  w_dollar :: f64
  w_latency :: f64
  w_risk :: f64
  w_base :: f64

record cost_ceilings =
  max_dollar :: f64
  max_latency_ms :: u64
  max_base :: f64

record tenant_cost_model =
  weights :: cost_weights
  ceilings :: cost_ceilings

definition default_cost_weights :: cost_weights where
  "default_cost_weights = \<lparr>w_dollar = f64_lit (4/10), w_latency = f64_lit (3/10),
     w_risk = f64_lit (2/10), w_base = f64_lit (1/10)\<rparr>"

definition default_cost_ceilings :: cost_ceilings where
  "default_cost_ceilings =
     \<lparr>max_dollar = f64_lit (1/100), max_latency_ms = 1000, max_base = f64_lit 10\<rparr>"

definition default_cost_model :: tenant_cost_model where
  "default_cost_model = \<lparr>weights = default_cost_weights, ceilings = default_cost_ceilings\<rparr>"

definition cost_model_validate :: "tenant_cost_model \<Rightarrow> router_error + unit" where
  "cost_model_validate m =
     (let ws = [w_dollar (weights m), w_latency (weights m), w_risk (weights m), w_base (weights m)];
          c = ceilings m
      in if \<exists>w \<in> set ws. \<not> is_finite w \<or> f_lt w f_zero
         then Inl (InvalidCostModel ''weights must be finite and non-negative'')
         else if \<forall>w \<in> set ws. f_eq w f_zero
         then Inl (InvalidCostModel ''at least one weight must be greater than zero'')
         else if \<not> is_finite (max_dollar c) \<or> \<not> is_finite (max_base c)
                 \<or> f_le (max_dollar c) f_zero \<or> f_le (max_base c) f_zero
                 \<or> max_latency_ms c = 0
         then Inl (InvalidCostModel ''ceilings must be finite and greater than zero'')
         else Inr ())"

section \<open>Edges\<close>

record edge =
  edge_from :: node_id
  edge_to :: node_id
  base_cost :: f64
  dollar_cost :: f64
  latency_ms :: u64
  risk :: f64
  enabled :: bool

definition edge_new :: "node_id \<Rightarrow> node_id \<Rightarrow> edge" where
  "edge_new from_id to_id = \<lparr>edge_from = from_id, edge_to = to_id, base_cost = f_one,
     dollar_cost = f_zero, latency_ms = 0, risk = f_zero, enabled = True\<rparr>"

definition edge_with_costs :: "f64 \<Rightarrow> f64 \<Rightarrow> u64 \<Rightarrow> f64 \<Rightarrow> edge \<Rightarrow> edge" where
  "edge_with_costs bc dc lm rk e =
     e\<lparr>base_cost := bc, dollar_cost := dc, latency_ms := lm, risk := rk\<rparr>"

definition edge_is_valid :: "edge \<Rightarrow> bool" where
  "edge_is_valid e =
     (edge_from e \<noteq> [] \<and> edge_to e \<noteq> []
      \<and> is_finite (base_cost e) \<and> is_finite (dollar_cost e) \<and> is_finite (risk e)
      \<and> f_ge (base_cost e) f_zero \<and> f_ge (dollar_cost e) f_zero \<and> f_ge (risk e) f_zero)"

definition normalize :: "f64 \<Rightarrow> f64 \<Rightarrow> f64" where
  "normalize value ceil =
     (if f_le ceil f_zero then f_one else fclamp (fdiv value ceil) f_zero f_one)"

definition edge_weight :: "tenant_cost_model \<Rightarrow> edge \<Rightarrow> f64" where
  "edge_weight cost_model e =
     (if \<not> edge_is_valid e \<or> isl (cost_model_validate cost_model) then f_inf
      else let c = ceilings cost_model; w = weights cost_model;
               dollar = normalize (dollar_cost e) (max_dollar c);
               latency = normalize (f64_of_u64 (latency_ms e)) (f64_of_u64 (max_latency_ms c));
               risk_part = fclamp (risk e) f_zero f_one;
               base = normalize (base_cost e) (max_base c)
           in fadd (fadd (fadd (fmul (w_dollar w) dollar) (fmul (w_latency w) latency))
                (fmul (w_risk w) risk_part)) (fmul (w_base w) base))"

text \<open>The edge as the interned graph stores it.\<close>

record indexed_edge =
  ie_to :: u32
  ie_base_cost :: f64
  ie_dollar_cost :: f64
  ie_latency_ms :: u64
  ie_risk :: f64
  ie_enabled :: bool

definition ie_is_valid :: "indexed_edge \<Rightarrow> bool" where
  "ie_is_valid e =
     (is_finite (ie_base_cost e) \<and> is_finite (ie_dollar_cost e) \<and> is_finite (ie_risk e)
      \<and> f_ge (ie_base_cost e) f_zero \<and> f_ge (ie_dollar_cost e) f_zero \<and> f_ge (ie_risk e) f_zero)"

definition ie_weight :: "tenant_cost_model \<Rightarrow> indexed_edge \<Rightarrow> f64" where
  "ie_weight cost_model e =
     (if \<not> ie_is_valid e \<or> isl (cost_model_validate cost_model) then f_inf
      else let c = ceilings cost_model; w = weights cost_model;
               dollar = normalize (ie_dollar_cost e) (max_dollar c);
               latency = normalize (f64_of_u64 (ie_latency_ms e)) (f64_of_u64 (max_latency_ms c));
               risk_part = fclamp (ie_risk e) f_zero f_one;
               base = normalize (ie_base_cost e) (max_base c)
           in fadd (fadd (fadd (fmul (w_dollar w) dollar) (fmul (w_latency w) latency))
                (fmul (w_risk w) risk_part)) (fmul (w_base w) base))"

section \<open>Reading the validation\<close>

text \<open>\<open>x >= 0.0\<close> accepts \<open>-0.0\<close>; both zeros have magnitude 0.\<close>

lemma ge_zero_fge0: "is_finite a \<Longrightarrow> wf_f64 a \<Longrightarrow> f_ge a f_zero \<longleftrightarrow> fge0 a"
  by (simp add: fge0_iff_compare)

definition wf_cost_model :: "tenant_cost_model \<Rightarrow> bool" where
  "wf_cost_model m \<longleftrightarrow>
     wf_f64 (w_dollar (weights m)) \<and> wf_f64 (w_latency (weights m)) \<and> wf_f64 (w_risk (weights m))
     \<and> wf_f64 (w_base (weights m)) \<and> wf_f64 (max_dollar (ceilings m)) \<and> wf_f64 (max_base (ceilings m))"

definition wf_edge :: "edge \<Rightarrow> bool" where
  "wf_edge e \<longleftrightarrow> wf_f64 (base_cost e) \<and> wf_f64 (dollar_cost e) \<and> wf_f64 (risk e)"

definition wf_ie :: "indexed_edge \<Rightarrow> bool" where
  "wf_ie e \<longleftrightarrow> wf_f64 (ie_base_cost e) \<and> wf_f64 (ie_dollar_cost e) \<and> wf_f64 (ie_risk e)"

lemma not_lt_zero: "is_finite w \<Longrightarrow> wf_f64 w \<Longrightarrow> \<not> f_lt w f_zero \<longleftrightarrow> fge0 w"
proof (cases w)
  case (Fin s m)
  assume "wf_f64 w"
  with Fin show ?thesis using wf_f64_nonneg [of s m] by (auto simp: f_lt_def signed_def)
qed auto

lemma valid_cost_model:
  assumes "wf_cost_model m" "cost_model_validate m = Inr ()"
  shows "is_finite (w_dollar (weights m)) \<and> fge0 (w_dollar (weights m))"
    and "is_finite (w_latency (weights m)) \<and> fge0 (w_latency (weights m))"
    and "is_finite (w_risk (weights m)) \<and> fge0 (w_risk (weights m))"
    and "is_finite (w_base (weights m)) \<and> fge0 (w_base (weights m))"
    and "is_finite (max_dollar (ceilings m)) \<and> is_finite (max_base (ceilings m))"
    and "\<not> f_le (max_dollar (ceilings m)) f_zero" "\<not> f_le (max_base (ceilings m)) f_zero"
    and "max_latency_ms (ceilings m) \<noteq> 0"
  using assms
  by (simp_all add: wf_cost_model_def cost_model_validate_def Let_def not_lt_zero split: if_splits)

section \<open>Bounds of the weight\<close>

lemma f_le_mk_f64: "x \<le> y \<Longrightarrow> f_le (mk_f64 False x) (mk_f64 False y)"
  by (simp add: f_le_nonneg mk_f64_mono)

lemma fadd_fge0:
  "fge0 (Fin s m) \<Longrightarrow> fge0 (Fin t n) \<Longrightarrow>
   fadd (Fin s m) (Fin t n) = (if m + n = 0 then Fin (s \<and> t) 0 else mk_f64 False (m + n))"
  by (auto simp: signed_def Let_def)

lemma f_le_zero_mk: "f_le (Fin s 0) (mk_f64 False x)" "f_le (Fin s 0) f_inf" "f_le (Fin s 0) (Fin t 0)"
  by (auto simp: f_le_def mk_f64_def signed_def)

lemma f_le_fge0_Fin: "fge0 (Fin s m) \<Longrightarrow> fge0 (Fin t n) \<Longrightarrow> f_le (Fin s m) (Fin t n) \<longleftrightarrow> m \<le> n"
  by (auto simp: f_le_def signed_def)

lemma f_le_inf: "fge0 a \<Longrightarrow> f_le a f_inf" "fge0 a \<Longrightarrow> f_le f_inf a \<longleftrightarrow> a = f_inf"
  by (cases a; auto simp: f_le_def signed_def)+

lemma f_le_refl: "\<not> is_nan a \<Longrightarrow> f_le a a"
  by (simp add: f_le_def)

lemma f_le_trans: "f_le a b \<Longrightarrow> f_le b c \<Longrightarrow> f_le a c"
  by (auto simp: f_le_def)

lemma fadd_le_mono:
  assumes "fge0 a" "fge0 b" "fge0 c" "fge0 d" "f_le a b" "f_le c d"
  shows "f_le (fadd a c) (fadd b d)"
proof (cases "b = f_inf \<or> d = f_inf")
  case True
  then have "fadd b d = f_inf" using assms(2,4) by (cases b; cases d) auto
  then show ?thesis using assms(1,3) by (simp add: f_le_inf)
next
  case False
  then obtain s m t n where b: "b = Fin s m" and d: "d = Fin t n"
    using assms(2,4) by (cases b; cases d) auto
  obtain s' m' where a: "a = Fin s' m'" "m' \<le> m"
    using assms(1,2,5) b by (cases a) (auto simp: f_le_fge0_Fin f_le_inf)
  obtain t' n' where c: "c = Fin t' n'" "n' \<le> n"
    using assms(3,4,6) d by (cases c) (auto simp: f_le_fge0_Fin f_le_inf)
  have "0 \<le> m'" "0 \<le> n'" using assms(1,3) a c by auto
  then show ?thesis
    using assms(1-4) a c b d
    by (auto simp: fadd_fge0 f_le_zero_mk simp del: fadd.simps fge0.simps intro: f_le_mk_f64)
qed

definition funit :: "f64 \<Rightarrow> bool" where
  "funit a \<longleftrightarrow> fge0 a \<and> is_finite a \<and> f_le a f_one"

lemma fmul_unit_le:
  assumes "fge0 w" "is_finite w" "wf_f64 w" "funit u"
  shows "f_le (fmul w u) w"
proof -
  obtain s m where w: "w = Fin s m" using assms(2) by (cases w) auto
  obtain t n where u: "u = Fin t n" using assms(4) by (cases u) (auto simp: funit_def)
  have n: "0 \<le> n" "n \<le> 1" "t \<Longrightarrow> n = 0" and m: "0 \<le> m" "s \<Longrightarrow> m = 0"
    using assms(1,4) by (auto simp: funit_def u w f_le_def signed_def split: if_splits)
  have wm: "w = mk_f64 s m" using assms(3) w by (auto simp: mk_f64_def)
  show ?thesis
  proof (cases "m * n = 0")
    case True
    then show ?thesis using m by (auto simp: w u f_le_def signed_def)
  next
    case False
    then have st: "\<not> s" "\<not> t" using n m by auto
    have "m * n \<le> m" using n m by (simp add: mult_left_le)
    then have "f_le (mk_f64 False (m * n)) (mk_f64 False m)" by (rule f_le_mk_f64)
    moreover have "fmul w u = mk_f64 False (m * n)" using st by (simp add: w u)
    moreover have "mk_f64 False m = w" using st wm by simp
    ultimately show ?thesis by simp
  qed
qed

lemma fmul_unit_ge0: "fge0 w \<Longrightarrow> is_finite w \<Longrightarrow> funit u \<Longrightarrow> fge0 (fmul w u)"
  by (simp add: fge0_fmul funit_def)

lemma normalize_unit:
  assumes "fge0 value" "is_finite value" "\<not> is_nan ceil" "wf_f64 ceil"
  shows "funit (normalize value ceil)"
proof (cases "f_le ceil f_zero")
  case True
  then show ?thesis by (simp add: normalize_def funit_def f_le_def)
next
  case False
  then have "f_lt f_zero ceil" using assms(3) by (auto simp: f_le_def f_lt_def)
  moreover from this have "fge0 ceil"
    using assms(4) wf_f64_nonneg
    by (cases ceil) (fastforce simp: f_lt_def signed_def split: if_splits)+
  ultimately have "fge0 (fdiv value ceil)" using assms(1,2) by (intro fge0_fdiv) auto
  then show ?thesis using False by (simp add: normalize_def funit_def fclamp_unit)
qed

lemma fge0_f64_of_nat: "fge0 (f64_of_nat n)"
  by (simp add: fnonneg_fge0)

lemma wf_f64_of_nat [simp]: "wf_f64 (f64_of_nat n)"
  by (simp add: f64_of_nat_def)

lemma is_finite_f64_of_u64: "is_finite (f64_of_u64 w)"
proof -
  have "of_nat (unat w) \<le> (2::rat) ^ 64"
    using of_nat_mono [OF less_imp_le [OF unat_u64_less [of w]], where ?'a = rat] by simp
  then show ?thesis unfolding f64_of_nat_def by (rule fbounded_finite [OF fbounded_mk_pow]) simp
qed

lemma not_nan_finite: "is_finite a \<Longrightarrow> \<not> is_nan a"
  by (cases a) auto

text \<open>
  The weight of a valid edge under a valid model: never NaN, never negative, and never above the
  sum of the tenant's weights, which is what normalising to the ceilings is for.
\<close>

definition max_weight :: "tenant_cost_model \<Rightarrow> f64" where
  "max_weight m = fadd (fadd (fadd (w_dollar (weights m)) (w_latency (weights m))) (w_risk (weights m)))
     (w_base (weights m))"

lemma ie_weight_bounds:
  assumes m: "wf_cost_model m" "cost_model_validate m = Inr ()" and e: "wf_ie e" "ie_is_valid e"
  shows "fge0 (ie_weight m e) \<and> f_le (ie_weight m e) (max_weight m)"
proof -
  note v = valid_cost_model [OF m]
  define dollar where "dollar = normalize (ie_dollar_cost e) (max_dollar (ceilings m))"
  define latency where "latency = normalize (f64_of_u64 (ie_latency_ms e)) (f64_of_u64 (max_latency_ms (ceilings m)))"
  define rk where "rk = fclamp (ie_risk e) f_zero f_one"
  define base where "base = normalize (ie_base_cost e) (max_base (ceilings m))"
  have ge: "fge0 (ie_dollar_cost e)" "fge0 (ie_base_cost e)" "fge0 (ie_risk e)"
    and fin: "is_finite (ie_dollar_cost e)" "is_finite (ie_base_cost e)"
    using e by (simp_all add: wf_ie_def ie_is_valid_def fge0_iff_compare)
  have wf: "wf_f64 (max_dollar (ceilings m))" "wf_f64 (max_base (ceilings m))"
    "wf_f64 (w_dollar (weights m))" "wf_f64 (w_latency (weights m))" "wf_f64 (w_risk (weights m))"
    "wf_f64 (w_base (weights m))"
    using m(1) by (simp_all add: wf_cost_model_def)
  have u: "funit dollar" "funit latency" "funit rk" "funit base"
    using normalize_unit ge fin v wf fclamp_unit [OF ge(3)]
    by (simp_all add: dollar_def latency_def rk_def base_def fge0_f64_of_nat is_finite_f64_of_u64
        not_nan_finite) (simp add: funit_def)
  have w: "ie_weight m e = fadd (fadd (fadd (fmul (w_dollar (weights m)) dollar)
      (fmul (w_latency (weights m)) latency)) (fmul (w_risk (weights m)) rk))
      (fmul (w_base (weights m)) base)"
    using e m by (simp add: ie_weight_def Let_def dollar_def latency_def rk_def base_def)
  show ?thesis
    unfolding w max_weight_def
    by (intro conjI fadd_le_mono fge0_fadd fmul_unit_ge0 fmul_unit_le u; simp add: v wf)
qed

text \<open>The two computations of the weight agree, except that only \<open>Edge\<close> refuses empty names.\<close>

definition index_edge :: "u32 \<Rightarrow> edge \<Rightarrow> indexed_edge" where
  "index_edge to_id e = \<lparr>ie_to = to_id, ie_base_cost = base_cost e, ie_dollar_cost = dollar_cost e,
     ie_latency_ms = latency_ms e, ie_risk = risk e, ie_enabled = enabled e\<rparr>"

lemma index_edge_valid:
  "edge_is_valid e \<longleftrightarrow> edge_from e \<noteq> [] \<and> edge_to e \<noteq> [] \<and> ie_is_valid (index_edge i e)"
  by (simp add: edge_is_valid_def ie_is_valid_def index_edge_def)

lemma index_edge_weight:
  "edge_from e \<noteq> [] \<Longrightarrow> edge_to e \<noteq> [] \<Longrightarrow> edge_weight m e = ie_weight m (index_edge i e)"
  by (simp add: edge_weight_def ie_weight_def index_edge_valid [of e i]) (simp add: index_edge_def)

section \<open>Properties of the weight\<close>

text \<open>
  The weight of a valid edge under a validated cost model is a number: never NaN, never
  negative, and never above the sum of the tenant's weights, whatever the edge's own costs are.
\<close>
theorem valid_weight_bounded:
  assumes "wf_cost_model m" "cost_model_validate m = Inr ()" "wf_ie e" "ie_is_valid e"
  shows "fge0 (ie_weight m e) \<and> f_le (ie_weight m e) (max_weight m)"
  using ie_weight_bounds [OF assms] .

definition costly_edge :: indexed_edge where
  "costly_edge = \<lparr>ie_to = 1, ie_base_cost = f64_lit 1000000, ie_dollar_cost = f64_lit 1000000,
     ie_latency_ms = 1000000, ie_risk = f64_lit 7, ie_enabled = True\<rparr>"

definition unit_cost_model :: tenant_cost_model where
  "unit_cost_model = \<lparr>weights = \<lparr>w_dollar = f_one, w_latency = f_one, w_risk = f_one, w_base = f_one\<rparr>,
     ceilings = \<lparr>max_dollar = f_one, max_latency_ms = 1, max_base = f_one\<rparr>\<rparr>"

theorem valid_weight_bounded_witness: "f_le (ie_weight unit_cost_model costly_edge) (f64_lit 4)"
proof -
  have "wf_cost_model unit_cost_model" "cost_model_validate unit_cost_model = Inr ()"
    "wf_ie costly_edge" "ie_is_valid costly_edge" "max_weight unit_cost_model = f64_lit 4"
    by code_simp+
  then show ?thesis using valid_weight_bounded [of unit_cost_model costly_edge] by simp
qed

text \<open>
  The two implementations of the weight (\<open>Edge::weight\<close> on names, \<open>IndexedEdge::weight\<close> in
  the search) agree bit for bit on every edge with non-empty names; only the first refuses an
  edge with an empty name, which the graph accepts and routes over.
\<close>
theorem weight_implementations_agree:
  "edge_weight m e = (if edge_from e = [] \<or> edge_to e = [] then f_inf else ie_weight m (index_edge i e))"
  using index_edge_weight [of e m i] by (auto simp: edge_weight_def edge_is_valid_def)

end
