(* ===== verification/ToolGraph.thy ===== *)
theory ToolGraph
  imports Costs
begin

text \<open>
  The interned tool graph of \<open>src/src/lib.rs\<close> and its shortest-path search.  Node names are
  interned to dense \<open>u32\<close> ids; the search keeps distances and predecessors in vectors and a
  binary heap of \<open>(node, cost)\<close> states with lazy deletion.  The search loop and the walk back
  along the predecessors are given fuel; theory \<open>Dijkstra\<close> proves how much is enough and that
  the definitions below supply it.
\<close>

section \<open>The graph\<close>

record route =
  nodes :: "node_id list"
  total_cost :: f64
  cache_hit :: bool

record tool_graph =
  node_to_id :: "(node_id, u32) hmap"
  id_to_node :: "node_id list"
  adjacency :: "indexed_edge list list"

definition empty_graph :: tool_graph where
  "empty_graph = \<lparr>node_to_id = [], id_to_node = [], adjacency = []\<rparr>"

definition get_or_insert_node :: "node_id \<Rightarrow> tool_graph \<Rightarrow> u32 \<times> tool_graph" where
  "get_or_insert_node name g =
     (case map_of (node_to_id g) name of
        Some i \<Rightarrow> (i, g)
      | None \<Rightarrow>
          (let i = of_nat (length (id_to_node g))
           in (i, g\<lparr>node_to_id := AList.update name i (node_to_id g),
                    id_to_node := id_to_node g @ [name],
                    adjacency := adjacency g @ [[]]\<rparr>)))"

definition graph_add_edge :: "edge \<Rightarrow> tool_graph \<Rightarrow> tool_graph" where
  "graph_add_edge e g =
     (let (from_id, g1) = get_or_insert_node (edge_from e) g;
          (to_id, g2) = get_or_insert_node (edge_to e) g1;
          f = unat from_id
      in g2\<lparr>adjacency := (adjacency g2)[f := adjacency g2 ! f @
           [\<lparr>ie_to = to_id, ie_base_cost = base_cost e, ie_dollar_cost = dollar_cost e,
             ie_latency_ms = latency_ms e, ie_risk = risk e, ie_enabled = enabled e\<rparr>]]\<rparr>)"

section \<open>The priority queue\<close>

datatype search_state = SearchState (ss_node: u32) (ss_cost: f64)

datatype ordering = Less | Equal | Greater

definition partial_cmp_or_equal :: "f64 \<Rightarrow> f64 \<Rightarrow> ordering" where
  "partial_cmp_or_equal a b = (if f_lt a b then Less else if f_lt b a then Greater else Equal)"

text \<open>\<open>Ord for SearchState\<close>: the lower cost is the greater state, ties go to the greater id.\<close>

definition search_cmp :: "search_state \<Rightarrow> search_state \<Rightarrow> ordering" where
  "search_cmp self other =
     (case partial_cmp_or_equal (ss_cost other) (ss_cost self) of
        Equal \<Rightarrow> if ss_node self < ss_node other then Less
                 else if ss_node self > ss_node other then Greater else Equal
      | c \<Rightarrow> c)"

text \<open>
  \<open>BinaryHeap\<close> by its contract: \<open>pop\<close> removes a greatest element.  Two states that compare
  equal have the same node and equal costs, so which of them is removed cannot be observed.
\<close>

fun heap_max :: "search_state \<Rightarrow> search_state list \<Rightarrow> search_state" where
  "heap_max m [] = m"
| "heap_max m (x # xs) = heap_max (if search_cmp x m = Greater then x else m) xs"

definition heap_pop :: "search_state list \<Rightarrow> (search_state \<times> search_state list) option" where
  "heap_pop h = (case h of [] \<Rightarrow> None
     | x # xs \<Rightarrow> let m = heap_max x xs in Some (m, remove1 m h))"

section \<open>The search\<close>

record search =
  distances :: "f64 list"
  previous :: "u32 list"
  heap :: "search_state list"

abbreviation u32_max :: u32 where
  "u32_max \<equiv> - 1"

definition health_penalty :: "(node_id, health_tracker) hmap \<Rightarrow> tool_graph \<Rightarrow> u32 \<Rightarrow> f64" where
  "health_penalty health g v =
     (case map_of health (id_to_node g ! unat v) of None \<Rightarrow> f_zero | Some t \<Rightarrow> penalty t)"

text \<open>
  One iteration of the loop over the outgoing edges: a disabled edge, an invalid edge and an
  edge of infinite or undefined cost are skipped.
\<close>

definition edge_cost ::
  "(node_id, health_tracker) hmap \<Rightarrow> tenant_cost_model \<Rightarrow> tool_graph \<Rightarrow> indexed_edge \<Rightarrow> f64 option" where
  "edge_cost health cost_model g e =
     (if \<not> ie_enabled e then None
      else let pen = health_penalty health g (ie_to e)
           in if \<not> ie_is_valid e then None
              else let c = fadd (ie_weight cost_model e) pen
                   in if is_infinite c \<or> is_nan c then None else Some c)"

definition relax ::
  "(node_id, health_tracker) hmap \<Rightarrow> tenant_cost_model \<Rightarrow> tool_graph \<Rightarrow> u32 \<Rightarrow> f64
   \<Rightarrow> indexed_edge \<Rightarrow> search \<Rightarrow> search" where
  "relax health cost_model g node cost e s =
     (case edge_cost health cost_model g e of
        None \<Rightarrow> s
      | Some c \<Rightarrow>
          (let next_cost = fadd cost c; to = unat (ie_to e)
           in if f_lt next_cost (distances s ! to)
              then s\<lparr>distances := (distances s)[to := next_cost],
                     previous := (previous s)[to := node],
                     heap := SearchState (ie_to e) next_cost # heap s\<rparr>
              else s))"

text \<open>The nodes pushed by the walk back, goal first; \<open>None\<close> when the fuel runs out.\<close>

fun walk_back :: "nat \<Rightarrow> u32 list \<Rightarrow> node_id list \<Rightarrow> u32 \<Rightarrow> u32 \<Rightarrow> node_id list option" where
  "walk_back 0 prev names start_id cur = None"
| "walk_back (Suc k) prev names start_id cur =
     (if cur = u32_max then Some []
      else if cur = start_id then Some [names ! unat cur]
      else map_option ((#) (names ! unat cur))
             (walk_back k prev names start_id (prev ! unat cur)))"

text \<open>\<open>None\<close>: out of fuel; \<open>Some None\<close>: the heap is empty, there is no path.\<close>

fun search_loop ::
  "nat \<Rightarrow> (node_id, health_tracker) hmap \<Rightarrow> tenant_cost_model \<Rightarrow> tool_graph \<Rightarrow> u32 \<Rightarrow> u32
   \<Rightarrow> search \<Rightarrow> route option option" where
  "search_loop 0 health cost_model g start_id goal_id s = None"
| "search_loop (Suc k) health cost_model g start_id goal_id s =
     (case heap_pop (heap s) of
        None \<Rightarrow> Some None
      | Some (SearchState node cost, rest) \<Rightarrow>
          (let s = s\<lparr>heap := rest\<rparr>
           in if node = goal_id
              then map_option (\<lambda>path. Some \<lparr>nodes = rev path, total_cost = cost, cache_hit = False\<rparr>)
                     (walk_back (Suc (length (id_to_node g))) (previous s) (id_to_node g) start_id goal_id)
              else if f_gt cost (distances s ! unat node)
              then search_loop k health cost_model g start_id goal_id s
              else search_loop k health cost_model g start_id goal_id
                     (fold (relax health cost_model g node cost) (adjacency g ! unat node) s)))"

definition init_search :: "tool_graph \<Rightarrow> u32 \<Rightarrow> search" where
  "init_search g start_id =
     (let n = length (id_to_node g)
      in \<lparr>distances = (replicate n f_inf)[unat start_id := f_zero],
          previous = replicate n u32_max,
          heap = [SearchState start_id f_zero]\<rparr>)"

definition search_fuel :: "tool_graph \<Rightarrow> nat" where
  "search_fuel g = sum_list (map length (adjacency g)) + 2"

definition shortest_path ::
  "(node_id, health_tracker) hmap \<Rightarrow> tenant_cost_model \<Rightarrow> tool_graph \<Rightarrow> node_id \<Rightarrow> node_id
   \<Rightarrow> route option" where
  "shortest_path health cost_model g start goal =
     (if start = goal then Some \<lparr>nodes = [start], total_cost = f_zero, cache_hit = False\<rparr>
      else case map_of (node_to_id g) start of
             None \<Rightarrow> None
           | Some start_id \<Rightarrow>
               (case map_of (node_to_id g) goal of
                  None \<Rightarrow> None
                | Some goal_id \<Rightarrow>
                    (case search_loop (search_fuel g) health cost_model g start_id goal_id
                            (init_search g start_id) of
                       None \<Rightarrow> None
                     | Some r \<Rightarrow> r)))"

section \<open>Well-formed graphs\<close>

text \<open>
  Names and ids are mutually inverse, every edge points to a node, every edge's fields are
  binary64 values, and there are fewer than \<open>2 ^ 32 - 1\<close> nodes, so that no id is the marker
  \<open>u32::MAX\<close>.  Adding an edge keeps this as long as two more nodes fit.
\<close>

definition wf_graph :: "tool_graph \<Rightarrow> bool" where
  "wf_graph g \<longleftrightarrow>
     length (adjacency g) = length (id_to_node g)
     \<and> length (id_to_node g) < 2 ^ 32 - 1
     \<and> distinct (id_to_node g)
     \<and> (\<forall>name i. map_of (node_to_id g) name = Some i
          \<longleftrightarrow> unat i < length (id_to_node g) \<and> id_to_node g ! unat i = name)
     \<and> (\<forall>es \<in> set (adjacency g). \<forall>e \<in> set es. unat (ie_to e) < length (id_to_node g) \<and> wf_ie e)"

end
