(* ===== verification/Dijkstra.thy ===== *)
theory Dijkstra
  imports ToolGraph
begin

text \<open>
  Correctness of the shortest-path search, on the rounded arithmetic the program computes with.
  The cost of a path is the left-to-right rounded sum of its edge costs.  Only two laws of
  addition matter, stated as the locale \<open>path_costs\<close>: adding a hop never lowers a cost, and
  addition is monotone.  Rounded addition on non-negative binary64 values satisfies them, so
  the search is optimal and its predecessor chains are acyclic in spite of rounding.
\<close>

section \<open>The laws of path costs\<close>

locale path_costs =
  fixes add :: "'c::linorder \<Rightarrow> 'c \<Rightarrow> 'c"
    and zero :: 'c
    and cost :: "'c \<Rightarrow> bool"
    and hop :: "'c \<Rightarrow> bool"
  assumes cost_zero: "cost zero"
    and cost_add: "cost c \<Longrightarrow> hop w \<Longrightarrow> cost (add c w)"
    and zero_le: "cost c \<Longrightarrow> zero \<le> c"
    and le_add: "cost c \<Longrightarrow> hop w \<Longrightarrow> c \<le> add c w"
    and add_mono: "cost c \<Longrightarrow> cost d \<Longrightarrow> hop w \<Longrightarrow> c \<le> d \<Longrightarrow> add c w \<le> add d w"
begin

lemma cost_foldl: "cost c \<Longrightarrow> \<forall>w \<in> set ws. hop w \<Longrightarrow> cost (foldl add c ws)"
  by (induction ws arbitrary: c) (auto simp: cost_add)

lemma le_foldl: "cost c \<Longrightarrow> \<forall>w \<in> set ws. hop w \<Longrightarrow> c \<le> foldl add c ws"
proof (induction ws arbitrary: c)
  case (Cons w ws)
  then have "c \<le> add c w" "add c w \<le> foldl add (add c w) ws" by (auto simp: le_add cost_add)
  then show ?case by simp
qed simp

lemma foldl_mono:
  "cost c \<Longrightarrow> cost d \<Longrightarrow> c \<le> d \<Longrightarrow> \<forall>w \<in> set ws. hop w \<Longrightarrow> foldl add c ws \<le> foldl add d ws"
  by (induction ws arbitrary: c d) (auto simp: cost_add add_mono)

text \<open>A path is never cheaper than any of its prefixes.\<close>

lemma prefix_le:
  "\<forall>w \<in> set (ws @ ws'). hop w \<Longrightarrow> foldl add zero ws \<le> foldl add zero (ws @ ws')"
  using le_foldl [of "foldl add zero ws" ws'] cost_foldl [OF cost_zero, of ws] by auto

lemma step_le_trans: "cost c \<Longrightarrow> cost d \<Longrightarrow> hop w \<Longrightarrow> c \<le> d \<Longrightarrow> c \<le> add d w"
  by (metis le_add order_trans)

end

abbreviation path_cost_ok :: "f64 \<Rightarrow> bool" where
  "path_cost_ok c \<equiv> fnonneg c \<and> wf_f64 c"

interpretation fc: path_costs fadd f_zero path_cost_ok fnonneg
proof
  show "path_cost_ok f_zero" by (simp add: max_mag_def)
  fix c d w
  assume c: "path_cost_ok c"
  show "f_zero \<le> c" using c by (auto elim!: fnonneg_cases simp: less_eq_f64_def)
  assume w: "fnonneg w"
  show "path_cost_ok (fadd c w)" using c w by simp
  show "c \<le> fadd c w" using c w by (simp add: fadd_increases)
  assume "path_cost_ok d" "c \<le> d"
  then show "fadd c w \<le> fadd d w" using c w by (simp add: fadd_mono_left)
qed

section \<open>Hops and paths\<close>

text \<open>The usable outgoing edges of a node, with their costs.\<close>

definition hops ::
  "(node_id, health_tracker) hmap \<Rightarrow> tenant_cost_model \<Rightarrow> tool_graph \<Rightarrow> u32 \<Rightarrow> (u32 \<times> f64) list" where
  "hops health cost_model g u =
     List.map_filter (\<lambda>e. map_option (\<lambda>c. (ie_to e, c)) (edge_cost health cost_model g e))
       (adjacency g ! unat u)"

inductive costed_path :: "(u32 \<Rightarrow> (u32 \<times> f64) list) \<Rightarrow> u32 \<Rightarrow> u32 list \<Rightarrow> u32 \<Rightarrow> f64 \<Rightarrow> bool"
  for hs s where
  cp_start: "costed_path hs s [s] s f_zero"
| cp_hop: "costed_path hs s p u c \<Longrightarrow> (v, w) \<in> set (hs u) \<Longrightarrow> costed_path hs s (p @ [v]) v (fadd c w)"

definition hops_ok :: "(u32 \<Rightarrow> (u32 \<times> f64) list) \<Rightarrow> nat \<Rightarrow> bool" where
  "hops_ok hs n \<longleftrightarrow> (\<forall>u v w. unat u < n \<longrightarrow> (v, w) \<in> set (hs u) \<longrightarrow> unat v < n \<and> fnonneg w)"

lemma hops_okD: "hops_ok hs n \<Longrightarrow> unat u < n \<Longrightarrow> (v, w) \<in> set (hs u) \<Longrightarrow> unat v < n \<and> fnonneg w"
  by (simp add: hops_ok_def)

lemma costed_path_ok:
  "costed_path hs s p v c \<Longrightarrow> hops_ok hs n \<Longrightarrow> unat s < n \<Longrightarrow> unat v < n \<and> path_cost_ok c"
  by (induction rule: costed_path.induct) (use fc.cost_zero in \<open>auto dest: hops_okD\<close>)

lemma costed_path_ends: "costed_path hs s p v c \<Longrightarrow> p \<noteq> [] \<and> hd p = s \<and> last p = v"
  by (induction rule: costed_path.induct) auto

lemma unat_u32_max: "unat u32_max = 2 ^ 32 - 1"
  by (simp add: unsigned_minus_1_eq_mask mask_eq_exp_minus_1)

text \<open>The chain of predecessors from a node back to the start.\<close>

inductive pchain :: "u32 list \<Rightarrow> u32 \<Rightarrow> u32 list \<Rightarrow> u32 \<Rightarrow> bool" for prev s where
  pc_start: "pchain prev s [s] s"
| pc_step: "pchain prev s p u \<Longrightarrow> v \<noteq> s \<Longrightarrow> prev ! unat v = u \<Longrightarrow> pchain prev s (p @ [v]) v"

lemma pchain_last: "pchain prev s p v \<Longrightarrow> p \<noteq> [] \<and> last p = v"
  by (induction rule: pchain.induct) auto

lemma pchain_cong:
  "pchain prev s p v \<Longrightarrow> \<forall>u \<in> set p. u \<noteq> s \<longrightarrow> prev' ! unat u = prev ! unat u \<Longrightarrow> pchain prev' s p v"
  by (induction rule: pchain.induct) (auto intro: pchain.intros)

lemma walk_back_pchain:
  "pchain prev s p v \<Longrightarrow> \<forall>u \<in> set p. u \<noteq> u32_max \<Longrightarrow> length p \<le> k
   \<Longrightarrow> walk_back k prev names s v = Some (rev (map (\<lambda>u. names ! unat u) p))"
proof (induction arbitrary: k rule: pchain.induct)
  case pc_start
  then show ?case by (cases k) auto
next
  case (pc_step p u v)
  then obtain k' where k: "k = Suc k'" by (cases k) auto
  with pc_step have "walk_back k' prev names s u = Some (rev (map (\<lambda>u. names ! unat u) p))" by simp
  with pc_step k show ?case by simp
qed

section \<open>The priority queue\<close>

lemma search_cmp_nonneg:
  "fnonneg (ss_cost x) \<Longrightarrow> fnonneg (ss_cost y) \<Longrightarrow>
   search_cmp x y = Greater \<Longrightarrow> ss_cost x \<le> ss_cost y"
  by (auto simp: search_cmp_def partial_cmp_or_equal_def f_lt_nonneg split: if_splits)

lemma search_cmp_nonneg_not:
  "fnonneg (ss_cost x) \<Longrightarrow> fnonneg (ss_cost y) \<Longrightarrow>
   search_cmp x y \<noteq> Greater \<Longrightarrow> ss_cost y \<le> ss_cost x"
  by (auto simp: search_cmp_def partial_cmp_or_equal_def f_lt_nonneg split: if_splits)

lemma heap_max_least:
  "\<forall>x \<in> set (m # xs). fnonneg (ss_cost x) \<Longrightarrow>
   heap_max m xs \<in> set (m # xs) \<and> (\<forall>x \<in> set (m # xs). ss_cost (heap_max m xs) \<le> ss_cost x)"
proof (induction xs arbitrary: m)
  case (Cons x xs)
  define m' where "m' = (if search_cmp x m = Greater then x else m)"
  have m': "m' \<in> {x, m}" "ss_cost m' \<le> ss_cost x" "ss_cost m' \<le> ss_cost m"
    using Cons.prems search_cmp_nonneg [of x m] search_cmp_nonneg_not [of x m]
    by (auto simp: m'_def)
  with Cons.IH [of m'] Cons.prems have IH: "heap_max m' xs \<in> set (m' # xs)"
    "\<forall>y \<in> set (m' # xs). ss_cost (heap_max m' xs) \<le> ss_cost y" by auto
  have "heap_max m (x # xs) = heap_max m' xs" by (simp add: m'_def)
  then show ?case using IH m' by (auto intro: order_trans)
qed simp

lemma heap_pop_least:
  assumes "heap_pop h = Some (m, rest)" "\<forall>x \<in> set h. fnonneg (ss_cost x)"
  shows "m \<in> set h" "rest = remove1 m h" "\<forall>x \<in> set h. ss_cost m \<le> ss_cost x"
  using assms heap_max_least [of "hd h" "tl h"]
  by (auto simp: heap_pop_def Let_def split: list.splits)

lemma heap_pop_None: "heap_pop h = None \<longleftrightarrow> h = []"
  by (auto simp: heap_pop_def Let_def split: list.splits)

section \<open>Relaxation over hops\<close>

definition relax_hop :: "u32 \<Rightarrow> f64 \<Rightarrow> u32 \<times> f64 \<Rightarrow> search \<Rightarrow> search" where
  "relax_hop node cost h s =
     (case h of (v, w) \<Rightarrow>
        let next_cost = fadd cost w
        in if f_lt next_cost (distances s ! unat v)
           then s\<lparr>distances := (distances s)[unat v := next_cost],
                  previous := (previous s)[unat v := node],
                  heap := SearchState v next_cost # heap s\<rparr>
           else s)"

lemma relax_relax_hop:
  "relax health m g node c e s =
     (case edge_cost health m g e of None \<Rightarrow> s | Some w \<Rightarrow> relax_hop node c (ie_to e, w) s)"
  by (simp add: relax_def relax_hop_def Let_def split: option.split)

lemma fold_relax_hops:
  "fold (relax health m g node c) (adjacency g ! unat u) s
     = fold (relax_hop node c) (hops health m g u) s"
proof -
  have "fold (relax health m g node c) es s
     = fold (relax_hop node c)
         (List.map_filter (\<lambda>e. map_option (\<lambda>c. (ie_to e, c)) (edge_cost health m g e)) es) s" for es
    by (induction es arbitrary: s) (auto simp: List.map_filter_simps relax_relax_hop split: option.split)
  then show ?thesis by (simp add: hops_def)
qed

section \<open>The invariant of the search\<close>

abbreviation dist_of :: "search \<Rightarrow> u32 \<Rightarrow> f64" where
  "dist_of st v \<equiv> distances st ! unat v"

text \<open>
  A node is expanded when it has a finite distance and no pending heap entry for it: its
  outgoing edges have been relaxed.
\<close>

definition expanded :: "nat \<Rightarrow> search \<Rightarrow> u32 \<Rightarrow> bool" where
  "expanded n st v \<longleftrightarrow> unat v < n \<and> dist_of st v \<noteq> f_inf \<and> SearchState v (dist_of st v) \<notin> set (heap st)"

definition chained :: "(u32 \<Rightarrow> (u32 \<times> f64) list) \<Rightarrow> nat \<Rightarrow> u32 \<Rightarrow> search \<Rightarrow> u32 \<Rightarrow> bool" where
  "chained hs n s st v \<longleftrightarrow> (\<exists>p. pchain (previous st) s p v \<and> costed_path hs s p v (dist_of st v)
      \<and> distinct p \<and> (\<forall>u \<in> set (butlast p). expanded n st u))"

definition search_inv ::
  "(u32 \<Rightarrow> (u32 \<times> f64) list) \<Rightarrow> nat \<Rightarrow> u32 \<Rightarrow> u32 \<Rightarrow> search \<Rightarrow> bool" where
  "search_inv hs n s goal st \<longleftrightarrow>
     length (distances st) = n \<and> length (previous st) = n \<and> unat s < n \<and> unat goal < n
     \<and> (\<forall>v. unat v < n \<longrightarrow> path_cost_ok (dist_of st v))
     \<and> dist_of st s = f_zero
     \<and> (\<forall>x \<in> set (heap st). unat (ss_node x) < n \<and> path_cost_ok (ss_cost x) \<and> ss_cost x \<noteq> f_inf
          \<and> dist_of st (ss_node x) \<le> ss_cost x)
     \<and> distinct (heap st)
     \<and> (\<forall>v. unat v < n \<longrightarrow> dist_of st v \<noteq> f_inf \<longrightarrow> chained hs n s st v)
     \<and> \<not> expanded n st goal"

definition closed_at :: "(u32 \<Rightarrow> (u32 \<times> f64) list) \<Rightarrow> search \<Rightarrow> u32 \<Rightarrow> bool" where
  "closed_at hs st u \<longleftrightarrow> (\<forall>(v, w) \<in> set (hs u). dist_of st v \<le> fadd (dist_of st u) w)"

definition frontier :: "nat \<Rightarrow> search \<Rightarrow> f64 \<Rightarrow> bool" where
  "frontier n st c \<longleftrightarrow> (\<forall>v. expanded n st v \<longrightarrow> dist_of st v \<le> c)"

definition loop_inv ::
  "(u32 \<Rightarrow> (u32 \<times> f64) list) \<Rightarrow> nat \<Rightarrow> u32 \<Rightarrow> u32 \<Rightarrow> search \<Rightarrow> bool" where
  "loop_inv hs n s goal st \<longleftrightarrow> search_inv hs n s goal st
     \<and> (\<forall>u. expanded n st u \<longrightarrow> closed_at hs st u)
     \<and> (\<forall>x \<in> set (heap st). frontier n st (ss_cost x))"

definition relax_inv ::
  "(u32 \<Rightarrow> (u32 \<times> f64) list) \<Rightarrow> nat \<Rightarrow> u32 \<Rightarrow> u32 \<Rightarrow> u32 \<Rightarrow> f64 \<Rightarrow> (u32 \<times> f64) set \<Rightarrow> search \<Rightarrow> bool" where
  "relax_inv hs n s goal node c handled st \<longleftrightarrow> search_inv hs n s goal st
     \<and> expanded n st node \<and> dist_of st node = c \<and> frontier n st c
     \<and> (\<forall>x \<in> set (heap st). c \<le> ss_cost x)
     \<and> (\<forall>u. expanded n st u \<longrightarrow> u \<noteq> node \<longrightarrow> closed_at hs st u)
     \<and> (\<forall>(v, w) \<in> handled. dist_of st v \<le> fadd c w)"

lemma nth_update_unat:
  fixes u v :: u32
  shows "unat v < length xs \<Longrightarrow> xs[unat v := x] ! unat u = (if u = v then x else xs ! unat u)"
  by (auto simp: nth_list_update word_unat_eq_iff)

subsection \<open>Lowering one distance\<close>

text \<open>
  The update of one relaxation, for a node \<open>v\<close> that is not expanded: distances only go down,
  the expanded nodes stay the same ones, and the chains of other nodes are untouched because
  their inner nodes are expanded.
\<close>

definition lower :: "u32 \<Rightarrow> u32 \<Rightarrow> f64 \<Rightarrow> search \<Rightarrow> search" where
  "lower node v next_cost st =
     st\<lparr>distances := (distances st)[unat v := next_cost],
        previous := (previous st)[unat v := node],
        heap := SearchState v next_cost # heap st\<rparr>"

lemma relax_hop_lower:
  "relax_hop node c (v, w) st =
     (if f_lt (fadd c w) (dist_of st v) then lower node v (fadd c w) st else st)"
  by (simp add: relax_hop_def lower_def Let_def)

lemma dist_lower:
  "unat v < length (distances st) \<Longrightarrow>
   dist_of (lower node v x st) u = (if u = v then x else dist_of st u)"
  by (simp add: lower_def nth_update_unat)

lemma previous_lower:
  "unat v < length (previous st) \<Longrightarrow>
   previous (lower node v x st) ! unat u = (if u = v then node else previous st ! unat u)"
  by (simp add: lower_def nth_update_unat)

lemma heap_lower [simp]: "heap (lower node v x st) = SearchState v x # heap st"
  by (simp add: lower_def)

lemma lengths_lower [simp]:
  "length (distances (lower node v x st)) = length (distances st)"
  "length (previous (lower node v x st)) = length (previous st)"
  by (simp_all add: lower_def)

lemma relax_invD:
  assumes "relax_inv hs n s goal node c handled st"
  shows "length (distances st) = n" "length (previous st) = n" "unat s < n" "unat node < n"
    and "path_cost_ok c" "dist_of st node = c" "expanded n st node" "dist_of st s = f_zero"
    and "\<And>u. expanded n st u \<Longrightarrow> dist_of st u \<le> c"
    and "\<And>u. unat u < n \<Longrightarrow> path_cost_ok (dist_of st u)"
    and "\<And>x. x \<in> set (heap st) \<Longrightarrow> dist_of st (ss_node x) \<le> ss_cost x \<and> c \<le> ss_cost x"
    and "\<And>u. unat u < n \<Longrightarrow> dist_of st u \<noteq> f_inf \<Longrightarrow> chained hs n s st u"
    and "\<not> expanded n st goal"
  using assms unfolding relax_inv_def search_inv_def frontier_def
  by (simp_all add: expanded_def) auto

lemma relax_target:
  assumes "hops_ok hs n" "relax_inv hs n s goal node c handled st" "(v, w) \<in> set (hs node)"
    and "f_lt (fadd c w) (dist_of st v)"
  shows "unat v < n" "path_cost_ok (fadd c w)" "c \<le> fadd c w" "fadd c w < dist_of st v"
    and "fadd c w \<noteq> f_inf" "v \<noteq> s" "\<not> expanded n st v"
proof -
  note d = relax_invD [OF assms(2)]
  show v: "unat v < n" and ok: "path_cost_ok (fadd c w)" and le: "c \<le> fadd c w"
    using hops_okD [OF assms(1) d(4) assms(3)] d(5) by (auto simp: fadd_increases)
  show less: "fadd c w < dist_of st v" using assms(4) ok d(10) [OF v] by (simp add: f_lt_nonneg)
  show "fadd c w \<noteq> f_inf" using less fnonneg_le_inf [of "dist_of st v"] d(10) [OF v] by auto
  show "v \<noteq> s" using less fc.zero_le [OF ok] d(8) by auto
  show "\<not> expanded n st v" using less le d(9) [of v] by auto
qed

lemma expanded_lower:
  assumes "length (distances st) = n" "unat v < n" "\<not> expanded n st v"
  shows "expanded n (lower node v x st) u = expanded n st u"
  using assms by (cases "u = v") (auto simp: expanded_def dist_lower)

lemma chained_lower_other:
  assumes "hops_ok hs n" "relax_inv hs n s goal node c handled st" "(v, w) \<in> set (hs node)"
    and "f_lt (fadd c w) (dist_of st v)" "u \<noteq> v" "chained hs n s st u"
  shows "chained hs n s (lower node v (fadd c w) st) u"
proof -
  note t = relax_target [OF assms(1-4)] and d = relax_invD [OF assms(2)]
  obtain p where p: "pchain (previous st) s p u" "costed_path hs s p u (dist_of st u)"
    "distinct p" "\<forall>x \<in> set (butlast p). expanded n st x"
    using assms(6) by (auto simp: chained_def)
  have "v \<notin> set p"
  proof
    assume "v \<in> set p"
    moreover have "set p = insert (last p) (set (butlast p))"
      using pchain_last [OF p(1)] by (metis append_butlast_last_id list.set(2) rotate1.simps(2) set_rotate1)
    ultimately show False using p(4) t(7) assms(5) pchain_last [OF p(1)] by auto
  qed
  then have "pchain (previous (lower node v (fadd c w) st)) s p u"
    using p(1) d(2) t(1) by (auto intro: pchain_cong simp: previous_lower)
  then show ?thesis
    using p assms(5) d(1) t(1,7) by (auto simp: chained_def dist_lower expanded_lower)
qed

lemma chained_lower_self:
  assumes "hops_ok hs n" "relax_inv hs n s goal node c handled st" "(v, w) \<in> set (hs node)"
    and "f_lt (fadd c w) (dist_of st v)"
  shows "chained hs n s (lower node v (fadd c w) st) v"
proof -
  note t = relax_target [OF assms] and d = relax_invD [OF assms(2)]
  let ?st = "lower node v (fadd c w) st"
  have nv: "node \<noteq> v" using d(7) t(7) by auto
  have "chained hs n s st node" using d(4,6,7,12) by (auto simp: expanded_def)
  then have "chained hs n s ?st node" by (rule chained_lower_other [OF assms nv])
  then obtain p where p: "pchain (previous ?st) s p node" "costed_path hs s p node (dist_of ?st node)"
    "distinct p" "\<forall>x \<in> set (butlast p). expanded n ?st x"
    by (auto simp: chained_def)
  have ex: "expanded n ?st u = expanded n st u" for u using d(1) t(1,7) by (rule expanded_lower)
  have p_ex: "\<forall>x \<in> set p. expanded n ?st x"
    using p(4) pchain_last [OF p(1)] d(7) ex
    by (metis append_butlast_last_id rotate1.simps(2) set_ConsD set_rotate1)
  have "pchain (previous ?st) s (p @ [v]) v"
    using p(1) t(1,6) d(2) by (auto intro!: pc_step simp: previous_lower)
  moreover have "costed_path hs s (p @ [v]) v (dist_of ?st v)"
    using p(2) nv d(1,6) t(1) assms(3) by (auto simp: dist_lower intro: cp_hop)
  moreover have "distinct (p @ [v])" using p(3) p_ex ex t(7) by auto
  ultimately show ?thesis using p_ex by (auto simp: chained_def)
qed

lemma search_inv_lower:
  assumes "hops_ok hs n" "relax_inv hs n s goal node c handled st" "(v, w) \<in> set (hs node)"
    and "f_lt (fadd c w) (dist_of st v)"
  shows "search_inv hs n s goal (lower node v (fadd c w) st)"
proof -
  note t = relax_target [OF assms] and d = relax_invD [OF assms(2)]
  let ?st = "lower node v (fadd c w) st"
  have inv: "search_inv hs n s goal st" using assms(2) by (simp add: relax_inv_def)
  have dl: "dist_of ?st u \<le> dist_of st u" for u using t(1,4) d(1) by (simp add: dist_lower less_imp_le)
  have "SearchState v (fadd c w) \<notin> set (heap st)"
    using d(11) [of "SearchState v (fadd c w)"] t(4) by auto
  moreover have "chained hs n s ?st u" if "unat u < n" "dist_of ?st u \<noteq> f_inf" for u
    using that chained_lower_self [OF assms] chained_lower_other [OF assms, of u] d(1,12) t(1)
    by (cases "u = v") (auto simp: dist_lower)
  moreover have "\<not> expanded n ?st goal" using d(13) expanded_lower [OF d(1) t(1) t(7)] by simp
  moreover have "dist_of ?st (ss_node x) \<le> ss_cost x" if "x \<in> set (heap ?st)" for x
  proof (cases "x = SearchState v (fadd c w)")
    case True
    then show ?thesis using d(1) t(1) by (simp add: dist_lower)
  next
    case False
    then have "x \<in> set (heap st)" using that by simp
    then show ?thesis using d(11) order_trans [OF dl] by blast
  qed
  ultimately show ?thesis using inv t(1,2,5,6) d(1,2)
    unfolding search_inv_def by (simp add: dist_lower)
qed

lemma relax_inv_hop:
  assumes "hops_ok hs n" "relax_inv hs n s goal node c handled st" "h \<in> set (hs node)"
  shows "relax_inv hs n s goal node c (insert h handled) (relax_hop node c h st)"
proof -
  obtain v w where h: "h = (v, w)" by (cases h)
  note d = relax_invD [OF assms(2)]
  have vw: "(v, w) \<in> set (hs node)" using assms(3) h by simp
  note hok = hops_okD [OF assms(1) d(4) vw]
  show ?thesis
  proof (cases "f_lt (fadd c w) (dist_of st v)")
    case True
    note t = relax_target [OF assms(1,2) vw True]
    let ?st = "lower node v (fadd c w) st"
    have ex: "expanded n ?st u = expanded n st u" for u using d(1) t(1,7) by (rule expanded_lower)
    have dl: "dist_of ?st u \<le> dist_of st u" for u using t(1,4) d(1) by (simp add: dist_lower less_imp_le)
    have same: "dist_of ?st u = dist_of st u" if "expanded n st u" for u
      using that t(1,7) d(1) by (auto simp: dist_lower)
    have cl: "closed_at hs ?st u" if u: "expanded n st u" "u \<noteq> node" for u
    proof -
      have "closed_at hs st u" using u assms(2) by (simp add: relax_inv_def)
      then have "dist_of st v' \<le> fadd (dist_of ?st u) w'" if "(v', w') \<in> set (hs u)" for v' w'
        using that same [OF u(1)] by (auto simp: closed_at_def)
      then show ?thesis using order_trans [OF dl] by (auto simp: closed_at_def)
    qed
    have hd: "dist_of ?st v' \<le> fadd c w'" if "(v', w') \<in> insert h handled" for v' w'
    proof (cases "(v', w') = h")
      case True
      then show ?thesis using d(1) t(1) h by (simp add: dist_lower)
    next
      case False
      then have "dist_of st v' \<le> fadd c w'" using that assms(2) by (auto simp: relax_inv_def)
      then show ?thesis by (rule order_trans [OF dl])
    qed
    have "frontier n ?st c" using assms(2) ex same by (simp add: relax_inv_def frontier_def)
    moreover have "\<forall>x \<in> set (heap ?st). c \<le> ss_cost x" using d(11) t(3) by simp
    moreover have "relax_hop node c h st = ?st" using True by (simp add: h relax_hop_lower)
    ultimately show ?thesis
      using search_inv_lower [OF assms(1,2) vw True] ex [of node] same [OF d(7)] d(6,7) cl ex hd
      unfolding relax_inv_def by auto
  next
    case False
    then have "dist_of st v \<le> fadd c w"
      using hok d(5) d(10) [of v] by (simp add: f_lt_nonneg not_less)
    then show ?thesis using assms(2) False by (simp add: relax_inv_def h relax_hop_lower)
  qed
qed

lemma relax_inv_fold:
  assumes "hops_ok hs n" "relax_inv hs n s goal node c handled st" "set es \<subseteq> set (hs node)"
  shows "relax_inv hs n s goal node c (handled \<union> set es) (fold (relax_hop node c) es st)"
  using assms(2,3)
proof (induction es arbitrary: handled st)
  case (Cons h es)
  then show ?case using relax_inv_hop [OF assms(1) Cons.prems(1), of h] by fastforce
qed simp

lemma expanded_fold:
  assumes "hops_ok hs n" "relax_inv hs n s goal node c handled st" "set es \<subseteq> set (hs node)"
  shows "expanded n (fold (relax_hop node c) es st) u = expanded n st u"
  using assms(2,3)
proof (induction es arbitrary: handled st)
  case (Cons h es)
  obtain v w where h: "h = (v, w)" by (cases h)
  have "expanded n (relax_hop node c h st) u = expanded n st u"
    using relax_target [OF assms(1) Cons.prems(1), of v w] Cons.prems(2) relax_invD(1) [OF Cons.prems(1)]
    by (auto simp: h relax_hop_lower expanded_lower)
  then show ?case
    using Cons.IH [OF relax_inv_hop [OF assms(1) Cons.prems(1)]] Cons.prems(2) by simp
qed simp

lemma length_heap_fold: "length (heap (fold (relax_hop node c) es st)) \<le> length (heap st) + length es"
proof (induction es arbitrary: st)
  case (Cons h es)
  have "length (heap (relax_hop node c h st)) \<le> Suc (length (heap st))"
    by (cases h) (simp add: relax_hop_lower)
  then show ?case using Cons.IH [of "relax_hop node c h st"] by simp
qed simp

subsection \<open>Popping\<close>

lemma loop_inv_pop:
  assumes "loop_inv hs n s goal st" "heap_pop (heap st) = Some (SearchState node c, rest)"
  shows "unat node < n" "path_cost_ok c" "c \<noteq> f_inf" "dist_of st node \<le> c"
    and "rest = remove1 (SearchState node c) (heap st)" "distinct (heap st)"
    and "SearchState node c \<in> set (heap st)"
    and "\<And>x. x \<in> set (heap st) \<Longrightarrow> c \<le> ss_cost x"
    and "\<And>u. expanded n st u \<Longrightarrow> dist_of st u \<le> c"
proof -
  have inv: "search_inv hs n s goal st" and fr: "\<forall>x \<in> set (heap st). frontier n st (ss_cost x)"
    using assms(1) by (simp_all add: loop_inv_def)
  have nn: "\<forall>x \<in> set (heap st). fnonneg (ss_cost x)" using inv by (simp add: search_inv_def)
  note pop = heap_pop_least [OF assms(2) nn]
  show "rest = remove1 (SearchState node c) (heap st)" "SearchState node c \<in> set (heap st)"
    and "\<And>x. x \<in> set (heap st) \<Longrightarrow> c \<le> ss_cost x"
    using pop by auto
  show "distinct (heap st)" using inv by (simp add: search_inv_def)
  have "\<forall>x \<in> set (heap st). unat (ss_node x) < n \<and> path_cost_ok (ss_cost x) \<and> ss_cost x \<noteq> f_inf
          \<and> dist_of st (ss_node x) \<le> ss_cost x"
    using inv by (simp add: search_inv_def)
  from bspec [OF this pop(1)]
  show "unat node < n" "path_cost_ok c" "c \<noteq> f_inf" "dist_of st node \<le> c" by simp_all
  show "\<And>u. expanded n st u \<Longrightarrow> dist_of st u \<le> c"
    using fr pop(1) by (auto simp: frontier_def)
qed

lemma expanded_drop:
  assumes "SearchState node c \<in> set (heap st)" "distinct (heap st)" "unat node < n" "c \<noteq> f_inf"
  shows "expanded n (st\<lparr>heap := remove1 (SearchState node c) (heap st)\<rparr>) u
    \<longleftrightarrow> expanded n st u \<or> u = node \<and> dist_of st node = c"
  using assms by (auto simp: expanded_def)

lemma search_inv_drop:
  assumes "loop_inv hs n s goal st" "heap_pop (heap st) = Some (SearchState node c, rest)" "node \<noteq> goal"
  shows "search_inv hs n s goal (st\<lparr>heap := rest\<rparr>)"
proof -
  note pop = loop_inv_pop [OF assms(1,2)]
  let ?st = "st\<lparr>heap := rest\<rparr>"
  have inv: "search_inv hs n s goal st" using assms(1) by (simp add: loop_inv_def)
  have ex: "expanded n ?st u \<longleftrightarrow> expanded n st u \<or> u = node \<and> dist_of st node = c" for u
    using expanded_drop [OF pop(7,6,1,3)] by (simp add: pop(5))
  have "chained hs n s ?st v" if "chained hs n s st v" for v
    using that ex by (fastforce simp: chained_def)
  with inv ex assms(3) show ?thesis
    by (auto simp: search_inv_def pop(5) dest: notin_set_remove1)
qed

lemma stale_loop_inv:
  assumes "loop_inv hs n s goal st" "heap_pop (heap st) = Some (SearchState node c, rest)"
    and "node \<noteq> goal" "f_gt c (dist_of st node)"
  shows "loop_inv hs n s goal (st\<lparr>heap := rest\<rparr>)"
    and "expanded n (st\<lparr>heap := rest\<rparr>) u = expanded n st u"
proof -
  note pop = loop_inv_pop [OF assms(1,2)]
  have "dist_of st node \<noteq> c" using assms(4) by (auto simp: f_lt_def)
  then have ex: "expanded n (st\<lparr>heap := rest\<rparr>) u = expanded n st u" for u
    using expanded_drop [OF pop(7,6,1,3)] by (simp add: pop(5))
  then show "expanded n (st\<lparr>heap := rest\<rparr>) u = expanded n st u" .
  show "loop_inv hs n s goal (st\<lparr>heap := rest\<rparr>)"
    using assms(1) search_inv_drop [OF assms(1-3)] ex
    by (auto simp: loop_inv_def closed_at_def frontier_def pop(5) dest: notin_set_remove1)
qed

lemma fresh_relax_inv:
  assumes "loop_inv hs n s goal st" "heap_pop (heap st) = Some (SearchState node c, rest)"
    and "node \<noteq> goal" "\<not> f_gt c (dist_of st node)"
  shows "relax_inv hs n s goal node c {} (st\<lparr>heap := rest\<rparr>)" "\<not> expanded n st node"
    and "expanded n (st\<lparr>heap := rest\<rparr>) u \<longleftrightarrow> expanded n st u \<or> u = node"
proof -
  note pop = loop_inv_pop [OF assms(1,2)]
  have "path_cost_ok (dist_of st node)"
    using assms(1) pop(1) by (simp add: loop_inv_def search_inv_def)
  then have d: "dist_of st node = c"
    using assms(4) pop(2,4) by (simp add: f_lt_nonneg)
  then have ex: "expanded n (st\<lparr>heap := rest\<rparr>) u \<longleftrightarrow> expanded n st u \<or> u = node" for u
    using expanded_drop [OF pop(7,6,1,3)] by (simp add: pop(5))
  then show "expanded n (st\<lparr>heap := rest\<rparr>) u \<longleftrightarrow> expanded n st u \<or> u = node" .
  show "\<not> expanded n st node" using pop(7) d by (simp add: expanded_def)
  show "relax_inv hs n s goal node c {} (st\<lparr>heap := rest\<rparr>)"
    using assms(1) search_inv_drop [OF assms(1-3)] ex d pop(8,9)
    by (auto simp: relax_inv_def loop_inv_def closed_at_def frontier_def pop(5) dest: notin_set_remove1)
qed

lemma relaxed_loop_inv:
  assumes "hops_ok hs n" "relax_inv hs n s goal node c {} st"
  shows "loop_inv hs n s goal (fold (relax_hop node c) (hs node) st)"
proof -
  have r: "relax_inv hs n s goal node c (set (hs node)) (fold (relax_hop node c) (hs node) st)"
    using relax_inv_fold [OF assms, of "hs node"] by simp
  note d = relax_invD [OF r]
  let ?st = "fold (relax_hop node c) (hs node) st"
  have "closed_at hs ?st u" if "expanded n ?st u" for u
    using r that d(6) by (cases "u = node") (auto simp: relax_inv_def closed_at_def)
  moreover have "frontier n ?st (ss_cost x)" if "x \<in> set (heap ?st)" for x
    using d(9,11) that order_trans by (fastforce simp: frontier_def)
  ultimately show ?thesis using r by (simp add: loop_inv_def relax_inv_def)
qed

section \<open>Termination\<close>

definition search_measure :: "(u32 \<Rightarrow> (u32 \<times> f64) list) \<Rightarrow> nat \<Rightarrow> search \<Rightarrow> nat" where
  "search_measure hs n st =
     length (heap st) + (\<Sum>u \<in> {u. unat u < n \<and> \<not> expanded n st u}. length (hs u))"

lemma length_rest:
  assumes "loop_inv hs n s goal st" "heap_pop (heap st) = Some (SearchState node c, rest)"
  shows "length rest < length (heap st)"
  using loop_inv_pop(5,7) [OF assms] length_pos_if_in_set [of "SearchState node c" "heap st"]
  by (simp add: length_remove1)

lemma measure_stale:
  assumes "loop_inv hs n s goal st" "heap_pop (heap st) = Some (SearchState node c, rest)"
    and "node \<noteq> goal" "f_gt c (dist_of st node)"
  shows "search_measure hs n (st\<lparr>heap := rest\<rparr>) < search_measure hs n st"
  using stale_loop_inv(2) [OF assms] length_rest [OF assms(1,2)] by (simp add: search_measure_def)

lemma measure_fresh:
  assumes "hops_ok hs n" "loop_inv hs n s goal st"
    and "heap_pop (heap st) = Some (SearchState node c, rest)"
    and "node \<noteq> goal" "\<not> f_gt c (dist_of st node)"
  shows "search_measure hs n (fold (relax_hop node c) (hs node) (st\<lparr>heap := rest\<rparr>)) < search_measure hs n st"
proof -
  note f = fresh_relax_inv [OF assms(2-5)] and pop = loop_inv_pop [OF assms(2,3)]
  let ?st = "fold (relax_hop node c) (hs node) (st\<lparr>heap := rest\<rparr>)"
  let ?A = "{u. unat u < n \<and> \<not> expanded n st u}"
  have ex: "expanded n ?st u \<longleftrightarrow> expanded n st u \<or> u = node" for u
    using expanded_fold [OF assms(1) f(1)] f(3) by simp
  have "{u. unat u < n \<and> \<not> expanded n ?st u} = ?A - {node}" using ex by auto
  moreover have "node \<in> ?A" using pop(1) f(2) by simp
  moreover have "length (heap ?st) \<le> length rest + length (hs node)"
    using length_heap_fold [of node c "hs node" "st\<lparr>heap := rest\<rparr>"] by simp
  moreover have "length rest < length (heap st)"
    using assms(2,3) by (rule length_rest)
  ultimately show ?thesis
    by (simp add: search_measure_def sum.remove [of ?A node])
qed

section \<open>Completeness\<close>

text \<open>
  Every path is covered: its cost is infinite, its end is expanded at no more than its cost, or
  a pending entry is no dearer than it.
\<close>

lemma path_covered:
  assumes "hops_ok hs n" "loop_inv hs n s goal st" "costed_path hs s p v d"
  shows "d = f_inf \<or> expanded n st v \<and> dist_of st v \<le> d \<or> (\<exists>x \<in> set (heap st). ss_cost x \<le> d)"
  using assms(3)
proof (induction rule: costed_path.induct)
  have inv: "search_inv hs n s goal st" using assms(2) by (simp add: loop_inv_def)
  case cp_start
  show ?case
  proof (cases "SearchState s f_zero \<in> set (heap st)")
    case True
    then show ?thesis by force
  next
    case False
    then have "expanded n st s" using inv by (simp add: expanded_def search_inv_def)
    then show ?thesis using inv by (simp add: search_inv_def)
  qed
next
  have inv: "search_inv hs n s goal st" using assms(2) by (simp add: loop_inv_def)
  case (cp_hop p u c v w)
  have sn: "unat s < n" using inv by (simp add: search_inv_def)
  have u: "unat u < n" "path_cost_ok c" using costed_path_ok [OF cp_hop.hyps(1) assms(1) sn] by auto
  have vw: "unat v < n" "fnonneg w" using hops_okD [OF assms(1) u(1) cp_hop.hyps(2)] by auto
  have le: "c \<le> fadd c w" using u vw by (simp add: fadd_increases)
  have ok: "path_cost_ok (fadd c w)" using u vw by (auto simp: fc.cost_add)
  consider (inf) "fadd c w = f_inf" | (heap) x where "x \<in> set (heap st)" "ss_cost x \<le> c"
    | (dear) "fadd c w \<noteq> f_inf" "expanded n st u" "dist_of st u \<le> c"
    using cp_hop.IH le fnonneg_le_inf [of "fadd c w"] ok by (metis order.antisym)
  then show ?case
  proof cases
    case inf
    then show ?thesis by simp
  next
    case heap
    then show ?thesis using le order_trans by blast
  next
    case dear
    have du: "path_cost_ok (dist_of st u)" using inv u by (simp add: search_inv_def)
    have "dist_of st v \<le> fadd (dist_of st u) w"
      using assms(2) dear(2) cp_hop.hyps(2) by (auto simp: loop_inv_def closed_at_def)
    also have "\<dots> \<le> fadd c w" using fc.add_mono [OF du u(2) vw(2) dear(3)] .
    finally have dv: "dist_of st v \<le> fadd c w" .
    then have "dist_of st v \<noteq> f_inf"
      using dear(1) fnonneg_le_inf [of "fadd c w"] ok by (metis order.antisym)
    then show ?thesis using dv vw(1) by (force simp: expanded_def)
  qed
qed

text \<open>What the search returns.\<close>

definition optimal_route ::
  "(u32 \<Rightarrow> (u32 \<times> f64) list) \<Rightarrow> node_id list \<Rightarrow> u32 \<Rightarrow> u32 \<Rightarrow> route option \<Rightarrow> bool" where
  "optimal_route hs names s goal r \<longleftrightarrow>
     (case r of
        None \<Rightarrow> \<forall>p d. costed_path hs s p goal d \<longrightarrow> d = f_inf
      | Some rt \<Rightarrow> \<not> cache_hit rt \<and> total_cost rt \<noteq> f_inf
          \<and> (\<exists>p. costed_path hs s p goal (total_cost rt) \<and> distinct p
                \<and> nodes rt = map (\<lambda>u. names ! unat u) p)
          \<and> (\<forall>p d. costed_path hs s p goal d \<longrightarrow> total_cost rt \<le> d))"

lemma goal_popped:
  assumes "hops_ok hs n" "loop_inv hs n s goal st" "length names = n" "n < 2 ^ 32 - 1"
    and "heap_pop (heap st) = Some (SearchState goal c, rest)"
  shows "\<exists>p. walk_back (Suc n) (previous st) names s goal = Some (rev (map (\<lambda>u. names ! unat u) p))
    \<and> distinct p \<and> costed_path hs s p goal c \<and> c \<noteq> f_inf \<and> (\<forall>p d. costed_path hs s p goal d \<longrightarrow> c \<le> d)"
proof -
  have inv: "search_inv hs n s goal st" using assms(2) by (simp add: loop_inv_def)
  note pop = loop_inv_pop [OF assms(2,5)]
  have "\<not> expanded n st goal" using inv by (simp add: search_inv_def)
  have dc: "dist_of st goal \<noteq> f_inf"
    using pop(2,3,4) fnonneg_le_inf [of c] by (metis order.antisym)
  then have "SearchState goal (dist_of st goal) \<in> set (heap st)"
    using \<open>\<not> expanded n st goal\<close> pop(1) by (simp add: expanded_def)
  then have d: "dist_of st goal = c" using pop(4) pop(8) by force
  obtain p where p: "pchain (previous st) s p goal" "costed_path hs s p goal c" "distinct p"
    "\<forall>u \<in> set (butlast p). expanded n st u"
    using inv pop(1) dc d by (auto simp: search_inv_def chained_def)
  have sub: "\<forall>u \<in> set p. unat u < n"
    using p(4) pop(1) pchain_last [OF p(1)]
    by (metis append_butlast_last_id expanded_def rotate1.simps(2) set_ConsD set_rotate1)
  have "length p = card (unat ` set p)"
    using p(3) by (simp add: distinct_card card_image inj_on_def word_unat_eq_iff)
  also have "\<dots> \<le> card {..<n}" using sub by (intro card_mono) auto
  finally have len: "length p \<le> Suc n" by simp
  have "u \<noteq> u32_max" if "u \<in> set p" for u
    using sub that assms(4) unat_u32_max by fastforce
  then have "walk_back (Suc n) (previous st) names s goal = Some (rev (map (\<lambda>u. names ! unat u) p))"
    using walk_back_pchain [OF p(1) _ len] by blast
  moreover have "c \<le> d'" if "costed_path hs s q goal d'" for q d'
    using path_covered [OF assms(1,2) that] \<open>\<not> expanded n st goal\<close> pop(2,8) fnonneg_le_inf [of c]
    by (auto intro: order_trans)
  ultimately show ?thesis using p pop(3) by blast
qed

section \<open>The loop returns an optimal route\<close>

lemma search_loop_Suc:
  "search_loop (Suc k) health m g s goal st =
     (case heap_pop (heap st) of
        None \<Rightarrow> Some None
      | Some (SearchState node c, rest) \<Rightarrow>
          if node = goal
          then map_option (\<lambda>path. Some \<lparr>nodes = rev path, total_cost = c, cache_hit = False\<rparr>)
                 (walk_back (Suc (length (id_to_node g))) (previous st) (id_to_node g) s goal)
          else if f_gt c (dist_of st node)
          then search_loop k health m g s goal (st\<lparr>heap := rest\<rparr>)
          else search_loop k health m g s goal
                 (fold (relax_hop node c) (hops health m g node) (st\<lparr>heap := rest\<rparr>)))"
  by (simp add: Let_def fold_relax_hops split: option.split search_state.split)

declare search_loop.simps(2) [simp del]

lemma search_loop_optimal:
  assumes "hops_ok (hops health m g) n" "length (id_to_node g) = n" "n < 2 ^ 32 - 1"
  shows "loop_inv (hops health m g) n s goal st \<Longrightarrow> search_measure (hops health m g) n st < k
    \<Longrightarrow> \<exists>r. search_loop k health m g s goal st = Some r
          \<and> optimal_route (hops health m g) (id_to_node g) s goal r"
proof (induction k arbitrary: st)
  case (Suc k)
  let ?hs = "hops health m g"
  note inv = Suc.prems(1)
  show ?case
  proof (cases "heap_pop (heap st)")
    case None
    have "d = f_inf" if "costed_path ?hs s p goal d" for p d
      using path_covered [OF assms(1) inv that] None inv
      by (auto simp: heap_pop_None loop_inv_def search_inv_def)
    then show ?thesis using None by (auto simp: search_loop_Suc optimal_route_def)
  next
    case (Some pr)
    then obtain node c rest where pop: "heap_pop (heap st) = Some (SearchState node c, rest)"
      by (metis prod.exhaust search_state.exhaust)
    consider (goal) "node = goal" | (stale) "node \<noteq> goal" "f_gt c (dist_of st node)"
      | (fresh) "node \<noteq> goal" "\<not> f_gt c (dist_of st node)" by blast
    then show ?thesis
    proof cases
      case goal
      then show ?thesis
        using goal_popped [OF assms(1) inv assms(2,3)] pop assms(2)
        by (fastforce simp: search_loop_Suc optimal_route_def)
    next
      case stale
      then show ?thesis
        using Suc.IH [OF stale_loop_inv(1) [OF inv pop stale]] measure_stale [OF inv pop stale]
          Suc.prems(2) pop by (simp add: search_loop_Suc)
    next
      case fresh
      then show ?thesis
        using Suc.IH [OF relaxed_loop_inv [OF assms(1) fresh_relax_inv(1) [OF inv pop fresh]]]
          measure_fresh [OF assms(1) inv pop fresh] Suc.prems(2) pop by (simp add: search_loop_Suc)
    qed
  qed
qed simp

section \<open>The initial state and the fuel\<close>

lemma init_dist:
  "unat s < length (id_to_node g) \<Longrightarrow> unat v < length (id_to_node g)
   \<Longrightarrow> dist_of (init_search g s) v = (if v = s then f_zero else f_inf)"
  by (simp add: init_search_def Let_def nth_update_unat)

lemma init_loop_inv:
  assumes "unat s < length (id_to_node g)" "unat goal < length (id_to_node g)" "s \<noteq> goal"
  shows "loop_inv hs (length (id_to_node g)) s goal (init_search g s)"
proof -
  let ?n = "length (id_to_node g)" and ?st = "init_search g s"
  have hp: "heap ?st = [SearchState s f_zero]" by (simp add: init_search_def Let_def)
  have ex: "\<not> expanded ?n ?st v" for v using assms(1) by (auto simp: expanded_def init_dist hp)
  have "chained hs ?n s ?st v" if "unat v < ?n" "dist_of ?st v \<noteq> f_inf" for v
  proof -
    have "v = s" using that assms(1) by (auto simp: init_dist split: if_splits)
    then show ?thesis using assms(1) by (auto simp: chained_def init_dist intro: pc_start cp_start)
  qed
  moreover have "path_cost_ok (dist_of ?st v)" if "unat v < ?n" for v
    using that assms(1) fc.cost_zero by (simp add: init_dist)
  moreover have "length (distances ?st) = ?n" "length (previous ?st) = ?n"
    by (simp_all add: init_search_def Let_def)
  ultimately have "search_inv hs ?n s goal ?st"
    using assms ex fc.cost_zero by (auto simp: search_inv_def hp init_dist)
  then show ?thesis using ex by (simp add: loop_inv_def frontier_def)
qed

lemma length_hops: "length (hops health m g u) \<le> length (adjacency g ! unat u)"
  unfolding hops_def
proof (induction "adjacency g ! unat u" rule: list.induct)
qed (auto simp: List.map_filter_def intro: order_trans [OF length_filter_le])

lemma hops_sum:
  assumes "length (adjacency g) = n"
  shows "(\<Sum>u \<in> {u. unat u < n \<and> P u}. length (hops health m g u)) \<le> sum_list (map length (adjacency g))"
proof -
  let ?U = "{u :: u32. unat u < n \<and> P u}"
  have "(\<Sum>u \<in> ?U. length (hops health m g u)) \<le> (\<Sum>u \<in> ?U. length (adjacency g ! unat u))"
    by (intro sum_mono length_hops)
  also have "\<dots> = (\<Sum>i \<in> unat ` ?U. length (adjacency g ! i))"
    by (simp add: sum.reindex inj_on_def word_unat_eq_iff)
  also have "\<dots> \<le> (\<Sum>i \<in> {0..<n}. length (adjacency g ! i))" by (intro sum_mono2) auto
  also have "\<dots> = sum_list (map length (adjacency g))"
    using assms by (simp add: sum_list_sum_nth)
  finally show ?thesis .
qed

lemma init_measure:
  assumes "length (adjacency g) = n"
  shows "search_measure (hops health m g) n (init_search g s) < search_fuel g"
  using hops_sum [OF assms, where health = health and m = m and P = "\<lambda>u. \<not> expanded n (init_search g s) u"]
  by (simp add: search_measure_def search_fuel_def init_search_def Let_def)

end
