(* ===== verification/RouteSearch.thy ===== *)
theory RouteSearch
  imports Dijkstra
begin

text \<open>
  The shortest-path search on well-formed graphs: the preconditions of the abstract search
  (theory \<open>Dijkstra\<close>) hold for every graph that edges build, for every cost model and for
  every table of reachable health trackers; from them the search terminates, returns an optimal
  route, and never routes through a node whose breaker is open.
\<close>

section \<open>Hops of a well-formed graph\<close>

definition health_ok :: "(node_id, health_tracker) hmap \<Rightarrow> bool" where
  "health_ok health \<longleftrightarrow> (\<forall>t \<in> snd ` set health. ht_inv t)"

lemma health_ok_lookup: "health_ok health \<Longrightarrow> map_of health n = Some t \<Longrightarrow> ht_inv t"
  by (force simp: health_ok_def dest: map_of_SomeD)

lemma health_penalty_nonneg: "health_ok health \<Longrightarrow> fnonneg (health_penalty health g v)"
  by (auto simp: health_penalty_def ht_inv_def intro: penalty_nonneg
      dest!: health_ok_lookup split: option.split)

definition wf_edges :: "tool_graph \<Rightarrow> bool" where
  "wf_edges g \<longleftrightarrow> length (adjacency g) = length (id_to_node g)
     \<and> (\<forall>es \<in> set (adjacency g). \<forall>e \<in> set es. unat (ie_to e) < length (id_to_node g) \<and> wf_ie e)"

lemma wf_graph_edges: "wf_graph g \<Longrightarrow> wf_edges g"
  by (simp add: wf_graph_def wf_edges_def)

lemma edge_cost_SomeD:
  assumes "edge_cost health m g e = Some w"
  shows "ie_enabled e" "ie_is_valid e" "\<not> is_infinite w" "\<not> is_nan w"
    and "w = fadd (ie_weight m e) (health_penalty health g (ie_to e))"
  using assms by (auto simp: edge_cost_def Let_def split: if_splits)

lemma ie_weight_usable:
  assumes "wf_cost_model m" "wf_ie e" "edge_cost health m g e = Some w"
  shows "fge0 (ie_weight m e)"
proof -
  note e = edge_cost_SomeD [OF assms(3)]
  have "\<not> isl (cost_model_validate m)"
  proof
    assume "isl (cost_model_validate m)"
    then have "ie_weight m e = f_inf" by (simp add: ie_weight_def)
    then show False using e(3,4,5) by (cases "health_penalty health g (ie_to e)") (auto simp: f_nan_def split: if_splits)
  qed
  then have "cost_model_validate m = Inr ()" by (cases "cost_model_validate m") auto
  then show ?thesis using ie_weight_bounds [OF assms(1) _ assms(2) e(2)] by simp
qed

lemma hops_edge:
  assumes "(v, w) \<in> set (hops health m g u)"
  obtains e where "e \<in> set (adjacency g ! unat u)" "ie_to e = v" "edge_cost health m g e = Some w"
  using assms by (auto simp: hops_def List.map_filter_def)

lemma hops_ok_graph:
  assumes "wf_edges g" "wf_cost_model m" "health_ok health"
  shows "hops_ok (hops health m g) (length (id_to_node g))"
  unfolding hops_ok_def
proof (intro allI impI)
  fix u v w
  assume u: "unat u < length (id_to_node g)" and "(v, w) \<in> set (hops health m g u)"
  then obtain e where e: "e \<in> set (adjacency g ! unat u)" "ie_to e = v" "edge_cost health m g e = Some w"
    by (elim hops_edge)
  have "adjacency g ! unat u \<in> set (adjacency g)" using assms(1) u by (simp add: wf_edges_def)
  then have "unat v < length (id_to_node g)" "wf_ie e" using assms(1) e by (auto simp: wf_edges_def)
  then show "unat v < length (id_to_node g) \<and> fnonneg w"
    using ie_weight_usable [OF assms(2) _ e(3)] health_penalty_nonneg [OF assms(3)]
      edge_cost_SomeD(5) [OF e(3)] by (simp add: fnonneg_fadd_right)
qed

section \<open>Building graphs\<close>

lemma unat_of_nat_u32: "n < 2 ^ 32 \<Longrightarrow> unat (of_nat n :: u32) = n"
  by (simp add: unat_of_nat)

lemma wf_empty_graph: "wf_graph empty_graph"
  by (simp add: wf_graph_def empty_graph_def)

lemma wf_graph_lookup:
  "wf_graph g \<Longrightarrow> map_of (node_to_id g) name = Some i
     \<longleftrightarrow> unat i < length (id_to_node g) \<and> id_to_node g ! unat i = name"
  by (simp add: wf_graph_def)

lemma get_or_insert_node_wf:
  assumes "wf_graph g" "length (id_to_node g) + 1 < 2 ^ 32 - 1"
    and "get_or_insert_node name g = (i, g')"
  shows "wf_graph g'" "unat i < length (id_to_node g')" "id_to_node g' ! unat i = name"
    and "length (id_to_node g') \<le> length (id_to_node g) + 1"
    and "\<exists>ns. id_to_node g' = id_to_node g @ ns"
    and "\<And>n j. map_of (node_to_id g) n = Some j \<Longrightarrow> map_of (node_to_id g') n = Some j"
proof -
  let ?l = "length (id_to_node g)"
  have lk: "map_of (node_to_id g) n = Some j \<longleftrightarrow> unat j < ?l \<and> id_to_node g ! unat j = n" for n j
    using assms(1) by (rule wf_graph_lookup)
  have "wf_graph g' \<and> unat i < length (id_to_node g') \<and> id_to_node g' ! unat i = name
    \<and> length (id_to_node g') \<le> length (id_to_node g) + 1 \<and> (\<exists>ns. id_to_node g' = id_to_node g @ ns)
    \<and> (\<forall>n j. map_of (node_to_id g) n = Some j \<longrightarrow> map_of (node_to_id g') n = Some j)"
  proof (cases "map_of (node_to_id g) name")
    case (Some j)
    then have "i = j" "g' = g" using assms(3) by (simp_all add: get_or_insert_node_def)
    then show ?thesis using assms(1) Some lk by simp
  next
    case None
    have ui: "unat (of_nat ?l :: u32) = ?l" using assms(2) by (simp add: unat_of_nat_u32)
    have g': "i = of_nat ?l" "id_to_node g' = id_to_node g @ [name]" "adjacency g' = adjacency g @ [[]]"
      "node_to_id g' = AList.update name i (node_to_id g)"
      using assms(3) None by (auto simp: get_or_insert_node_def Let_def)
    have new: "name \<notin> set (id_to_node g)"
    proof
      assume "name \<in> set (id_to_node g)"
      then obtain k where "k < ?l" "id_to_node g ! k = name" by (auto simp: in_set_conv_nth)
      then have "map_of (node_to_id g) name = Some (of_nat k)"
        using assms(2) lk by (simp add: unat_of_nat_u32)
      then show False using None by simp
    qed
    have "map_of (node_to_id g') n = Some j \<longleftrightarrow> unat j < Suc ?l \<and> (id_to_node g @ [name]) ! unat j = n" for n j
    proof (cases "n = name")
      case True
      then show ?thesis
        using new ui g'(1,4) by (auto simp: map_laws nth_append word_unat_eq_iff in_set_conv_nth)
    next
      case False
      then show ?thesis using lk g'(1,4) ui by (auto simp: map_laws nth_append less_Suc_eq)
    qed
    moreover have "\<forall>es \<in> set (adjacency g'). \<forall>e \<in> set es. unat (ie_to e) < length (id_to_node g') \<and> wf_ie e"
      using assms(1) by (fastforce simp: wf_graph_def g'(2,3))
    ultimately have "wf_graph g'" using assms(1,2) g'(2,3) new by (simp add: wf_graph_def)
    then show ?thesis using g' ui None by (auto simp: map_laws)
  qed
  then show "wf_graph g'" "unat i < length (id_to_node g')" "id_to_node g' ! unat i = name"
    and "length (id_to_node g') \<le> length (id_to_node g) + 1"
    and "\<exists>ns. id_to_node g' = id_to_node g @ ns"
    and "\<And>n j. map_of (node_to_id g) n = Some j \<Longrightarrow> map_of (node_to_id g') n = Some j"
    by blast+
qed

lemma graph_add_edge_wf:
  assumes "wf_graph g" "length (id_to_node g) + 2 < 2 ^ 32 - 1" "wf_edge e"
  shows "wf_graph (graph_add_edge e g)"
proof -
  obtain f g1 where 1: "get_or_insert_node (edge_from e) g = (f, g1)" by (cases "get_or_insert_node (edge_from e) g")
  obtain t g2 where 2: "get_or_insert_node (edge_to e) g1 = (t, g2)" by (cases "get_or_insert_node (edge_to e) g1")
  have l0: "length (id_to_node g) + 1 < 2 ^ 32 - 1" using assms(2) by linarith
  note g1 = get_or_insert_node_wf [OF assms(1) l0 1]
  have l1: "length (id_to_node g1) + 1 < 2 ^ 32 - 1" using assms(2) g1(4) by linarith
  note g2 = get_or_insert_node_wf [OF g1(1) l1 2]
  define ie where "ie = index_edge t e"
  have ie: "unat (ie_to ie) < length (id_to_node g2)" "wf_ie ie"
    using g2(2) assms(3) by (simp_all add: ie_def index_edge_def wf_ie_def wf_edge_def)
  have g3: "graph_add_edge e g
      = g2\<lparr>adjacency := (adjacency g2)[unat f := adjacency g2 ! unat f @ [ie]]\<rparr>"
    using 1 2 by (simp add: graph_add_edge_def Let_def ie_def index_edge_def)
  have "unat f < length (adjacency g2)"
    using g1(2) g2(1,5) by (auto simp: wf_graph_def)
  then have f3: "adjacency g2 ! unat f \<in> set (adjacency g2)" by simp
  have f4: "es \<in> insert (adjacency g2 ! unat f @ [ie]) (set (adjacency g2))"
    if "es \<in> set (adjacency (graph_add_edge e g))" for es
    using that set_update_subset_insert [of "adjacency g2"] unfolding g3 by auto
  have "unat (ie_to x) < length (id_to_node g2) \<and> wf_ie x"
    if "es \<in> set (adjacency (graph_add_edge e g))" "x \<in> set es" for es x
  proof -
    have old: "unat (ie_to y) < length (id_to_node g2) \<and> wf_ie y" if "ys \<in> set (adjacency g2)" "y \<in> set ys" for ys y
      using that g2(1) by (simp add: wf_graph_def)
    show ?thesis using f4 [OF that(1)] ie old f3 that(2) by auto
  qed
  moreover have "id_to_node (graph_add_edge e g) = id_to_node g2" "node_to_id (graph_add_edge e g) = node_to_id g2"
    "length (adjacency (graph_add_edge e g)) = length (adjacency g2)"
    by (simp_all add: g3)
  ultimately show ?thesis using g2(1) by (simp add: wf_graph_def)
qed

section \<open>Fuel\<close>

lemma search_loop_mono:
  "search_loop k health m g s goal st = Some r \<Longrightarrow> k \<le> k' \<Longrightarrow> search_loop k' health m g s goal st = Some r"
proof (induction k arbitrary: k' st)
  case (Suc k)
  then obtain j where "k' = Suc j" "k \<le> j" by (cases k') auto
  then show ?case using Suc.IH [of _ j] Suc.prems(1)
    by (auto simp: search_loop_Suc split: option.splits search_state.splits if_splits)
qed simp

section \<open>What a route consists of\<close>

text \<open>
  \<open>b\<close> may follow \<open>a\<close> on a route: an enabled and valid edge of the graph leads from \<open>a\<close> to \<open>b\<close>,
  and the breaker of \<open>b\<close> is not open.
\<close>

definition usable_hop :: "(node_id, health_tracker) hmap \<Rightarrow> tool_graph \<Rightarrow> node_id \<Rightarrow> node_id \<Rightarrow> bool" where
  "usable_hop health g a b \<longleftrightarrow>
     (\<exists>i e. map_of (node_to_id g) a = Some i \<and> e \<in> set (adjacency g ! unat i)
        \<and> id_to_node g ! unat (ie_to e) = b \<and> ie_enabled e \<and> ie_is_valid e)
     \<and> (\<forall>t. map_of health b = Some t \<longrightarrow> ht_state t \<noteq> Open)"

lemma edge_cost_not_open:
  assumes "wf_cost_model m" "wf_ie e" "edge_cost health m g e = Some w"
    and "map_of health (id_to_node g ! unat (ie_to e)) = Some t"
  shows "ht_state t \<noteq> Open"
proof
  assume "ht_state t = Open"
  then have "health_penalty health g (ie_to e) = f_inf"
    using assms(4) by (simp add: health_penalty_def penalty_open)
  moreover have "fge0 (ie_weight m e)" using assms(1-3) by (rule ie_weight_usable)
  ultimately have "w = f_inf"
    using edge_cost_SomeD(5) [OF assms(3)] by (cases "ie_weight m e") auto
  then show False using edge_cost_SomeD(3) [OF assms(3)] by simp
qed

lemma costed_path_usable:
  assumes "wf_graph g" "wf_cost_model m" "health_ok health"
    and "costed_path (hops health m g) s p v c" "unat s < length (id_to_node g)"
  shows "successively (usable_hop health g) (map (\<lambda>u. id_to_node g ! unat u) p)"
  using assms(4)
proof (induction rule: costed_path.induct)
  case (cp_hop p u c v w)
  note ok = hops_ok_graph [OF wf_graph_edges [OF assms(1)] assms(2,3)]
  have u: "unat u < length (id_to_node g)" using costed_path_ok [OF cp_hop.hyps(1) ok assms(5)] by simp
  obtain e where e: "e \<in> set (adjacency g ! unat u)" "ie_to e = v" "edge_cost health m g e = Some w"
    using cp_hop.hyps(2) by (rule hops_edge)
  have "adjacency g ! unat u \<in> set (adjacency g)" using assms(1) u by (simp add: wf_graph_def)
  then have "wf_ie e" using assms(1) e(1) by (auto simp: wf_graph_def)
  then have "usable_hop health g (id_to_node g ! unat u) (id_to_node g ! unat v)"
    using e edge_cost_SomeD(1,2) [OF e(3)] edge_cost_not_open [OF assms(2) _ e(3)]
      wf_graph_lookup [OF assms(1)] u
    unfolding usable_hop_def by blast
  then show ?case
    using cp_hop.IH costed_path_ends [OF cp_hop.hyps(1)]
    by (simp add: successively_append_iff last_map)
qed simp

lemma costed_path_in:
  "costed_path hs s p v c \<Longrightarrow> hops_ok hs n \<Longrightarrow> unat s < n \<Longrightarrow> \<forall>u \<in> set p. unat u < n"
proof (induction rule: costed_path.induct)
  case (cp_hop p u c v w)
  then show ?case using costed_path_ends [OF cp_hop.hyps(1)] hops_okD [OF cp_hop.prems(1) _ cp_hop.hyps(2)]
    by (metis Un_iff last_in_set set_append set_ConsD list.set(1) empty_iff)
qed simp

section \<open>The search from names\<close>

lemma shortest_path_search:
  assumes "wf_graph g" "wf_cost_model m" "health_ok health"
    and "map_of (node_to_id g) start = Some s" "map_of (node_to_id g) goal = Some t" "start \<noteq> goal"
  shows "optimal_route (hops health m g) (id_to_node g) s t (shortest_path health m g start goal)"
    and "search_fuel g \<le> k \<Longrightarrow>
      search_loop k health m g s t (init_search g s) = Some (shortest_path health m g start goal)"
proof -
  let ?n = "length (id_to_node g)"
  have st: "unat s < ?n" "unat t < ?n" "s \<noteq> t"
    using assms(4-6) wf_graph_lookup [OF assms(1)] by auto
  have len: "length (adjacency g) = ?n" "?n < 2 ^ 32 - 1" using assms(1) by (simp_all add: wf_graph_def)
  obtain r where r: "search_loop (search_fuel g) health m g s t (init_search g s) = Some r"
    "optimal_route (hops health m g) (id_to_node g) s t r"
    using search_loop_optimal [OF hops_ok_graph [OF wf_graph_edges [OF assms(1)] assms(2,3)] refl len(2)
        init_loop_inv [OF st] init_measure [OF len(1)]] by blast
  then have "shortest_path health m g start goal = r"
    using assms(4-6) by (simp add: shortest_path_def)
  then show "optimal_route (hops health m g) (id_to_node g) s t (shortest_path health m g start goal)"
    and "search_fuel g \<le> k \<Longrightarrow>
      search_loop k health m g s t (init_search g s) = Some (shortest_path health m g start goal)"
    using r search_loop_mono [OF r(1)] by simp_all
qed

lemma shortest_path_Some_known:
  assumes "shortest_path health m g start goal = Some rt" "start \<noteq> goal"
  obtains s t where "map_of (node_to_id g) start = Some s" "map_of (node_to_id g) goal = Some t"
  using assms by (auto simp: shortest_path_def split: option.splits)

lemma empty_graph_size: "id_to_node empty_graph = []"
  by (simp add: empty_graph_def)

lemma route_safe:
  assumes "wf_graph g" "wf_cost_model m" "health_ok health"
    and "shortest_path health m g start goal = Some r"
  shows "nodes r \<noteq> [] \<and> hd (nodes r) = start \<and> last (nodes r) = goal \<and> distinct (nodes r)
    \<and> successively (usable_hop health g) (nodes r)"
proof (cases "start = goal")
  case True
  then show ?thesis using assms(4) by (auto simp: shortest_path_def)
next
  case False
  obtain s t where st: "map_of (node_to_id g) start = Some s" "map_of (node_to_id g) goal = Some t"
    using assms(4) False by (rule shortest_path_Some_known)
  note lk = wf_graph_lookup [OF assms(1)]
  have s: "unat s < length (id_to_node g)" "id_to_node g ! unat s = start" "id_to_node g ! unat t = goal"
    using st lk by auto
  obtain p c where p: "costed_path (hops health m g) s p t c" "distinct p"
    "nodes r = map (\<lambda>u. id_to_node g ! unat u) p"
    using shortest_path_search(1) [OF assms(1-3) st False] assms(4) by (auto simp: optimal_route_def)
  have sub: "unat u < length (id_to_node g)" if "u \<in> set p" for u
    using costed_path_in [OF p(1) hops_ok_graph [OF wf_graph_edges [OF assms(1)] assms(2,3)] s(1)] that by blast
  have "inj_on (\<lambda>u. id_to_node g ! unat u) (set p)"
    using sub assms(1) by (auto simp: inj_on_def wf_graph_def nth_eq_iff_index_eq word_unat_eq_iff)
  then show ?thesis
    using costed_path_ends [OF p(1)] costed_path_usable [OF assms(1-3) p(1) s(1)] p(2,3) s(2,3)
    by (simp add: distinct_map hd_map last_map)
qed

section \<open>Properties of the search\<close>

definition graph_of :: "edge list \<Rightarrow> tool_graph" where
  "graph_of es = fold graph_add_edge es empty_graph"

lemma graph_add_edge_size:
  assumes "wf_graph g" "length (id_to_node g) + 2 < 2 ^ 32 - 1"
  shows "length (id_to_node (graph_add_edge e g)) \<le> length (id_to_node g) + 2"
proof -
  obtain f g1 where 1: "get_or_insert_node (edge_from e) g = (f, g1)" by (cases "get_or_insert_node (edge_from e) g")
  obtain t g2 where 2: "get_or_insert_node (edge_to e) g1 = (t, g2)" by (cases "get_or_insert_node (edge_to e) g1")
  have l0: "length (id_to_node g) + 1 < 2 ^ 32 - 1" using assms(2) by linarith
  note g1 = get_or_insert_node_wf [OF assms(1) l0 1]
  have l1: "length (id_to_node g1) + 1 < 2 ^ 32 - 1" using assms(2) g1(4) by linarith
  show ?thesis
    using g1(4) get_or_insert_node_wf(4) [OF g1(1) l1 2] 1 2 by (simp add: graph_add_edge_def Let_def)
qed

lemma fold_add_edge_wf:
  "wf_graph g \<Longrightarrow> length (id_to_node g) + 2 * length es < 2 ^ 32 - 1 \<Longrightarrow> \<forall>e \<in> set es. wf_edge e
   \<Longrightarrow> wf_graph (fold graph_add_edge es g)"
proof (induction es arbitrary: g)
  case (Cons e es)
  have l: "length (id_to_node g) + 2 < 2 ^ 32 - 1" using Cons.prems(2) by simp
  have "wf_graph (graph_add_edge e g)" using graph_add_edge_wf [OF Cons.prems(1) l] Cons.prems(3) by simp
  moreover have "length (id_to_node (graph_add_edge e g)) + 2 * length es < 2 ^ 32 - 1"
    using graph_add_edge_size [OF Cons.prems(1) l, of e] Cons.prems(2) by simp
  ultimately show ?case using Cons.IH Cons.prems(3) by simp
qed simp

text \<open>A small graph: \<open>a\<close> reaches \<open>c\<close> directly at a high risk or through \<open>b\<close> at none.\<close>

definition demo_edge :: "node_id \<Rightarrow> node_id \<Rightarrow> f64 \<Rightarrow> edge" where
  "demo_edge a b r = edge_with_costs f_zero f_zero 0 r (edge_new a b)"

definition demo_edges :: "edge list" where
  "demo_edges = [demo_edge ''a'' ''b'' f_zero, demo_edge ''b'' ''c'' f_zero, demo_edge ''a'' ''c'' f_one]"

definition demo_graph :: tool_graph where
  "demo_graph = graph_of demo_edges"

definition open_tracker :: health_tracker where
  "open_tracker = default_health_tracker\<lparr>ht_state := Open, opened_at := Some 0\<rparr>"

text \<open>
  Interning is sound: a graph built from any list of edges whose fields are binary64 values
  (fewer than about two billion of them) has mutually inverse name and id tables, as many
  adjacency rows as nodes, and only edges to existing nodes.
\<close>
theorem interned_graph_wf:
  assumes "\<forall>e \<in> set es. wf_edge e" "2 * length es < 2 ^ 32 - 1"
  shows "wf_graph (graph_of es)"
  unfolding graph_of_def by (rule fold_add_edge_wf) (use assms in \<open>simp_all add: wf_empty_graph empty_graph_size\<close>)

lemma demo_edges_wf: "\<forall>e \<in> set demo_edges. wf_edge e"
  by code_simp

theorem interned_graph_wf_witness: "wf_graph (graph_of demo_edges)"
  using interned_graph_wf [OF demo_edges_wf] by (simp add: demo_edges_def)

lemma demo_graph_wf: "wf_graph demo_graph"
  unfolding demo_graph_def graph_of_def
  by (rule fold_add_edge_wf) (use demo_edges_wf in \<open>simp_all add: wf_empty_graph empty_graph_size demo_edges_def\<close>)

lemma unit_cost_model_wf: "wf_cost_model unit_cost_model"
  by code_simp

lemma demo_ids: "map_of (node_to_id demo_graph) ''a'' = Some 0"
  "map_of (node_to_id demo_graph) ''b'' = Some 1" "map_of (node_to_id demo_graph) ''c'' = Some 2"
  by code_simp+

lemma health_ok_nil: "health_ok []"
  by (simp add: health_ok_def)

lemma health_ok_open: "health_ok [(n, open_tracker)]"
  by (simp add: health_ok_def ht_inv_def open_tracker_def default_health_tracker_def)

text \<open>
  C18: The search always returns: with the fuel \<open>search_fuel\<close> (the number of edges plus two)
  or any larger one, the loop ends with the answer of \<open>shortest_path\<close>, for every well-formed
  graph, every cost model and every table of reachable health trackers.
\<close>
theorem route_search_returns:
  assumes "wf_graph g" "wf_cost_model m" "health_ok health" "start \<noteq> goal"
    and "map_of (node_to_id g) start = Some s" "map_of (node_to_id g) goal = Some t"
    and "search_fuel g \<le> k"
  shows "search_loop k health m g s t (init_search g s) = Some (shortest_path health m g start goal)"
  using shortest_path_search(2) [OF assms(1-3,5,6,4,7)] .

theorem route_search_returns_witness:
  "search_loop 100 [] unit_cost_model demo_graph 0 2 (init_search demo_graph 0)
     = Some (shortest_path [] unit_cost_model demo_graph ''a'' ''c'')"
proof -
  have "search_fuel demo_graph \<le> 100" by code_simp
  then show ?thesis
    by (intro route_search_returns [OF demo_graph_wf unit_cost_model_wf health_ok_nil _ demo_ids(1,3)]) simp
qed

text \<open>
  C4: The search is optimal in the arithmetic the program computes with.  A returned route is a
  simple path of usable edges whose total cost is the rounded sum of its edge costs, and no
  other path is cheaper; when no route is returned, every path has an infinite cost.
\<close>
theorem route_is_optimal:
  assumes "wf_graph g" "wf_cost_model m" "health_ok health" "start \<noteq> goal"
    and "map_of (node_to_id g) start = Some s" "map_of (node_to_id g) goal = Some t"
  shows "case shortest_path health m g start goal of
      None \<Rightarrow> \<forall>p d. costed_path (hops health m g) s p t d \<longrightarrow> d = f_inf
    | Some r \<Rightarrow> \<not> cache_hit r \<and> total_cost r \<noteq> f_inf
        \<and> (\<exists>p. costed_path (hops health m g) s p t (total_cost r) \<and> distinct p
              \<and> nodes r = map (\<lambda>u. id_to_node g ! unat u) p)
        \<and> (\<forall>p d. costed_path (hops health m g) s p t d \<longrightarrow> total_cost r \<le> d)"
  using shortest_path_search(1) [OF assms(1-3,5,6,4)] by (simp add: optimal_route_def)

lemma demo_route:
  "map_option nodes (shortest_path [] unit_cost_model demo_graph ''a'' ''c'') = Some [''a'', ''b'', ''c'']"
  by code_simp

theorem route_is_optimal_witness:
  "\<exists>r :: route. shortest_path [] unit_cost_model demo_graph ''a'' ''c'' = Some r
     \<and> nodes r = [''a'', ''b'', ''c'']
     \<and> (\<forall>p d. costed_path (hops [] unit_cost_model demo_graph) 0 p 2 d \<longrightarrow> total_cost r \<le> d)"
  using route_is_optimal [OF demo_graph_wf unit_cost_model_wf health_ok_nil _ demo_ids(1,3)] demo_route
  by (auto split: option.splits)

text \<open>
  Safety of a computed route: it starts and ends where it was asked to, visits no node
  twice, follows only enabled and valid edges of the graph, and enters no node whose breaker
  is open (only the start may be open).
\<close>
theorem route_avoids_open:
  assumes "wf_graph g" "wf_cost_model m" "health_ok health"
    and "shortest_path health m g start goal = Some r"
  shows "nodes r \<noteq> [] \<and> hd (nodes r) = start \<and> last (nodes r) = goal \<and> distinct (nodes r)
    \<and> successively (usable_hop health g) (nodes r)"
  using route_safe [OF assms] .

lemma demo_detour:
  "map_option nodes (shortest_path [(''b'', open_tracker)] unit_cost_model demo_graph ''a'' ''c'')
     = Some [''a'', ''c'']"
  by code_simp

theorem route_avoids_open_witness:
  "\<exists>r :: route. nodes r = [''a'', ''c'']
     \<and> successively (usable_hop [(''b'', open_tracker)] demo_graph) (nodes r)"
  using route_avoids_open [OF demo_graph_wf unit_cost_model_wf health_ok_open, of "''b''" "''a''" "''c''"]
    demo_detour by blast

end
