(* ===== verification/AuditTrail.thy ===== *)
theory AuditTrail
  imports ToolGraph
begin

text \<open>
  The router's audit trail (\<open>src/src/lib.rs\<close>): routing decisions, audit events and their JSON
  form, the in-memory ring buffer \<open>AuditPipeline\<close>, and the JSONL files it is flushed to.
  \<open>serde_json::to_string\<close> is a library function and a parameter of the definitions here.
\<close>

section \<open>JSON values\<close>

datatype json =
    JNull | JBool bool | JNat nat | JFloat f64 | JString string
  | JArray "json list" | JObject "(string \<times> json) list"

definition jstrings :: "string list \<Rightarrow> json" where
  "jstrings xs = JArray (map JString xs)"

section \<open>Decisions\<close>

datatype escalation_reason = NoFeasiblePath | TenantNotFound

record escalation_context =
  ec_tenant_id :: tenant_id
  ec_start :: node_id
  ec_goal :: node_id
  ec_reason :: escalation_reason
  failed_or_blocked_nodes :: "node_id list"

datatype route_decision = Routed route | Escalate escalation_context

section \<open>Events\<close>

datatype audit_event =
    Reroute tenant_id node_id node_id "node_id list" f64 bool
  | ExplicitEscalation escalation_context
  | HealthChanged tenant_id node_id node_state bool
  | RecoveryProbeOpened tenant_id node_id

text \<open>The derived \<open>Debug\<close> forms.\<close>

fun node_state_debug :: "node_state \<Rightarrow> string" where
  "node_state_debug Healthy = ''Healthy''"
| "node_state_debug Degraded = ''Degraded''"
| "node_state_debug Open = ''Open''"
| "node_state_debug HalfOpen = ''HalfOpen''"

fun escalation_reason_debug :: "escalation_reason \<Rightarrow> string" where
  "escalation_reason_debug NoFeasiblePath = ''NoFeasiblePath''"
| "escalation_reason_debug TenantNotFound = ''TenantNotFound''"

fun audit_event_json :: "audit_event \<Rightarrow> json" where
  "audit_event_json (Reroute tid start goal path cost hit) =
     JObject [(''event'', JString ''reroute''), (''tenant_id'', JString tid),
       (''start'', JString start), (''goal'', JString goal), (''path'', jstrings path),
       (''total_cost'', JFloat cost), (''cache_hit'', JBool hit)]"
| "audit_event_json (ExplicitEscalation context) =
     JObject [(''event'', JString ''explicit_escalation''),
       (''tenant_id'', JString (ec_tenant_id context)), (''start'', JString (ec_start context)),
       (''goal'', JString (ec_goal context)),
       (''reason'', JString (escalation_reason_debug (ec_reason context))),
       (''failed_or_blocked_nodes'', jstrings (failed_or_blocked_nodes context))]"
| "audit_event_json (HealthChanged tid n st changed) =
     JObject [(''event'', JString ''health_changed''), (''tenant_id'', JString tid),
       (''node_id'', JString n), (''state'', JString (node_state_debug st)),
       (''state_changed'', JBool changed)]"
| "audit_event_json (RecoveryProbeOpened tid n) =
     JObject [(''event'', JString ''recovery_probe_opened''), (''tenant_id'', JString tid),
       (''node_id'', JString n)]"

definition to_json_line :: "(json \<Rightarrow> string) \<Rightarrow> audit_event \<Rightarrow> string" where
  "to_json_line to_string event = to_string (audit_event_json event)"

section \<open>Appending to a JSONL file\<close>

text \<open>
  The outcome of the system calls is an argument: opening, each write in turn, and the final
  sync may fail.  The result is paired with the contents of the file afterwards.
\<close>

typedecl io_error

record io_calls =
  io_open :: "io_error option"
  io_write :: "nat \<Rightarrow> io_error option"
  io_sync :: "io_error option"

fun write_lines :: "(nat \<Rightarrow> io_error option) \<Rightarrow> nat \<Rightarrow> string list \<Rightarrow> string \<Rightarrow> io_error option \<times> string" where
  "write_lines wr i [] content = (None, content)"
| "write_lines wr i (l # ls) content =
     (case wr i of Some e \<Rightarrow> (Some e, content)
      | None \<Rightarrow> write_lines wr (Suc i) ls (content @ l @ [CHR 0x0A]))"

definition append_events_jsonl ::
  "(json \<Rightarrow> string) \<Rightarrow> io_calls \<Rightarrow> audit_event list \<Rightarrow> string \<Rightarrow> (io_error + nat) \<times> string" where
  "append_events_jsonl to_string io events content =
     (case io_open io of Some e \<Rightarrow> (Inl e, content)
      | None \<Rightarrow>
          (case write_lines (io_write io) 0 (map (to_json_line to_string) events) content of
             (Some e, content') \<Rightarrow> (Inl e, content')
           | (None, content') \<Rightarrow>
               (case io_sync io of Some e \<Rightarrow> (Inl e, content')
                | None \<Rightarrow> (Inr (length events), content'))))"

definition io_succeeds :: "io_calls \<Rightarrow> bool" where
  "io_succeeds io \<longleftrightarrow> io_open io = None \<and> (\<forall>i. io_write io i = None) \<and> io_sync io = None"

definition jsonl :: "(json \<Rightarrow> string) \<Rightarrow> audit_event list \<Rightarrow> string" where
  "jsonl to_string events = concat (map (\<lambda>e. to_json_line to_string e @ [CHR 0x0A]) events)"

lemma write_lines_ok:
  "\<forall>i. wr i = None \<Longrightarrow> write_lines wr k ls content = (None, content @ concat (map (\<lambda>l. l @ [CHR 0x0A]) ls))"
  by (induction ls arbitrary: k content) simp_all

lemma write_lines_extends: "\<exists>written. snd (write_lines wr k ls content) = content @ written"
proof (induction ls arbitrary: k content)
  case (Cons l ls)
  then show ?case by (cases "wr k") (auto simp flip: append_assoc, metis append_assoc)
qed simp

lemma append_events_ok:
  "io_succeeds io \<Longrightarrow>
   append_events_jsonl to_string io events content = (Inr (length events), content @ jsonl to_string events)"
  by (simp add: append_events_jsonl_def io_succeeds_def write_lines_ok jsonl_def comp_def)

lemma append_events_extends:
  "\<exists>written. snd (append_events_jsonl to_string io events content) = content @ written"
proof -
  obtain r c where w: "write_lines (io_write io) 0 (map (to_json_line to_string) events) content = (r, c)"
    by (metis surj_pair)
  show ?thesis
    using write_lines_extends [of "io_write io" 0 "map (to_json_line to_string) events" content]
    by (auto simp: append_events_jsonl_def w split: option.split)
qed

section \<open>The ring buffer\<close>

definition AUDIT_EVENT_MEMORY_LIMIT :: nat where "AUDIT_EVENT_MEMORY_LIMIT = 10000"

record audit_pipeline =
  ap_events :: "audit_event list"
  ap_capacity :: nat

definition audit_new :: "nat \<Rightarrow> audit_pipeline" where
  "audit_new capacity = \<lparr>ap_events = [], ap_capacity = capacity\<rparr>"

definition audit_push :: "audit_event \<Rightarrow> audit_pipeline \<Rightarrow> audit_pipeline" where
  "audit_push event p =
     (let events = (if length (ap_events p) = ap_capacity p then tl (ap_events p) else ap_events p)
      in p\<lparr>ap_events := events @ [event]\<rparr>)"

definition last_event :: "audit_pipeline \<Rightarrow> audit_event option" where
  "last_event p = (if ap_events p = [] then None else Some (last (ap_events p)))"

interpretation audit: bounded_log audit_push ap_events ap_capacity
  by unfold_locales (simp_all add: audit_push_def Let_def)

lemma audit_log_ok: "audit.log_ok p \<longleftrightarrow> 0 < ap_capacity p \<and> length (ap_events p) \<le> ap_capacity p"
  by (rule audit.log_ok_def)

text \<open>
  The audit trail keeps the most recent events: after any sequence of pushes the buffer is
  the tail, in order, of everything pushed, as long as its capacity, and the last event is the
  newest one.
\<close>
theorem audit_keeps_most_recent:
  assumes "0 < capacity" "events \<noteq> []"
  shows "ap_events (fold audit_push events (audit_new capacity)) = drop (length events - capacity) events
    \<and> last_event (fold audit_push events (audit_new capacity)) = Some (last events)"
proof -
  have "audit.log_ok (audit_new capacity)" using assms(1) by (simp add: audit_log_ok audit_new_def)
  from audit.entries_fold [OF this, of events]
  have "ap_events (fold audit_push events (audit_new capacity)) = drop (length events - capacity) events"
    by (simp add: audit_new_def)
  moreover have "drop (length events - capacity) events \<noteq> []" using assms by (cases events) auto
  ultimately show ?thesis using assms by (simp add: last_event_def last_drop)
qed

theorem audit_keeps_most_recent_witness:
  "ap_events (fold audit_push (map (RecoveryProbeOpened ''t'') [''a'', ''b'', ''c'']) (audit_new 2))
     = map (RecoveryProbeOpened ''t'') [''b'', ''c'']"
  using audit_keeps_most_recent [of 2 "map (RecoveryProbeOpened ''t'') [''a'', ''b'', ''c'']"] by simp

text \<open>
  A pipeline of capacity 0 is not bounded: the test for a full buffer is an equality, which
  holds only before the first push, so the buffer keeps every later event.
\<close>
theorem zero_capacity_unbounded:
  "ap_events (fold audit_push events (audit_new 0)) = events"
proof -
  have "fold audit_push es p = p\<lparr>ap_events := ap_events p @ es\<rparr>"
    if "ap_capacity p = 0" for es and p :: audit_pipeline
    using that by (induction es arbitrary: p) (auto simp: audit_push_def Let_def)
  then show ?thesis by (simp add: audit_new_def)
qed

text \<open>
  Flushing twice writes every buffered event twice: an append writes the whole buffer and
  does not empty it, so the periodic flush loop repeats all earlier lines at every tick.
\<close>
theorem flush_twice_duplicates:
  assumes "io_succeeds io" "io_succeeds io'"
  shows "snd (append_events_jsonl to_string io' (ap_events p)
           (snd (append_events_jsonl to_string io (ap_events p) content)))
    = content @ jsonl to_string (ap_events p) @ jsonl to_string (ap_events p)"
  using assms by (simp add: append_events_ok)

definition io_fine :: io_calls where
  "io_fine = \<lparr>io_open = None, io_write = (\<lambda>_. None), io_sync = None\<rparr>"

theorem flush_twice_duplicates_witness:
  "snd (append_events_jsonl (\<lambda>_. ''x'') io_fine (ap_events (audit_push (RecoveryProbeOpened ''t'' ''n'') (audit_new 5)))
     (snd (append_events_jsonl (\<lambda>_. ''x'') io_fine (ap_events (audit_push (RecoveryProbeOpened ''t'' ''n'') (audit_new 5))) [])))
   = ''x'' @ [CHR 0x0A] @ ''x'' @ [CHR 0x0A]"
proof -
  have "io_succeeds io_fine" by (simp add: io_succeeds_def io_fine_def)
  from flush_twice_duplicates [OF this this, of "\<lambda>_. ''x''" "audit_push (RecoveryProbeOpened ''t'' ''n'') (audit_new 5)" "[]"]
  show ?thesis
    by (simp add: jsonl_def to_json_line_def audit_push_def audit_new_def Let_def)
qed

end
