(* ===== verification/Router.thy ===== *)
theory Router
  imports RouteSearch AuditTrail
begin

text \<open>
  The router of \<open>src/src/lib.rs\<close>: tenants with their graph, trackers, cost model and bounded
  route cache, and the operations on them.  A \<open>route\<close> call takes two atomic steps (a fast path
  under the read lock, then a slow path under the write lock), so that other operations may run
  in between; the step relation \<open>router_step\<close> has both as separate steps.
\<close>

section \<open>A tenant\<close>

definition ROUTE_CACHE_LIMIT :: nat where "ROUTE_CACHE_LIMIT = 1024"

record route_key =
  rk_start :: node_id
  rk_goal :: node_id

record cached_path =
  cp_path :: "node_id list"
  cp_weight :: f64
  touched_nodes :: "node_id set"

record tenant_state =
  graph :: tool_graph
  health :: "(node_id, health_tracker) hmap"
  cache :: "(route_key, cached_path) hmap"
  cache_order :: "route_key list"
  cost_model :: tenant_cost_model
  health_policy_of :: health_policy

definition default_tenant :: tenant_state where
  "default_tenant = \<lparr>graph = empty_graph, health = [], cache = [], cache_order = [],
     cost_model = default_cost_model, health_policy_of = default_health_policy\<rparr>"

definition invalidate_all_cache :: "tenant_state \<Rightarrow> tenant_state" where
  "invalidate_all_cache t = t\<lparr>cache := [], cache_order := []\<rparr>"

definition invalidate_for_node :: "node_id \<Rightarrow> tenant_state \<Rightarrow> tenant_state" where
  "invalidate_for_node node t =
     (let cache' = filter (\<lambda>(_, cached). node \<notin> touched_nodes cached) (cache t)
      in t\<lparr>cache := cache', cache_order := filter (contains_key cache') (cache_order t)\<rparr>)"

definition get_cached :: "route_key \<Rightarrow> tenant_state \<Rightarrow> cached_path option \<times> tenant_state" where
  "get_cached key t =
     (case map_of (cache t) key of
        None \<Rightarrow> (None, t)
      | Some cached \<Rightarrow>
          (Some cached, t\<lparr>cache_order := filter (\<lambda>k. k \<noteq> key) (cache_order t) @ [key]\<rparr>))"

definition evict :: "route_key \<Rightarrow> tenant_state \<Rightarrow> tenant_state" where
  "evict key t =
     (if \<not> contains_key (cache t) key \<and> length (cache t) = ROUTE_CACHE_LIMIT
      then case cache_order t of
             [] \<Rightarrow> t
           | evicted # rest \<Rightarrow> t\<lparr>cache := AList.delete evicted (cache t), cache_order := rest\<rparr>
      else t)"

definition insert_cache :: "route_key \<Rightarrow> cached_path \<Rightarrow> tenant_state \<Rightarrow> tenant_state" where
  "insert_cache key cached t =
     (let t = evict key t
      in t\<lparr>cache_order := filter (\<lambda>k. k \<noteq> key) (cache_order t) @ [key],
           cache := AList.update key cached (cache t)\<rparr>)"

definition blocked_nodes :: "tenant_state \<Rightarrow> node_id list" where
  "blocked_nodes t = sort (map fst (filter (\<lambda>(_, h). ht_state h = Open) (health t)))"

section \<open>The router\<close>

record router =
  tenants :: "(tenant_id, tenant_state) hmap"
  audit_log :: audit_pipeline

definition router_new :: router where
  "router_new = \<lparr>tenants = [], audit_log = audit_new AUDIT_EVENT_MEMORY_LIMIT\<rparr>"

definition put_tenant :: "tenant_id \<Rightarrow> tenant_state \<Rightarrow> router \<Rightarrow> router" where
  "put_tenant tid t r = r\<lparr>tenants := AList.update tid t (tenants r)\<rparr>"

definition tenant_or_default :: "router \<Rightarrow> tenant_id \<Rightarrow> tenant_state" where
  "tenant_or_default r tid = get_or default_tenant (tenants r) tid"

definition push_event :: "audit_event \<Rightarrow> router \<Rightarrow> router" where
  "push_event ev r = r\<lparr>audit_log := audit_push ev (audit_log r)\<rparr>"

definition add_tenant :: "tenant_id \<Rightarrow> router \<Rightarrow> router" where
  "add_tenant tid r = put_tenant tid (tenant_or_default r tid) r"

definition try_set_cost_model ::
  "tenant_id \<Rightarrow> tenant_cost_model \<Rightarrow> router \<Rightarrow> (router_error + unit) \<times> router" where
  "try_set_cost_model tid m r =
     (case cost_model_validate m of
        Inl e \<Rightarrow> (Inl e, r)
      | Inr _ \<Rightarrow>
          (Inr (), put_tenant tid (invalidate_all_cache ((tenant_or_default r tid)\<lparr>cost_model := m\<rparr>)) r))"

definition set_cost_model :: "tenant_id \<Rightarrow> tenant_cost_model \<Rightarrow> router \<Rightarrow> router" where
  "set_cost_model tid m r = snd (try_set_cost_model tid m r)"

definition try_set_health_policy ::
  "tenant_id \<Rightarrow> health_policy \<Rightarrow> router \<Rightarrow> (router_error + unit) \<times> router" where
  "try_set_health_policy tid p r =
     (case health_policy_validate p of
        Inl e \<Rightarrow> (Inl e, r)
      | Inr _ \<Rightarrow>
          (Inr (), put_tenant tid (invalidate_all_cache ((tenant_or_default r tid)\<lparr>health_policy_of := p\<rparr>)) r))"

definition add_edge :: "tenant_id \<Rightarrow> edge \<Rightarrow> router \<Rightarrow> router" where
  "add_edge tid e r =
     (let t = tenant_or_default r tid
      in put_tenant tid (invalidate_all_cache (t\<lparr>graph := graph_add_edge e (graph t)\<rparr>)) r)"

definition record_result ::
  "instant \<Rightarrow> tenant_id \<Rightarrow> node_id \<Rightarrow> bool \<Rightarrow> u64 \<Rightarrow> router \<Rightarrow> router" where
  "record_result now tid node success latency r =
     (let t = tenant_or_default r tid;
          tracker = get_or default_health_tracker (health t) node;
          (state_changed, tracker') =
            record_result_with_policy now success latency (health_policy_of t) tracker;
          t1 = t\<lparr>health := AList.update node tracker' (health t)\<rparr>;
          t2 = (if state_changed then invalidate_for_node node t1 else t1)
      in push_event (HealthChanged tid node (ht_state tracker') state_changed) (put_tenant tid t2 r))"

definition force_half_open :: "tenant_id \<Rightarrow> node_id \<Rightarrow> router \<Rightarrow> bool \<times> router" where
  "force_half_open tid node r =
     (case map_of (tenants r) tid of
        None \<Rightarrow> (False, r)
      | Some t \<Rightarrow>
          (case map_of (health t) node of
             None \<Rightarrow> (False, r)
           | Some tracker \<Rightarrow>
               (let (opened, tracker') = tracker_force_half_open tracker
                in if \<not> opened then (False, r)
                   else (True, push_event (RecoveryProbeOpened tid node)
                     (put_tenant tid (invalidate_for_node node
                        (t\<lparr>health := AList.update node tracker' (health t)\<rparr>)) r)))))"

subsection \<open>The recovery probe\<close>

definition probe_trackers ::
  "duration \<Rightarrow> instant \<Rightarrow> (node_id, health_tracker) hmap \<Rightarrow> (node_id, health_tracker) hmap" where
  "probe_trackers cd now h = map (\<lambda>(n, t). (n, snd (transition_to_half_open_if_ready cd now t))) h"

definition probed_nodes ::
  "duration \<Rightarrow> instant \<Rightarrow> (node_id, health_tracker) hmap \<Rightarrow> node_id list" where
  "probed_nodes cd now h = map fst (filter (\<lambda>(n, t). fst (transition_to_half_open_if_ready cd now t)) h)"

definition probed :: "duration \<Rightarrow> instant \<Rightarrow> router \<Rightarrow> (tenant_id \<times> node_id) list" where
  "probed cd now r = concat (map (\<lambda>(tid, t). map (Pair tid) (probed_nodes cd now (health t))) (tenants r))"

definition probe_opened :: "tenant_id \<times> node_id \<Rightarrow> router \<Rightarrow> router" where
  "probe_opened p r =
     (case p of (tid, node) \<Rightarrow>
        push_event (RecoveryProbeOpened tid node)
          (case map_of (tenants r) tid of
             None \<Rightarrow> r
           | Some t \<Rightarrow> put_tenant tid (invalidate_for_node node t) r))"

definition run_recovery_probe_once :: "duration \<Rightarrow> instant \<Rightarrow> router \<Rightarrow> nat \<times> router" where
  "run_recovery_probe_once cd now r =
     (let opened = probed cd now r;
          r1 = r\<lparr>tenants := map (\<lambda>(tid, t). (tid, t\<lparr>health := probe_trackers cd now (health t)\<rparr>)) (tenants r)\<rparr>
      in (length opened, fold probe_opened opened r1))"

subsection \<open>Routing\<close>

definition cached_route :: "cached_path \<Rightarrow> route" where
  "cached_route c = \<lparr>nodes = cp_path c, total_cost = cp_weight c, cache_hit = True\<rparr>"

definition reroute :: "tenant_id \<Rightarrow> node_id \<Rightarrow> node_id \<Rightarrow> route \<Rightarrow> audit_event" where
  "reroute tid start goal rt = Reroute tid start goal (nodes rt) (total_cost rt) (cache_hit rt)"

text \<open>The fast path, under the read lock: \<open>None\<close> is a cache miss.\<close>

definition route_fast :: "tenant_id \<Rightarrow> node_id \<Rightarrow> node_id \<Rightarrow> router \<Rightarrow> route_decision option \<times> router" where
  "route_fast tid start goal r =
     (case map_of (tenants r) tid of
        None \<Rightarrow> (None, r)
      | Some t \<Rightarrow>
          (case map_of (cache t) \<lparr>rk_start = start, rk_goal = goal\<rparr> of
             None \<Rightarrow> (None, r)
           | Some c \<Rightarrow>
               (Some (Routed (cached_route c)), push_event (reroute tid start goal (cached_route c)) r)))"

definition route_slow :: "tenant_id \<Rightarrow> node_id \<Rightarrow> node_id \<Rightarrow> router \<Rightarrow> route_decision \<times> router" where
  "route_slow tid start goal r =
     (let key = \<lparr>rk_start = start, rk_goal = goal\<rparr>
      in case map_of (tenants r) tid of
        None \<Rightarrow>
          (let context = \<lparr>ec_tenant_id = tid, ec_start = start, ec_goal = goal,
                 ec_reason = TenantNotFound, failed_or_blocked_nodes = []\<rparr>
           in (Escalate context, push_event (ExplicitEscalation context) r))
      | Some t \<Rightarrow>
          (case get_cached key t of
             (Some c, t1) \<Rightarrow>
               (Routed (cached_route c),
                push_event (reroute tid start goal (cached_route c)) (put_tenant tid t1 r))
           | (None, _) \<Rightarrow>
               (case shortest_path (health t) (cost_model t) (graph t) start goal of
                  Some rt \<Rightarrow>
                    (Routed rt,
                     push_event (reroute tid start goal rt)
                       (put_tenant tid (insert_cache key \<lparr>cp_path = nodes rt, cp_weight = total_cost rt,
                          touched_nodes = set (nodes rt)\<rparr> t) r))
                | None \<Rightarrow>
                    (let context = \<lparr>ec_tenant_id = tid, ec_start = start, ec_goal = goal,
                           ec_reason = NoFeasiblePath, failed_or_blocked_nodes = blocked_nodes t\<rparr>
                     in (Escalate context, push_event (ExplicitEscalation context) r)))))"

definition route_request :: "tenant_id \<Rightarrow> node_id \<Rightarrow> node_id \<Rightarrow> router \<Rightarrow> route_decision \<times> router" where
  "route_request tid start goal r =
     (case route_fast tid start goal r of
        (Some d, r') \<Rightarrow> (d, r')
      | (None, _) \<Rightarrow> route_slow tid start goal r)"

subsection \<open>Reading\<close>

definition router_events :: "router \<Rightarrow> audit_event list" where
  "router_events r = ap_events (audit_log r)"

definition last_audit_event :: "router \<Rightarrow> audit_event option" where
  "last_audit_event r = last_event (audit_log r)"

definition node_state_of :: "tenant_id \<Rightarrow> node_id \<Rightarrow> router \<Rightarrow> node_state option" where
  "node_state_of tid node r =
     (case map_of (tenants r) tid of None \<Rightarrow> None
      | Some t \<Rightarrow> map_option ht_state (map_of (health t) node))"

definition append_audit_jsonl ::
  "(json \<Rightarrow> string) \<Rightarrow> io_calls \<Rightarrow> router \<Rightarrow> string \<Rightarrow> (io_error + nat) \<times> string" where
  "append_audit_jsonl to_string io r content = append_events_jsonl to_string io (router_events r) content"

end
