(* ===== verification/RouterSafety.thy ===== *)
theory RouterSafety
  imports Router
begin

text \<open>
  Safety of the router: the route cache as an instance of an evicting cache, the invariant of a
  tenant and of the whole router under every interleaving of its operations, and what routing
  decisions then guarantee.
\<close>

section \<open>Evicting caches\<close>

text \<open>
  A cache that may forget entries but never changes them: what holds of every value when it is
  inserted holds of every hit.
\<close>

locale evicting_cache =
  fixes get :: "'k \<Rightarrow> 'c \<Rightarrow> 'v option"
    and put :: "'k \<Rightarrow> 'v \<Rightarrow> 'c \<Rightarrow> 'c"
    and drop :: "'n \<Rightarrow> 'c \<Rightarrow> 'c"
    and stale :: "'n \<Rightarrow> 'v \<Rightarrow> bool"
    and inv :: "'c \<Rightarrow> bool"
  assumes get_put: "inv c \<Longrightarrow> get k (put k v c) = Some v"
    and get_put_other: "inv c \<Longrightarrow> k' \<noteq> k \<Longrightarrow> get k' (put k v c) = None \<or> get k' (put k v c) = get k' c"
    and get_drop: "inv c \<Longrightarrow> get k (drop n c) = (case get k c of None \<Rightarrow> None
        | Some v \<Rightarrow> if stale n v then None else Some v)"
    and inv_put: "inv c \<Longrightarrow> inv (put k v c)"
    and inv_drop: "inv c \<Longrightarrow> inv (drop n c)"
begin

definition all_hits :: "('k \<Rightarrow> 'v \<Rightarrow> bool) \<Rightarrow> 'c \<Rightarrow> bool" where
  "all_hits P c \<longleftrightarrow> (\<forall>k v. get k c = Some v \<longrightarrow> P k v)"

lemma all_hits_put: "inv c \<Longrightarrow> all_hits P c \<Longrightarrow> P k v \<Longrightarrow> all_hits P (put k v c)"
  unfolding all_hits_def by (metis get_put get_put_other option.distinct(1) option.inject)

lemma all_hits_drop: "inv c \<Longrightarrow> all_hits P c \<Longrightarrow> all_hits (\<lambda>k v. P k v \<and> \<not> stale n v) (drop n c)"
  by (auto simp: all_hits_def get_drop split: option.splits if_splits)

lemma all_hits_mono: "all_hits P c \<Longrightarrow> (\<And>k v. P k v \<Longrightarrow> Q k v) \<Longrightarrow> all_hits Q c"
  by (auto simp: all_hits_def)

end

section \<open>The route cache\<close>

definition cache_inv :: "tenant_state \<Rightarrow> bool" where
  "cache_inv t \<longleftrightarrow> distinct_keys (cache t) \<and> distinct (cache_order t)
     \<and> set (cache_order t) = fst ` set (cache t) \<and> length (cache t) \<le> ROUTE_CACHE_LIMIT"

definition hit :: "route_key \<Rightarrow> tenant_state \<Rightarrow> cached_path option" where
  "hit k t = map_of (cache t) k"

lemma contains_key_dom: "contains_key m k \<longleftrightarrow> k \<in> fst ` set m"
  by (simp add: map_of_eq_None_iff)

lemma keys_delete: "fst ` set (AList.delete k m) = fst ` set m - {k}"
  by (auto simp: delete_keys [symmetric] AList.delete_eq image_iff)

lemma keys_update: "fst ` set (AList.update k v m) = insert k (fst ` set m)"
  by (simp add: dom_update)

lemma cache_inv_evict:
  assumes "cache_inv t"
  shows "cache_inv (evict k t)" "contains_key (cache (evict k t)) k \<or> length (cache (evict k t)) < ROUTE_CACHE_LIMIT"
    and "\<And>k'. hit k' (evict k t) = None \<or> hit k' (evict k t) = hit k' t"
proof -
  have pos: "0 < ROUTE_CACHE_LIMIT" by (simp add: ROUTE_CACHE_LIMIT_def)
  have "cache_inv (evict k t)
    \<and> (contains_key (cache (evict k t)) k \<or> length (cache (evict k t)) < ROUTE_CACHE_LIMIT)
    \<and> (\<forall>k'. hit k' (evict k t) = None \<or> hit k' (evict k t) = hit k' t)"
  proof (cases "\<not> contains_key (cache t) k \<and> length (cache t) = ROUTE_CACHE_LIMIT")
    case True
    then obtain e es where o: "cache_order t = e # es"
      using assms pos by (cases "cache_order t") (auto simp: cache_inv_def)
    have ev: "evict k t = t\<lparr>cache := AList.delete e (cache t), cache_order := es\<rparr>"
      using True o by (simp add: evict_def)
    have "contains_key (cache t) e" using assms o by (force simp: cache_inv_def contains_key_dom)
    then show ?thesis
      using assms True pos o
      by (auto simp: ev cache_inv_def length_delete_distinct keys_delete distinct_keys_delete hit_def map_laws)
  next
    case False
    then have "evict k t = t" by (auto simp: evict_def)
    then show ?thesis using assms False by (auto simp: cache_inv_def)
  qed
  then show "cache_inv (evict k t)"
    "contains_key (cache (evict k t)) k \<or> length (cache (evict k t)) < ROUTE_CACHE_LIMIT"
    and "\<And>k'. hit k' (evict k t) = None \<or> hit k' (evict k t) = hit k' t"
    by blast+
qed

lemma cache_inv_insert: "cache_inv t \<Longrightarrow> cache_inv (insert_cache k c t)"
  using cache_inv_evict [of t k]
  by (auto simp: insert_cache_def Let_def cache_inv_def length_update keys_update distinct_update
      simp del: update.simps)

lemma cache_inv_invalidate:
  assumes "cache_inv t"
  shows "cache_inv (invalidate_for_node n t)"
proof -
  define c where "c = filter (\<lambda>(_, c). n \<notin> touched_nodes c) (cache t)"
  have sub: "fst ` set c \<subseteq> set (cache_order t)"
    using assms by (auto simp: c_def cache_inv_def)
  have "set (filter (contains_key c) (cache_order t)) = {k \<in> set (cache_order t). k \<in> fst ` set c}"
    by (simp add: map_of_eq_None_iff)
  also have "\<dots> = fst ` set c" using sub by blast
  finally have keys: "set (filter (contains_key c) (cache_order t)) = fst ` set c" .
  have "invalidate_for_node n t = t\<lparr>cache := c, cache_order := filter (contains_key c) (cache_order t)\<rparr>"
    by (simp add: invalidate_for_node_def c_def Let_def)
  moreover have "length c \<le> length (cache t)" by (simp add: c_def)
  moreover have "distinct_keys c" using assms by (auto simp: c_def cache_inv_def)
  ultimately show ?thesis
    using assms keys unfolding cache_inv_def by (simp del: set_filter)
qed

lemma cache_inv_get: "cache_inv t \<Longrightarrow> cache_inv (snd (get_cached k t))"
  by (auto simp: cache_inv_def get_cached_def contains_key_dom split: option.splits dest: map_of_SomeD)
     (force dest: map_of_SomeD)

lemma hit_get_cached: "fst (get_cached k t) = hit k t" "hit k' (snd (get_cached k t)) = hit k' t"
  by (auto simp: get_cached_def hit_def split: option.split)

interpretation routes: evicting_cache hit insert_cache invalidate_for_node "\<lambda>n c. n \<in> touched_nodes c" cache_inv
proof
  fix t k k' v n
  assume t: "cache_inv t"
  show "hit k (insert_cache k v t) = Some v"
    by (simp add: hit_def insert_cache_def Let_def map_laws)
  show "k' \<noteq> k \<Longrightarrow> hit k' (insert_cache k v t) = None \<or> hit k' (insert_cache k v t) = hit k' t"
    using cache_inv_evict(3) [OF t, of k' k] by (auto simp: hit_def insert_cache_def Let_def map_laws)
  show "hit k (invalidate_for_node n t) = (case hit k t of None \<Rightarrow> None
        | Some v \<Rightarrow> if n \<in> touched_nodes v then None else Some v)"
    using t by (auto simp: hit_def invalidate_for_node_def Let_def cache_inv_def map_of_filter_distinct
        split: option.split)
  show "cache_inv (insert_cache k v t)" using t by (rule cache_inv_insert)
  show "cache_inv (invalidate_for_node n t)" using t by (rule cache_inv_invalidate)
qed

section \<open>The invariant of a tenant\<close>

text \<open>A cached path is a path of the present graph that avoids the nodes that are open now.\<close>

definition cached_ok :: "tenant_state \<Rightarrow> route_key \<Rightarrow> cached_path \<Rightarrow> bool" where
  "cached_ok t k c \<longleftrightarrow> cp_path c \<noteq> [] \<and> hd (cp_path c) = rk_start k \<and> last (cp_path c) = rk_goal k
     \<and> distinct (cp_path c) \<and> touched_nodes c = set (cp_path c)
     \<and> successively (usable_hop (health t) (graph t)) (cp_path c)"

definition tenant_inv :: "tenant_state \<Rightarrow> bool" where
  "tenant_inv t \<longleftrightarrow> wf_graph (graph t) \<and> health_ok (health t) \<and> distinct_keys (health t)
     \<and> wf_cost_model (cost_model t) \<and> cache_inv t \<and> routes.all_hits (cached_ok t) t"

lemmas all_hits_def = routes.all_hits_def

lemma default_cost_model_wf: "wf_cost_model default_cost_model"
  by code_simp

lemma tenant_inv_default: "tenant_inv default_tenant"
  by (simp add: tenant_inv_def default_tenant_def wf_empty_graph health_ok_nil default_cost_model_wf
      cache_inv_def all_hits_def hit_def)

text \<open>Opening no further node keeps a cached path good.\<close>

definition opens_no_more :: "node_id set \<Rightarrow> (node_id, health_tracker) hmap \<Rightarrow> (node_id, health_tracker) hmap \<Rightarrow> bool" where
  "opens_no_more ns h h' \<longleftrightarrow> (\<forall>n \<in> ns. \<forall>t. map_of h' n = Some t \<longrightarrow> ht_state t = Open
     \<longrightarrow> (\<exists>t'. map_of h n = Some t' \<and> ht_state t' = Open))"

lemma cached_ok_health:
  assumes "cached_ok t k c" "graph t' = graph t" "opens_no_more (set (cp_path c)) (health t) (health t')"
  shows "cached_ok t' k c"
proof -
  have "successively (usable_hop (health t') (graph t')) (cp_path c)"
  proof (rule successively_mono)
    show "successively (usable_hop (health t) (graph t)) (cp_path c)"
      using assms(1) by (simp add: cached_ok_def)
    fix a b assume "b \<in> set (cp_path c)" "usable_hop (health t) (graph t) a b"
    then show "usable_hop (health t') (graph t') a b"
      using assms(2,3) unfolding usable_hop_def opens_no_more_def by metis
  qed
  then show ?thesis using assms(1) by (simp add: cached_ok_def)
qed

lemma cached_ok_frame:
  "graph t' = graph t \<Longrightarrow> health t' = health t \<Longrightarrow> cached_ok t' = cached_ok t"
  by (simp add: cached_ok_def fun_eq_iff)

lemma invalidate_frame [simp]:
  "graph (invalidate_for_node n t) = graph t" "health (invalidate_for_node n t) = health t"
  "cost_model (invalidate_for_node n t) = cost_model t"
  by (simp_all add: invalidate_for_node_def Let_def)

lemma get_cached_frame [simp]:
  "graph (snd (get_cached k t)) = graph t" "health (snd (get_cached k t)) = health t"
  "cost_model (snd (get_cached k t)) = cost_model t"
  by (simp_all add: get_cached_def split: option.split)

lemma insert_cache_frame [simp]:
  "graph (insert_cache k c t) = graph t" "health (insert_cache k c t) = health t"
  "cost_model (insert_cache k c t) = cost_model t"
  by (auto simp: insert_cache_def evict_def Let_def split: list.split)

lemma tenant_inv_invalidate_all:
  "wf_graph (graph t) \<Longrightarrow> health_ok (health t) \<Longrightarrow> distinct_keys (health t) \<Longrightarrow> wf_cost_model (cost_model t)
   \<Longrightarrow> tenant_inv (invalidate_all_cache t)"
  by (simp add: tenant_inv_def invalidate_all_cache_def cache_inv_def all_hits_def hit_def)

lemma tenant_inv_invalidate: "tenant_inv t \<Longrightarrow> tenant_inv (invalidate_for_node n t)"
  unfolding tenant_inv_def
  using routes.all_hits_drop [of t "cached_ok t" n] cached_ok_frame [of "invalidate_for_node n t" t]
  by (auto simp: cache_inv_invalidate intro: routes.all_hits_mono)

lemma tenant_inv_get: "tenant_inv t \<Longrightarrow> tenant_inv (snd (get_cached k t))"
  unfolding tenant_inv_def using cached_ok_frame [of "snd (get_cached k t)" t]
  by (auto simp: cache_inv_get all_hits_def hit_get_cached)

lemma tenant_inv_insert: "tenant_inv t \<Longrightarrow> cached_ok t k c \<Longrightarrow> tenant_inv (insert_cache k c t)"
  unfolding tenant_inv_def
  using routes.all_hits_put [of t "cached_ok t" k c] cached_ok_frame [of "insert_cache k c t" t]
  by (auto simp: cache_inv_insert)

lemma health_ok_iff: "distinct_keys h \<Longrightarrow> health_ok h \<longleftrightarrow> (\<forall>n t. map_of h n = Some t \<longrightarrow> ht_inv t)"
  by (auto simp: health_ok_def)

lemma health_ok_update: "health_ok h \<Longrightarrow> distinct_keys h \<Longrightarrow> ht_inv t \<Longrightarrow> health_ok (AList.update n t h)"
  by (simp add: health_ok_iff distinct_update map_laws)

text \<open>
  A new tracker for one node, followed by the invalidation the router does whenever the state of
  the node changed.
\<close>

lemma tenant_inv_tracker:
  assumes "tenant_inv t" "ht_inv h'"
    and "ht_state h' = Open \<longrightarrow> inval \<or> (\<exists>h. map_of (health t) n = Some h \<and> ht_state h = Open)"
  defines "t1 \<equiv> t\<lparr>health := AList.update n h' (health t)\<rparr>"
  shows "tenant_inv (if inval then invalidate_for_node n t1 else t1)"
proof -
  let ?t = "if inval then invalidate_for_node n t1 else t1"
  have t: "cache_inv t" "routes.all_hits (cached_ok t) t" using assms(1) by (simp_all add: tenant_inv_def)
  have c1: "cache_inv t1" using t(1) by (simp add: t1_def cache_inv_def)
  have h1: "routes.all_hits (cached_ok t) t1" using t(2) by (simp add: t1_def all_hits_def hit_def)
  have gh: "graph ?t = graph t" "health ?t = AList.update n h' (health t)" "cost_model ?t = cost_model t"
    by (simp_all add: t1_def)
  have "routes.all_hits (cached_ok ?t) ?t"
  proof (cases inval)
    case True
    have "cached_ok ?t k c" if "cached_ok t k c \<and> n \<notin> touched_nodes c" for k c
    proof (rule cached_ok_health [of t])
      show "opens_no_more (set (cp_path c)) (health t) (health ?t)"
        using that by (auto simp: opens_no_more_def gh map_laws cached_ok_def split: if_splits)
    qed (use that gh in simp_all)
    then show ?thesis
      using routes.all_hits_mono [OF routes.all_hits_drop [OF c1 h1]] True by simp
  next
    case False
    have "cached_ok ?t k c" if "cached_ok t k c" for k c
      using that assms(3) False gh
      by (intro cached_ok_health [OF that]) (auto simp: opens_no_more_def map_laws)
    then show ?thesis using routes.all_hits_mono [OF h1] False by simp
  qed
  moreover have "health_ok (AList.update n h' (health t))"
    using assms(1,2) by (intro health_ok_update) (simp_all add: tenant_inv_def)
  ultimately show ?thesis
    using assms(1) c1 cache_inv_invalidate [OF c1] gh by (auto simp: tenant_inv_def distinct_update)
qed

section \<open>The invariant of the router\<close>

definition router_inv :: "router \<Rightarrow> bool" where
  "router_inv r \<longleftrightarrow> distinct_keys (tenants r)
     \<and> (\<forall>tid t. map_of (tenants r) tid = Some t \<longrightarrow> tenant_inv t)
     \<and> audit.log_ok (audit_log r) \<and> ap_capacity (audit_log r) = AUDIT_EVENT_MEMORY_LIMIT"

text \<open>
  Every operation on the shared state.  A \<open>route\<close> call of one client is a fast step and, when it
  misses, a slow step; any other steps may come between them.
\<close>

inductive router_step :: "router \<Rightarrow> router \<Rightarrow> bool" where
  step_add_tenant: "router_step r (add_tenant tid r)"
| step_cost_model: "wf_cost_model m \<Longrightarrow> router_step r (set_cost_model tid m r)"
| step_health_policy: "router_step r (snd (try_set_health_policy tid p r))"
| step_add_edge: "wf_edge e \<Longrightarrow> length (id_to_node (graph (tenant_or_default r tid))) + 2 < 2 ^ 32 - 1
    \<Longrightarrow> router_step r (add_edge tid e r)"
| step_result: "router_step r (record_result now tid n ok latency r)"
| step_force: "router_step r (snd (force_half_open tid n r))"
| step_probe: "router_step r (snd (run_recovery_probe_once cd now r))"
| step_fast: "router_step r (snd (route_fast tid start goal r))"
| step_slow: "router_step r (snd (route_slow tid start goal r))"

inductive router_reachable :: "router \<Rightarrow> bool" where
  reach_new: "router_reachable router_new"
| reach_step: "router_reachable r \<Longrightarrow> router_step r r' \<Longrightarrow> router_reachable r'"

inductive_cases router_stepE: "router_step r r'"

lemma tenants_push_event [simp]: "tenants (push_event ev r) = tenants r"
  by (simp add: push_event_def)

lemma tenants_put: "map_of (tenants (put_tenant tid t r)) tid' = (if tid' = tid then Some t else map_of (tenants r) tid')"
  by (simp add: put_tenant_def map_laws)

lemma audit_log_put [simp]: "audit_log (put_tenant tid t r) = audit_log r"
  by (simp add: put_tenant_def)

lemma router_inv_new: "router_inv router_new"
  by (simp add: router_inv_def router_new_def audit_log_ok audit_new_def AUDIT_EVENT_MEMORY_LIMIT_def)

lemma router_inv_push: "router_inv r \<Longrightarrow> router_inv (push_event ev r)"
  using audit.log_ok_push [of "audit_log r" ev] audit.cap_push [of ev "audit_log r"]
  by (simp add: router_inv_def push_event_def)

lemma router_inv_put: "router_inv r \<Longrightarrow> tenant_inv t \<Longrightarrow> router_inv (put_tenant tid t r)"
  by (simp add: router_inv_def tenants_put) (simp add: put_tenant_def distinct_update)

lemma router_inv_tenant: "router_inv r \<Longrightarrow> map_of (tenants r) tid = Some t \<Longrightarrow> tenant_inv t"
  by (simp add: router_inv_def)

lemma tenant_inv_or_default: "router_inv r \<Longrightarrow> tenant_inv (tenant_or_default r tid)"
  by (auto simp: tenant_or_default_def get_or_def tenant_inv_default router_inv_tenant split: option.split)

lemmas router_inv_intros = router_inv_push router_inv_put tenant_inv_or_default

subsection \<open>Each operation\<close>

lemma result_tracker:
  assumes "ht_inv h" "record_result_with_policy now ok l p h = (changed, h')"
  shows "ht_inv h'" "\<not> changed \<Longrightarrow> ht_state h' = ht_state h"
proof -
  show "ht_inv h'" using ht_inv_step [OF ht_step.result [of p h now ok l] assms(1)] assms(2) by simp
  show "\<not> changed \<Longrightarrow> ht_state h' = ht_state h"
    using assms(2) by (auto simp: record_result_with_policy_def Let_def)
qed

lemma tracker_or_default:
  "tenant_inv t \<Longrightarrow> ht_inv (get_or default_health_tracker (health t) n)"
  by (auto simp: get_or_def tenant_inv_def ht_inv_default split: option.split intro: health_ok_lookup)

lemma record_result_inv: "router_inv r \<Longrightarrow> router_inv (record_result now tid n ok l r)"
proof -
  assume r: "router_inv r"
  let ?t = "tenant_or_default r tid" and ?h = "get_or default_health_tracker (health (tenant_or_default r tid)) n"
  obtain changed h' where h': "record_result_with_policy now ok l (health_policy_of ?t) ?h = (changed, h')"
    by (metis surj_pair)
  have t: "tenant_inv ?t" using r by (rule tenant_inv_or_default)
  note res = result_tracker [OF tracker_or_default [OF t] h']
  have "ht_state h' = Open \<longrightarrow> changed \<or> (\<exists>h. map_of (health ?t) n = Some h \<and> ht_state h = Open)"
    using res(2) by (cases changed; cases "map_of (health ?t) n") (auto simp: get_or_def default_health_tracker_def)
  from tenant_inv_tracker [OF t res(1) this] show ?thesis
    using r h' by (simp add: record_result_def Let_def router_inv_push router_inv_put)
qed

lemma force_tracker:
  "tracker_force_half_open h = (True, h') \<Longrightarrow> ht_inv h \<Longrightarrow> ht_inv h' \<and> ht_state h' = HalfOpen"
  using ht_inv_step [OF ht_step.force, of h] by (auto simp: tracker_force_half_open_def split: if_splits)

lemma force_half_open_inv: "router_inv r \<Longrightarrow> router_inv (snd (force_half_open tid n r))"
proof -
  assume r: "router_inv r"
  consider "snd (force_half_open tid n r) = r"
    | (opened) t h h' where "map_of (tenants r) tid = Some t" "map_of (health t) n = Some h"
        "tracker_force_half_open h = (True, h')"
        "snd (force_half_open tid n r) = push_event (RecoveryProbeOpened tid n)
           (put_tenant tid (invalidate_for_node n (t\<lparr>health := AList.update n h' (health t)\<rparr>)) r)"
    by (cases "map_of (tenants r) tid"; simp add: force_half_open_def)
       (force split: option.splits prod.splits)
  then show ?thesis
  proof cases
    case opened
    have t: "tenant_inv t" using r opened(1) by (rule router_inv_tenant)
    have h: "ht_inv h' \<and> ht_state h' = HalfOpen"
      using t opened(2) by (intro force_tracker [OF opened(3)]) (auto simp: tenant_inv_def intro: health_ok_lookup)
    then show ?thesis
      using tenant_inv_tracker [OF t, of h' True n] r opened(4)
      by (simp add: router_inv_push router_inv_put)
  qed (use r in simp)
qed

subsection \<open>The probe\<close>

lemma probe_tracker_inv: "ht_inv t \<Longrightarrow> ht_inv (snd (transition_to_half_open_if_ready cd now t))"
  using ht_inv_step [OF ht_step.probe] .

lemma probe_tracker_open:
  "ht_state (snd (transition_to_half_open_if_ready cd now t)) = Open \<Longrightarrow> ht_state t = Open"
  by (auto simp: transition_to_half_open_if_ready_def split: if_splits option.splits)

lemma map_of_probe:
  "map_of (probe_trackers cd now h) n = map_option (\<lambda>t. snd (transition_to_half_open_if_ready cd now t)) (map_of h n)"
  by (simp add: probe_trackers_def map_of_map)

lemma probe_trackers_keys: "map fst (probe_trackers cd now h) = map fst h"
  by (simp add: probe_trackers_def split_def comp_def)

lemma tenant_inv_probe:
  assumes "tenant_inv t"
  shows "tenant_inv (t\<lparr>health := probe_trackers cd now (health t)\<rparr>)"
proof -
  let ?t = "t\<lparr>health := probe_trackers cd now (health t)\<rparr>"
  have "cached_ok ?t k c" if "cached_ok t k c" for k c
    using that by (rule cached_ok_health) (auto simp: opens_no_more_def map_of_probe probe_tracker_open)
  then have "routes.all_hits (cached_ok ?t) ?t"
    using assms by (auto simp: tenant_inv_def all_hits_def hit_def)
  moreover have "health_ok (probe_trackers cd now (health t))"
    using assms probe_tracker_inv by (force simp: tenant_inv_def health_ok_def probe_trackers_def)
  ultimately show ?thesis using assms by (simp add: tenant_inv_def cache_inv_def probe_trackers_keys)
qed

lemma probe_opened_inv: "router_inv r \<Longrightarrow> router_inv (probe_opened p r)"
  by (cases p) (auto simp: probe_opened_def intro!: router_inv_intros tenant_inv_invalidate
      dest: router_inv_tenant split: option.split)

lemma run_recovery_probe_inv: "router_inv r \<Longrightarrow> router_inv (snd (run_recovery_probe_once cd now r))"
proof -
  assume r: "router_inv r"
  let ?r = "r\<lparr>tenants := map (\<lambda>(tid, t). (tid, t\<lparr>health := probe_trackers cd now (health t)\<rparr>)) (tenants r)\<rparr>"
  have "router_inv ?r"
    using r tenant_inv_probe by (auto simp: router_inv_def map_of_map split_def comp_def)
  moreover have "router_inv (fold probe_opened ps r')" if "router_inv r'" for ps r'
    using that by (induction ps arbitrary: r') (simp_all add: probe_opened_inv)
  ultimately show ?thesis by (simp add: run_recovery_probe_once_def Let_def)
qed

subsection \<open>Routing\<close>

lemma route_fast_inv: "router_inv r \<Longrightarrow> router_inv (snd (route_fast tid start goal r))"
  by (auto simp: route_fast_def router_inv_push split: option.split)

text \<open>The route a search returns may be cached.\<close>

lemma search_cached_ok:
  assumes "tenant_inv t" "shortest_path (health t) (cost_model t) (graph t) start goal = Some rt"
  shows "cached_ok t \<lparr>rk_start = start, rk_goal = goal\<rparr>
    \<lparr>cp_path = nodes rt, cp_weight = total_cost rt, touched_nodes = set (nodes rt)\<rparr>"
  using assms route_safe [of "graph t" "cost_model t" "health t" start goal rt]
  by (simp add: cached_ok_def tenant_inv_def)

lemma route_slow_inv: "router_inv r \<Longrightarrow> router_inv (snd (route_slow tid start goal r))"
proof -
  assume r: "router_inv r"
  let ?k = "\<lparr>rk_start = start, rk_goal = goal\<rparr>"
  show ?thesis
  proof (cases "map_of (tenants r) tid")
    case None
    then show ?thesis using r by (simp add: route_slow_def router_inv_push Let_def)
  next
    case (Some t)
    have t: "tenant_inv t" using r Some by (rule router_inv_tenant)
    show ?thesis
    proof (cases "get_cached ?k t")
      case (Pair c t1)
      then have "tenant_inv t1" using tenant_inv_get [OF t, of ?k] by simp
      then show ?thesis
        using Some r t search_cached_ok [OF t, of start goal]
        by (auto simp: route_slow_def Let_def Pair split: option.split
            intro!: router_inv_intros tenant_inv_insert)
    qed
  qed
qed

lemma set_cost_model_inv: "router_inv r \<Longrightarrow> wf_cost_model m \<Longrightarrow> router_inv (set_cost_model tid m r)"
  using tenant_inv_or_default [of r tid]
  by (auto simp: set_cost_model_def try_set_cost_model_def tenant_inv_def split: sum.split
      intro!: router_inv_put tenant_inv_invalidate_all)

lemma set_health_policy_inv: "router_inv r \<Longrightarrow> router_inv (snd (try_set_health_policy tid p r))"
  using tenant_inv_or_default [of r tid]
  by (auto simp: try_set_health_policy_def tenant_inv_def split: sum.split
      intro!: router_inv_put tenant_inv_invalidate_all)

lemma add_edge_inv:
  "router_inv r \<Longrightarrow> wf_edge e \<Longrightarrow> length (id_to_node (graph (tenant_or_default r tid))) + 2 < 2 ^ 32 - 1
   \<Longrightarrow> router_inv (add_edge tid e r)"
  using tenant_inv_or_default [of r tid]
  by (auto simp: add_edge_def Let_def tenant_inv_def intro!: router_inv_put tenant_inv_invalidate_all graph_add_edge_wf)

lemma router_inv_step: "router_step r r' \<Longrightarrow> router_inv r \<Longrightarrow> router_inv r'"
  by (erule router_stepE)
     (simp_all add: add_tenant_def router_inv_intros set_cost_model_inv set_health_policy_inv add_edge_inv
        record_result_inv force_half_open_inv run_recovery_probe_inv route_fast_inv route_slow_inv)

lemma router_reachable_inv: "router_reachable r \<Longrightarrow> router_inv r"
  by (induction rule: router_reachable.induct) (auto intro: router_inv_new router_inv_step)

end
