(* ===== verification/Execution.thy ===== *)
theory Execution
  imports Backends RouterSafety
begin

text \<open>
  \<open>src/src/execution.rs\<close> and \<open>src/src/health_monitor.rs\<close>: execution through a declared backend, the
  check of its result, and the report to the health monitor.  The channel between the two is
  tokio's: \<open>send\<close> is a parameter, a function from a message and the channel to whether it was
  accepted and the channel afterwards.
\<close>

record tool_result =
  tool_tenant :: tenant_id
  tool_node :: node_id
  tool_success :: bool
  tool_latency_ms :: u64

record execution_request =
  er_request_id :: string
  er_tenant :: string
  er_node :: string
  er_backend_id :: string
  er_model :: model_reference
  er_strategy :: kv_strategy

datatype execution_error =
    InvalidRequest | BackendError backend_registry_error | MissingLatency | BackendIdentityMismatch
  | InconsistentBackendResult | HealthMonitorClosed

fun execution_error_display :: "(backend_registry_error \<Rightarrow> string) \<Rightarrow> execution_error \<Rightarrow> string" where
  "execution_error_display show_err InvalidRequest = ''execution request is invalid''"
| "execution_error_display show_err (BackendError e) = ''backend execution rejected: '' @ show_err e"
| "execution_error_display show_err MissingLatency = ''backend result omitted observed latency''"
| "execution_error_display show_err BackendIdentityMismatch = ''backend result identity did not match request''"
| "execution_error_display show_err InconsistentBackendResult =
     ''backend result has inconsistent success and failure fields''"
| "execution_error_display show_err HealthMonitorClosed = ''health monitor is unavailable''"

definition execute ::
  "(tool_result \<Rightarrow> 'c \<Rightarrow> bool \<times> 'c) \<Rightarrow> backend_registry \<Rightarrow> execution_request \<Rightarrow> 'c
   \<Rightarrow> (execution_error + backend_result) \<times> 'c" where
  "execute send reg q ch =
     (if \<not> list_all valid_identifier [er_request_id q, er_tenant q, er_node q, er_backend_id q,
            model_id (er_model q), model_version (er_model q)]
      then (Inl InvalidRequest, ch)
      else case registry_execute reg (er_backend_id q)
                  \<lparr>br_request_id = er_request_id q, br_model = er_model q, br_strategy = er_strategy q\<rparr> of
             Inl e \<Rightarrow> (Inl (BackendError e), ch)
           | Inr res \<Rightarrow>
               if backend res \<noteq> er_backend_id q then (Inl BackendIdentityMismatch, ch)
               else if res_success res = (failure res \<noteq> None) then (Inl InconsistentBackendResult, ch)
               else case res_latency_ms res of
                      None \<Rightarrow> (Inl MissingLatency, ch)
                    | Some l \<Rightarrow>
                        (case send \<lparr>tool_tenant = er_tenant q, tool_node = er_node q,
                                     tool_success = res_success res, tool_latency_ms = l\<rparr> ch of
                           (True, ch') \<Rightarrow> (Inr res, ch')
                         | (False, ch') \<Rightarrow> (Inl HealthMonitorClosed, ch')))"

text \<open>The consumer applies every received result to the router, at the instant it handles it.\<close>

definition consume :: "instant \<times> tool_result \<Rightarrow> router \<Rightarrow> router" where
  "consume m r = (case m of (now, t) \<Rightarrow>
     record_result now (tool_tenant t) (tool_node t) (tool_success t) (tool_latency_ms t) r)"

text \<open>
  Exactly one outcome is reported, and only a validated one.  An execution that succeeds sent
  one message with the tenant, the node, the outcome and the latency of the backend's result,
  which names the selected backend and is consistent; when the channel is closed the message was
  refused; after every other error nothing was sent.
\<close>
theorem execution_reports_validated:
  shows "case execute send reg q ch of
      (Inr res, ch') \<Rightarrow> (\<exists>l. res_latency_ms res = Some l
         \<and> send \<lparr>tool_tenant = er_tenant q, tool_node = er_node q, tool_success = res_success res,
                 tool_latency_ms = l\<rparr> ch = (True, ch'))
         \<and> backend res = er_backend_id q \<and> (res_success res \<longleftrightarrow> failure res = None)
         \<and> registry_execute reg (er_backend_id q) \<lparr>br_request_id = er_request_id q, br_model = er_model q,
              br_strategy = er_strategy q\<rparr> = Inr res
    | (Inl HealthMonitorClosed, ch') \<Rightarrow> (\<exists>t. send t ch = (False, ch'))
    | (Inl _, ch') \<Rightarrow> ch' = ch"
  by (auto simp: execute_def split: if_splits sum.split prod.splits option.splits bool.splits execution_error.split)

text \<open>
  The monitor's consumer is a sequence of router steps: whatever results are received, the
  router stays reachable, so every routing guarantee holds while outcomes stream in.
\<close>
theorem consumer_keeps_router_reachable:
  assumes "router_reachable r"
  shows "router_reachable (fold consume ms r)"
  using assms
proof (induction ms arbitrary: r)
  case (Cons m ms)
  have "router_step r (consume m r)" by (cases m) (simp add: consume_def step_result)
  then show ?case using Cons by (simp add: reach_step)
qed simp

theorem consumer_keeps_router_reachable_witness:
  "router_reachable (fold consume [(0, \<lparr>tool_tenant = ''t'', tool_node = ''n'', tool_success = False,
     tool_latency_ms = 3\<rparr>)] router_new)"
  by (rule consumer_keeps_router_reachable [OF reach_new])

end
