(* ===== verification/Observations.thy ===== *)
theory Observations
  imports F64
begin

text \<open>
  \<open>src/src/intelligence.rs\<close>, first part: validated observations, the versioned world state, the
  exponentially weighted averages that predictions come from, and the tracker of prediction
  errors.  Reading the clock is an argument of the operation that reads it.
\<close>

section \<open>Square roots\<close>

text \<open>
  \<open>f64::sqrt\<close> is correctly rounded.  \<open>sqrt_digits\<close> has more than 53 significant bits of the root
  and half a unit more when it is not exact, which rounds as the root itself does.
\<close>

fun isqrt :: "nat \<Rightarrow> nat" where
  "isqrt n = (if n = 0 then 0
     else let r = 2 * isqrt (n div 4) in if (r + 1) * (r + 1) \<le> n then r + 1 else r)"

declare isqrt.simps [simp del]

lemma isqrt_spec: "isqrt n * isqrt n \<le> n \<and> n < (isqrt n + 1) * (isqrt n + 1)"
proof (induction n rule: isqrt.induct)
  case (1 n)
  show ?case
  proof (cases "n = 0")
    case True
    then show ?thesis by (simp add: isqrt.simps [of 0])
  next
    case False
    define s where "s = isqrt (n div 4)"
    have s: "s * s \<le> n div 4" "n div 4 < (s + 1) * (s + 1)" using 1 [OF False] by (simp_all add: s_def)
    then have "4 * (s * s) \<le> n" "n < 4 * ((s + 1) * (s + 1))" by linarith+
    moreover have "isqrt n = (if (2 * s + 1) * (2 * s + 1) \<le> n then 2 * s + 1 else 2 * s)"
      using False by (simp add: isqrt.simps [of n] Let_def s_def)
    ultimately show ?thesis by (auto simp: algebra_simps)
  qed
qed

definition sqrt_digits :: "rat \<Rightarrow> rat" where
  "sqrt_digits x =
     (let k = nat ((114 - lead_exp x) div 2);
          n = isqrt (nat \<lfloor>x * 4 ^ k\<rfloor>)
      in (of_nat n + (if of_nat n * of_nat n = x * 4 ^ k then 0 else 1 / 2)) / 2 ^ k)"

fun fsqrt :: "f64 \<Rightarrow> f64" where
  "fsqrt (Fin s m) = (if m = 0 then Fin s 0 else if s then f_nan else Fin False (rnd (sqrt_digits m)))"
| "fsqrt (Inf s) = (if s then f_nan else f_inf)"
| "fsqrt (NaN s p) = f_nan"

lemma rnd_digits_nonneg: "0 \<le> m \<Longrightarrow> 0 \<le> rnd (sqrt_digits m)"
  by (intro rnd_nonneg)

lemma fsqrt_nonneg: "fge0 a \<Longrightarrow> fge0 (fsqrt a)"
  by (cases a) (auto simp: rnd_digits_nonneg)

section \<open>Errors and observations\<close>

datatype intelligence_error =
    InvalidObservation string | StaleWorldState | InsufficientData | InvalidConfiguration string

fun intelligence_error_display :: "intelligence_error \<Rightarrow> string" where
  "intelligence_error_display (InvalidObservation msg) = ''invalid observation: '' @ msg"
| "intelligence_error_display StaleWorldState = ''stale world state''"
| "intelligence_error_display InsufficientData = ''insufficient data for prediction''"
| "intelligence_error_display (InvalidConfiguration msg) = ''invalid configuration: '' @ msg"

record observation =
  ob_schema_version :: u8
  ob_request_id :: string
  ob_tenant :: tenant_id
  ob_model :: string
  ob_model_version :: string
  ob_backend_id :: string
  ob_backend_version :: string
  ob_compute_node_id :: string
  ob_accelerator :: string
  ob_region :: string
  ob_prefill_tokens :: u64
  ob_decode_tokens :: u64
  ob_total_tokens :: u64
  ob_queue_delay_ms :: u64
  ob_ttft_ms :: u64
  ob_tpot_ms :: u64
  ob_e2e_latency_ms :: u64
  ob_gpu_utilization :: f64
  ob_gpu_memory_used_mb :: u64
  ob_gpu_memory_total_mb :: u64
  ob_kv_hit :: bool
  ob_kv_tokens :: u64
  ob_kv_memory_mb :: u64
  ob_kv_transfer_ms :: u64
  ob_network_transfer_ms :: u64
  ob_retries :: u32
  ob_failure_class :: "string option"
  ob_quality_score :: f64
  ob_estimated_cost :: f64
  ob_actual_cost :: f64
  ob_timestamp :: system_time
  ob_world_revision :: u64

definition valid_f64_unit :: "f64 \<Rightarrow> bool" where
  "valid_f64_unit v \<longleftrightarrow> is_finite v \<and> f_le f_zero v \<and> f_le v f_one"

definition valid_f64_nonneg :: "f64 \<Rightarrow> bool" where
  "valid_f64_nonneg v \<longleftrightarrow> is_finite v \<and> f_ge v f_zero"

definition observation_validate :: "observation \<Rightarrow> intelligence_error + unit" where
  "observation_validate o1 =
     (if \<not> valid_identifier (ob_request_id o1) then Inl (InvalidObservation ''invalid request_id'')
      else if \<not> valid_identifier (ob_tenant o1) then Inl (InvalidObservation ''invalid tenant'')
      else if \<not> valid_identifier (ob_model o1) then Inl (InvalidObservation ''invalid model'')
      else if \<not> valid_identifier (ob_backend_id o1) then Inl (InvalidObservation ''invalid backend_id'')
      else if \<not> valid_f64_unit (ob_gpu_utilization o1)
      then Inl (InvalidObservation ''gpu_utilization must be 0.0..=1.0'')
      else if \<not> valid_f64_unit (ob_quality_score o1)
      then Inl (InvalidObservation ''quality_score must be 0.0..=1.0'')
      else if \<not> valid_f64_nonneg (ob_estimated_cost o1)
      then Inl (InvalidObservation ''estimated_cost must be finite and non-negative'')
      else if \<not> valid_f64_nonneg (ob_actual_cost o1)
      then Inl (InvalidObservation ''actual_cost must be finite and non-negative'')
      else Inr ())"

section \<open>The world state\<close>

record world_state =
  ws_schema_version :: u8
  ws_revision :: u64
  observed_at :: system_time
  ws_nodes :: "node_id list"
  ws_backends :: "string list"
  model_states :: "(string, string) hmap"
  queues :: "(string, u64) hmap"
  kv_states :: "(string, string) hmap"
  network_states :: "(string, string) hmap"
  health_states :: "(string, string) hmap"

text \<open>\<open>elapsed()\<close> is an error when the clock is before the time stamp.\<close>

definition older_than :: "system_time \<Rightarrow> duration \<Rightarrow> system_time \<Rightarrow> bool" where
  "older_than now max_age t \<longleftrightarrow> now < t \<or> now - t > int max_age"

definition is_stale :: "system_time \<Rightarrow> duration \<Rightarrow> world_state \<Rightarrow> bool" where
  "is_stale now max_age w = older_than now max_age (observed_at w)"

record world_manager =
  wm_state :: world_state
  max_observation_age :: duration
  observations_accepted :: u64
  observations_rejected :: u64

definition world_manager_new :: "system_time \<Rightarrow> duration \<Rightarrow> world_manager" where
  "world_manager_new now age =
     \<lparr>wm_state = \<lparr>ws_schema_version = 1, ws_revision = 0, observed_at = now, ws_nodes = [], ws_backends = [],
        model_states = [], queues = [], kv_states = [], network_states = [], health_states = []\<rparr>,
      max_observation_age = age, observations_accepted = 0, observations_rejected = 0\<rparr>"

definition push_new :: "'a \<Rightarrow> 'a list \<Rightarrow> 'a list" where
  "push_new x xs = (if x \<in> set xs then xs else xs @ [x])"

definition ingest :: "system_time \<Rightarrow> observation \<Rightarrow> world_manager \<Rightarrow> (intelligence_error + u64) \<times> world_manager" where
  "ingest now o1 m =
     (case observation_validate o1 of
        Inl e \<Rightarrow> (Inl e, m)
      | Inr _ \<Rightarrow>
          (let w = wm_state m;
               w' = w\<lparr>ws_revision := ws_revision w + 1, observed_at := now,
                      ws_nodes := push_new (ob_compute_node_id o1) (ws_nodes w),
                      ws_backends := push_new (ob_backend_id o1) (ws_backends w),
                      health_states := AList.update (ob_backend_id o1) ''observed'' (health_states w)\<rparr>
           in (Inr (ws_revision w'), m\<lparr>wm_state := w', observations_accepted := observations_accepted m + 1\<rparr>)))"

definition world_snapshot :: "system_time \<Rightarrow> world_manager \<Rightarrow> intelligence_error + world_state" where
  "world_snapshot now m =
     (if is_stale now (max_observation_age m) (wm_state m) then Inl StaleWorldState else Inr (wm_state m))"

section \<open>Predictions\<close>

record prediction =
  pd_value :: f64
  lower_bound :: f64
  upper_bound :: f64
  pd_confidence :: f64
  pd_sample_count :: u64
  pd_model_version :: string
  generated_at :: system_time
  source_revision :: u64

record ewma =
  ew_alpha :: f64
  ew_mean :: f64
  ew_variance :: f64
  ew_sample_count :: u64
  ew_min_samples :: u64
  ew_model_version :: string

definition ewma_new :: "f64 \<Rightarrow> u64 \<Rightarrow> ewma" where
  "ewma_new alpha min_samples =
     \<lparr>ew_alpha = fclamp alpha (f64_lit (1/100)) (f64_lit (99/100)), ew_mean = f_zero, ew_variance = f_zero,
      ew_sample_count = 0, ew_min_samples = max min_samples 1, ew_model_version = ''ewma-v1''\<rparr>"

definition ewma_update :: "f64 \<Rightarrow> ewma \<Rightarrow> ewma" where
  "ewma_update v t =
     (if \<not> is_finite v \<or> f_lt v f_zero then t
      else let t = t\<lparr>ew_sample_count := ew_sample_count t + 1\<rparr>
           in if ew_sample_count t = 1 then t\<lparr>ew_mean := v, ew_variance := f_zero\<rparr>
              else let delta = fsub v (ew_mean t)
                   in t\<lparr>ew_mean := fadd (ew_mean t) (fmul (ew_alpha t) delta),
                        ew_variance := fmul (fsub f_one (ew_alpha t))
                          (fadd (ew_variance t) (fmul (fmul (ew_alpha t) delta) delta))\<rparr>)"

definition ewma_predict :: "system_time \<Rightarrow> u64 \<Rightarrow> ewma \<Rightarrow> intelligence_error + prediction" where
  "ewma_predict now source t =
     (if ew_sample_count t < ew_min_samples t then Inl InsufficientData
      else let stddev = fsqrt (ew_variance t);
               n = f64_of_u64 (ew_sample_count t);
               conf = fclamp (fdiv n (fadd n (f64_lit 10))) f_zero f_one
           in Inr \<lparr>pd_value = ew_mean t,
                lower_bound = fmax (fsub (ew_mean t) (fmul (f64_lit 2) stddev)) f_zero,
                upper_bound = fadd (ew_mean t) (fmul (f64_lit 2) stddev),
                pd_confidence = conf, pd_sample_count = ew_sample_count t,
                pd_model_version = ew_model_version t, generated_at = now, source_revision = source\<rparr>)"

record prediction_engine =
  trackers :: "(string, ewma) hmap"
  pe_alpha :: f64
  pe_min_samples :: u64

definition engine_new :: "f64 \<Rightarrow> u64 \<Rightarrow> prediction_engine" where
  "engine_new alpha min_samples = \<lparr>trackers = [], pe_alpha = alpha, pe_min_samples = min_samples\<rparr>"

definition observe :: "string \<Rightarrow> f64 \<Rightarrow> prediction_engine \<Rightarrow> prediction_engine" where
  "observe key v e =
     (let t = get_or (ewma_new (pe_alpha e) (pe_min_samples e)) (trackers e) key
      in e\<lparr>trackers := AList.update key (ewma_update v t) (trackers e)\<rparr>)"

definition engine_predict :: "system_time \<Rightarrow> string \<Rightarrow> u64 \<Rightarrow> prediction_engine \<Rightarrow> intelligence_error + prediction" where
  "engine_predict now key source e =
     (case map_of (trackers e) key of None \<Rightarrow> Inl InsufficientData | Some t \<Rightarrow> ewma_predict now source t)"

definition tracker_count :: "prediction_engine \<Rightarrow> nat" where
  "tracker_count e = length (trackers e)"

section \<open>Prediction errors\<close>

record prediction_error =
  metric :: string
  predicted :: f64
  actual :: f64
  absolute_error :: f64
  relative_error :: f64
  er_confidence :: f64
  er_context :: string
  prediction_model_version :: string
  observation_revision :: u64

text \<open>\<open>f64::EPSILON\<close> is \<open>2\<^bsup>-52\<^esup>\<close>.\<close>

definition f_epsilon :: f64 where
  "f_epsilon = Fin False (1 / 4503599627370496)"

definition error_compute :: "string \<Rightarrow> f64 \<Rightarrow> f64 \<Rightarrow> f64 \<Rightarrow> string \<Rightarrow> u64 \<Rightarrow> prediction_error" where
  "error_compute m p a conf version revision =
     (let abs_err = fabs (fsub p a);
          rel_err = (if f_gt (fabs a) f_epsilon then fdiv abs_err (fabs a) else f_zero)
      in \<lparr>metric = m, predicted = p, actual = a, absolute_error = abs_err, relative_error = rel_err,
          er_confidence = conf, er_context = [], prediction_model_version = version,
          observation_revision = revision\<rparr>)"

record error_tracker =
  et_errors :: "prediction_error list"
  max_errors :: nat

definition error_tracker_new :: "nat \<Rightarrow> error_tracker" where
  "error_tracker_new n = \<lparr>et_errors = [], max_errors = min (max n 1) 100000\<rparr>"

definition error_record :: "prediction_error \<Rightarrow> error_tracker \<Rightarrow> error_tracker" where
  "error_record e t = t\<lparr>et_errors := push_when_at_least (max_errors t) e (et_errors t)\<rparr>"

definition f_sum :: "f64 list \<Rightarrow> f64" where
  "f_sum xs = foldl fadd f_zero xs"

definition mae :: "error_tracker \<Rightarrow> f64" where
  "mae t = (if et_errors t = [] then f_zero
     else fdiv (f_sum (map absolute_error (et_errors t))) (f64_of_nat (length (et_errors t))))"

definition rmse :: "error_tracker \<Rightarrow> f64" where
  "rmse t = (if et_errors t = [] then f_zero
     else fsqrt (fdiv (f_sum (map (\<lambda>e. fmul (absolute_error e) (absolute_error e)) (et_errors t)))
                  (f64_of_nat (length (et_errors t)))))"

text \<open>The index of the code; \<open>None\<close> is the panic of an index out of range.\<close>

definition percentile_error :: "f64 \<Rightarrow> error_tracker \<Rightarrow> f64 option" where
  "percentile_error p t =
     (if et_errors t = [] then Some f_zero
      else let sorted = sort (map absolute_error (et_errors t));
               index = f64_to_nat (2 ^ 64 - 1) (fround (fmul (f64_of_nat (length sorted - 1)) p))
           in if index < length sorted then Some (sorted ! index) else None)"

definition p50_error :: "error_tracker \<Rightarrow> f64 option" where
  "p50_error t = percentile_error (f64_lit (1/2)) t"

definition p95_error :: "error_tracker \<Rightarrow> f64 option" where
  "p95_error t = percentile_error (f64_lit (95/100)) t"

interpretation errors: bounded_log error_record et_errors max_errors
  by unfold_locales (auto simp: error_record_def push_when_at_least_def)

section \<open>Properties\<close>

text \<open>
  The world revision counts the accepted observations: after any sequence of observations
  the revision and the accepted counter are the number of valid ones, and every node and backend
  a valid observation names is known, once.
\<close>

definition ingest_all :: "(system_time \<times> observation) list \<Rightarrow> world_manager \<Rightarrow> world_manager" where
  "ingest_all os m = fold (\<lambda>(now, o1) m. snd (ingest now o1 m)) os m"

definition valid_count :: "(system_time \<times> observation) list \<Rightarrow> nat" where
  "valid_count os = length (filter (\<lambda>(_, o1). observation_validate o1 = Inr ()) os)"

lemma ingest_cases:
  obtains "observation_validate o1 = Inr ()" "ws_revision (wm_state (snd (ingest now o1 m))) = ws_revision (wm_state m) + 1"
      "observations_accepted (snd (ingest now o1 m)) = observations_accepted m + 1"
      "ws_nodes (wm_state (snd (ingest now o1 m))) = push_new (ob_compute_node_id o1) (ws_nodes (wm_state m))"
      "ws_backends (wm_state (snd (ingest now o1 m))) = push_new (ob_backend_id o1) (ws_backends (wm_state m))"
      "observations_rejected (snd (ingest now o1 m)) = observations_rejected m"
      "fst (ingest now o1 m) = Inr (ws_revision (wm_state m) + 1)"
  | "observation_validate o1 \<noteq> Inr ()" "snd (ingest now o1 m) = m" "isl (fst (ingest now o1 m))"
  by (cases "observation_validate o1") (auto simp: ingest_def Let_def)

lemma ingest_all_Nil: "ingest_all [] m = m" "valid_count [] = 0"
  by (simp_all add: ingest_all_def valid_count_def)

lemma ingest_all_Cons:
  "ingest_all ((now, o1) # os) m = ingest_all os (snd (ingest now o1 m))"
  "valid_count ((now, o1) # os) = (if observation_validate o1 = Inr () then Suc (valid_count os) else valid_count os)"
  by (simp_all add: ingest_all_def valid_count_def)

lemma ingest_all_counts:
  "ws_revision (wm_state (ingest_all os m)) = ws_revision (wm_state m) + of_nat (valid_count os)"
  "observations_accepted (ingest_all os m) = observations_accepted m + of_nat (valid_count os)"
  "observations_rejected (ingest_all os m) = observations_rejected m"
proof (induction os arbitrary: m)
  case (Cons p os)
  obtain now o1 where p: "p = (now, o1)" by (cases p)
  {
    case 1
    show ?case by (cases rule: ingest_cases [of o1 now m]) (simp_all add: p ingest_all_Cons Cons)
  next
    case 2
    show ?case by (cases rule: ingest_cases [of o1 now m]) (simp_all add: p ingest_all_Cons Cons)
  next
    case 3
    show ?case by (cases rule: ingest_cases [of o1 now m]) (simp_all add: p ingest_all_Cons Cons)
  }
qed (simp_all add: ingest_all_Nil)

lemma set_push_new: "set (push_new x xs) = insert x (set xs)" "distinct (push_new x xs) = distinct xs"
  by (auto simp: push_new_def)

lemma ingest_all_nodes:
  "set (ws_nodes (wm_state (ingest_all os m))) = set (ws_nodes (wm_state m))
     \<union> {ob_compute_node_id o1 |now o1. (now, o1) \<in> set os \<and> observation_validate o1 = Inr ()}"
  "distinct (ws_nodes (wm_state (ingest_all os m))) = distinct (ws_nodes (wm_state m))"
proof (induction os arbitrary: m)
  case (Cons p os)
  obtain now o1 where p: "p = (now, o1)" by (cases p)
  {
    case 1
    show ?case
      by (cases rule: ingest_cases [of o1 now m])
         (simp_all add: p ingest_all_Cons Cons set_push_new, blast, blast)
  next
    case 2
    show ?case by (cases rule: ingest_cases [of o1 now m]) (simp_all add: p ingest_all_Cons Cons set_push_new)
  }
qed (simp_all add: ingest_all_Nil)

theorem world_revision_counts:
  assumes "length os < 2 ^ 64"
  shows "unat (ws_revision (wm_state (ingest_all os (world_manager_new t0 age)))) = valid_count os
    \<and> unat (observations_accepted (ingest_all os (world_manager_new t0 age))) = valid_count os
    \<and> distinct (ws_nodes (wm_state (ingest_all os (world_manager_new t0 age))))
    \<and> set (ws_nodes (wm_state (ingest_all os (world_manager_new t0 age))))
        = {ob_compute_node_id o1 |now o1. (now, o1) \<in> set os \<and> observation_validate o1 = Inr ()}"
proof -
  have "valid_count os < 2 ^ 64"
    using assms length_filter_le [of _ os] unfolding valid_count_def by (rule le_less_trans [rotated])
  then show ?thesis
    using ingest_all_counts [of os "world_manager_new t0 age"] ingest_all_nodes [of os "world_manager_new t0 age"]
    by (simp add: world_manager_new_def unat_of_nat)
qed

theorem world_revision_counts_witness:
  "unat (ws_revision (wm_state (ingest_all [] (world_manager_new 5 3)))) = 0"
  using world_revision_counts [of "[]" 5 3] by (simp add: valid_count_def)

text \<open>
  Rejected observations are never counted: the counter that reports them stays 0 whatever is
  ingested.
\<close>
theorem rejected_count_stays_zero:
  "observations_rejected (ingest_all os (world_manager_new t0 age)) = 0"
  using ingest_all_counts(3) [of os "world_manager_new t0 age"] by (simp add: world_manager_new_def)

text \<open>
  The percentiles of the error tracker never index out of range: after any sequence of
  records each of them is an absolute error still in the window, or 0 for an empty window.
\<close>

lemma percentile_error_total:
  assumes "fbounded 1 p" "length (et_errors t) \<le> 100000"
  shows "\<exists>x. percentile_error p t = Some x \<and> (et_errors t = [] \<and> x = f_zero \<or> x \<in> absolute_error ` set (et_errors t))"
proof (cases "et_errors t = []")
  case False
  let ?s = "sort (map absolute_error (et_errors t))"
  have "f64_to_nat (2 ^ 64 - 1) (fround (fmul (f64_of_nat (length ?s - 1)) p)) \<le> length ?s - 1"
    using assms by (intro percentile_bound) simp_all
  then have i: "f64_to_nat (2 ^ 64 - 1) (fround (fmul (f64_of_nat (length ?s - 1)) p)) < length ?s"
    using False by (cases "et_errors t") auto
  from nth_mem [OF this] have "?s ! f64_to_nat (2 ^ 64 - 1) (fround (fmul (f64_of_nat (length ?s - 1)) p))
      \<in> absolute_error ` set (et_errors t)" by simp
  then show ?thesis using i False by (simp add: percentile_error_def Let_def)
qed (simp add: percentile_error_def)

lemma error_tracker_bounded: "length (et_errors (fold error_record es (error_tracker_new n))) \<le> 100000"
proof -
  have "errors.log_ok (error_tracker_new n)" by (auto simp: errors.log_ok_def error_tracker_new_def)
  from errors.log_ok_fold [OF this, of es]
  have "length (et_errors (fold error_record es (error_tracker_new n))) \<le> max_errors (error_tracker_new n)"
    by (simp add: errors.log_ok_def errors.cap_fold)
  also have "\<dots> \<le> 100000" by (simp add: error_tracker_new_def)
  finally show ?thesis .
qed

theorem error_percentiles_defined:
  fixes es n
  defines "t \<equiv> fold error_record es (error_tracker_new n)"
  shows "\<exists>x y. p50_error t = Some x \<and> p95_error t = Some y
    \<and> {x, y} \<subseteq> (if et_errors t = [] then {f_zero} else absolute_error ` set (et_errors t))"
proof -
  have len: "length (et_errors t) \<le> 100000" by (simp add: t_def error_tracker_bounded)
  have "fbounded 1 (f64_lit (1/2))" "fbounded 1 (f64_lit (95/100))" by (simp_all add: fbounded_f64_lit)
  from percentile_error_total [OF this(1) len] percentile_error_total [OF this(2) len]
  show ?thesis by (auto simp: p50_error_def p95_error_def)
qed

text \<open>
  Predictions need data: a tracker answers exactly when at least the configured number (and
  at least one) of finite non-negative samples has been observed; invalid samples change nothing.
\<close>

definition valid_sample :: "f64 \<Rightarrow> bool" where
  "valid_sample v \<longleftrightarrow> is_finite v \<and> \<not> f_lt v f_zero"

lemma ewma_update_count:
  "ew_sample_count (ewma_update v t) = (if valid_sample v then ew_sample_count t + 1 else ew_sample_count t)"
  "ew_min_samples (ewma_update v t) = ew_min_samples t"
  "\<not> valid_sample v \<Longrightarrow> ewma_update v t = t"
  by (auto simp: ewma_update_def valid_sample_def Let_def)

lemma ewma_fold_count:
  "ew_sample_count (fold ewma_update vs t) = ew_sample_count t + of_nat (length (filter valid_sample vs))"
  "ew_min_samples (fold ewma_update vs t) = ew_min_samples t"
  by (induction vs arbitrary: t) (simp_all add: ewma_update_count)

theorem prediction_needs_samples:
  assumes "length vs < 2 ^ 64"
  shows "isl (ewma_predict now source (fold ewma_update vs (ewma_new alpha k)))
    \<longleftrightarrow> length (filter valid_sample vs) < max (unat k) 1"
proof -
  have "length (filter valid_sample vs) < 2 ^ 64"
    using assms length_filter_le [of valid_sample vs] by linarith
  then have u: "unat (of_nat (length (filter valid_sample vs)) :: u64) = length (filter valid_sample vs)"
    by (simp add: unat_of_nat)
  have m: "unat (max k 1) = max (unat k) 1" by (simp add: max_def word_le_nat_alt)
  show ?thesis
    using u m by (simp add: ewma_predict_def Let_def ewma_fold_count ewma_new_def word_less_nat_alt)
qed

theorem prediction_needs_samples_witness:
  "isl (ewma_predict 0 0 (fold ewma_update [f_zero, f_nan] (ewma_new f_one 2)))"
  using prediction_needs_samples [of "[f_zero, f_nan]" 0 0 f_one 2]
  by (simp add: valid_sample_def f_nan_def f_lt_def)

end
