(* ===== verification/Intelligence.thy ===== *)
theory Intelligence
  imports Observations
begin

text \<open>
  \<open>src/src/intelligence.rs\<close>, second part: the confidence of a decision, the ranking of
  counterfactual candidates, the decision firewall and the bounded decision memory.
\<close>

section \<open>Confidence\<close>

datatype decision_confidence = High | Medium | Low | UnknownConfidence

definition from_score :: "f64 \<Rightarrow> u64 \<Rightarrow> decision_confidence" where
  "from_score conf samples =
     (if samples < 5 then UnknownConfidence
      else if f_ge conf (f64_lit (8/10)) then High
      else if f_ge conf (f64_lit (1/2)) then Medium
      else Low)"

definition is_safe_for_optimization :: "decision_confidence \<Rightarrow> bool" where
  "is_safe_for_optimization c \<longleftrightarrow> c = High \<or> c = Medium"

section \<open>Counterfactual candidates\<close>

datatype 'a operational_value =
    Observed 'a | Predicted 'a | Derived 'a | Configured 'a | Unknown | Unavailable

fun ov_value :: "'a operational_value \<Rightarrow> 'a option" where
  "ov_value (Observed v) = Some v"
| "ov_value (Predicted v) = Some v"
| "ov_value (Derived v) = Some v"
| "ov_value (Configured v) = Some v"
| "ov_value Unknown = None"
| "ov_value Unavailable = None"

definition candidate_id_new :: "string \<Rightarrow> string \<Rightarrow> string \<Rightarrow> string" where
  "candidate_id_new b n strategy = b @ [CHR '':''] @ n @ [CHR '':''] @ strategy"

record counterfactual =
  candidate_id :: string
  cf_backend_id :: string
  cf_compute_node_id :: string
  cf_model :: string
  cf_strategy :: string
  predicted_ttft :: "u64 operational_value"
  predicted_tpot :: "u64 operational_value"
  predicted_e2e :: "u64 operational_value"
  predicted_cost :: "f64 operational_value"
  predicted_failure_probability :: "f64 operational_value"
  predicted_kv_transfer :: "u64 operational_value"
  quality_risk :: "f64 operational_value"
  cf_confidence :: "f64 operational_value"
  feasible :: bool
  cf_rejection_reason :: "string option"

definition unwrap_or :: "'a \<Rightarrow> 'a option \<Rightarrow> 'a" where
  "unwrap_or d x = (case x of None \<Rightarrow> d | Some v \<Rightarrow> v)"

definition cf_score :: "counterfactual \<Rightarrow> f64" where
  "cf_score c =
     (let latency = fdiv (f64_of_u64 (unwrap_or (- 1) (ov_value (predicted_e2e c)))) (f64_lit 1000);
          cost = unwrap_or f_inf (ov_value (predicted_cost c));
          risk_part = unwrap_or f_one (ov_value (predicted_failure_probability c));
          quality = unwrap_or f_one (ov_value (quality_risk c));
          quality_penalty = fsub f_one (fclamp quality f_zero f_one)
      in fadd (fadd (fadd latency cost) risk_part) quality_penalty)"

definition counterfactual_evaluate :: "counterfactual list \<Rightarrow> counterfactual list" where
  "counterfactual_evaluate cs = sort_key (\<lambda>c. (cf_score c, candidate_id c)) (filter feasible cs)"

definition are_indistinguishable :: "counterfactual \<Rightarrow> counterfactual \<Rightarrow> bool" where
  "are_indistinguishable a b \<longleftrightarrow> f_lt (fabs (fsub (cf_score a) (cf_score b))) (f64_lit (1/100))"

section \<open>The firewall\<close>

record utility_config =
  weight_latency :: f64
  weight_throughput :: f64
  weight_reliability :: f64
  weight_quality :: f64
  weight_cost :: f64
  weight_kv_transfer :: f64
  max_ttft :: u64
  max_tpot :: u64
  max_e2e :: u64
  min_quality :: f64
  max_cost :: f64
  max_failure_probability :: f64

definition utility_validate :: "utility_config \<Rightarrow> intelligence_error + unit" where
  "utility_validate c =
     (let ws = [weight_latency c, weight_throughput c, weight_reliability c, weight_quality c, weight_cost c,
                weight_kv_transfer c]
      in if list_ex (\<lambda>w. \<not> is_finite w \<or> f_lt w f_zero) ws
         then Inl (InvalidConfiguration ''weights must be finite and non-negative'')
         else if \<not> valid_f64_unit (min_quality c)
         then Inl (InvalidConfiguration ''min_quality must be 0.0..=1.0'')
         else if \<not> is_finite (max_cost c) \<or> f_lt (max_cost c) f_zero
         then Inl (InvalidConfiguration ''max_cost must be finite and non-negative'')
         else if \<not> valid_f64_unit (max_failure_probability c)
         then Inl (InvalidConfiguration ''max_failure_probability must be 0.0..=1.0'')
         else Inr ())"

datatype firewall_decision = Approved | Rejected string

record firewall =
  fw_config :: utility_config
  max_world_state_age :: duration

text \<open>\<open>is_some_and\<close> and \<open>is_none_or\<close>.\<close>

definition some_and :: "'a option \<Rightarrow> ('a \<Rightarrow> bool) \<Rightarrow> bool" where
  "some_and x P = (case x of None \<Rightarrow> False | Some v \<Rightarrow> P v)"

definition none_or :: "'a option \<Rightarrow> ('a \<Rightarrow> bool) \<Rightarrow> bool" where
  "none_or x P = (case x of None \<Rightarrow> True | Some v \<Rightarrow> P v)"

definition evaluate_candidate ::
  "system_time \<Rightarrow> firewall \<Rightarrow> counterfactual \<Rightarrow> world_state \<Rightarrow> decision_confidence \<Rightarrow> firewall_decision" where
  "evaluate_candidate now fw c w conf =
     (let g = fw_config fw
      in if isl (utility_validate g) then Rejected ''INVALID_CONFIGURATION''
         else if is_stale now (max_world_state_age fw) w then Rejected ''STALE_WORLD_STATE''
         else if \<not> feasible c then Rejected ''INFEASIBLE_CANDIDATE''
         else if some_and (ov_value (predicted_ttft c)) (\<lambda>v. v > max_ttft g) then Rejected ''SLO_VIOLATION_TTFT''
         else if some_and (ov_value (predicted_tpot c)) (\<lambda>v. v > max_tpot g) then Rejected ''SLO_VIOLATION_TPOT''
         else if some_and (ov_value (predicted_e2e c)) (\<lambda>v. v > max_e2e g) then Rejected ''SLO_VIOLATION_E2E''
         else if none_or (ov_value (quality_risk c)) (\<lambda>v. f_lt v (min_quality g)) then Rejected ''SLO_VIOLATION_QUALITY''
         else if some_and (ov_value (predicted_cost c)) (\<lambda>v. f_gt v (max_cost g)) then Rejected ''SLO_VIOLATION_COST''
         else if some_and (ov_value (predicted_failure_probability c)) (\<lambda>v. f_gt v (max_failure_probability g))
         then Rejected ''SLO_VIOLATION_RELIABILITY''
         else if \<not> is_safe_for_optimization conf then Rejected ''LOW_CONFIDENCE''
         else Approved)"

section \<open>Decision memory\<close>

record decision_record =
  dr_request_id :: string
  dr_world_revision :: u64
  selected_backend :: string
  dr_confidence :: decision_confidence
  utility_score :: f64
  decision_reason :: string
  dr_timestamp :: system_time

record decision_memory =
  dm_records :: "decision_record list"
  dm_max_records :: nat

definition memory_new :: "nat \<Rightarrow> decision_memory" where
  "memory_new n = \<lparr>dm_records = [], dm_max_records = min (max n 1) 100000\<rparr>"

definition memory_record :: "decision_record \<Rightarrow> decision_memory \<Rightarrow> decision_memory" where
  "memory_record r m = m\<lparr>dm_records := push_when_at_least (dm_max_records m) r (dm_records m)\<rparr>"

definition memory_lookup :: "string \<Rightarrow> decision_memory \<Rightarrow> decision_record option" where
  "memory_lookup i m = List.find (\<lambda>r. dr_request_id r = i) (rev (dm_records m))"

interpretation memory: bounded_log memory_record dm_records dm_max_records
  by unfold_locales (auto simp: memory_record_def push_when_at_least_def)

section \<open>Properties\<close>

text \<open>
  The firewall approves exactly the candidates that pass every gate: a valid configuration,
  a world state no older than allowed, a feasible candidate with a known quality that is not
  below the minimum, no known prediction above its limit, and at least medium confidence.
\<close>
theorem firewall_approves_iff:
  "evaluate_candidate now fw c w conf = Approved \<longleftrightarrow>
     utility_validate (fw_config fw) = Inr () \<and> observed_at w \<le> now \<and> now - observed_at w \<le> int (max_world_state_age fw)
     \<and> feasible c
     \<and> (\<forall>v. ov_value (predicted_ttft c) = Some v \<longrightarrow> v \<le> max_ttft (fw_config fw))
     \<and> (\<forall>v. ov_value (predicted_tpot c) = Some v \<longrightarrow> v \<le> max_tpot (fw_config fw))
     \<and> (\<forall>v. ov_value (predicted_e2e c) = Some v \<longrightarrow> v \<le> max_e2e (fw_config fw))
     \<and> (\<exists>q. ov_value (quality_risk c) = Some q \<and> \<not> f_lt q (min_quality (fw_config fw)))
     \<and> (\<forall>v. ov_value (predicted_cost c) = Some v \<longrightarrow> \<not> f_gt v (max_cost (fw_config fw)))
     \<and> (\<forall>v. ov_value (predicted_failure_probability c) = Some v
            \<longrightarrow> \<not> f_gt v (max_failure_probability (fw_config fw)))
     \<and> (conf = High \<or> conf = Medium)"
proof -
  have valid: "\<not> isl (utility_validate (fw_config fw)) \<longleftrightarrow> utility_validate (fw_config fw) = Inr ()"
    by (cases "utility_validate (fw_config fw)") auto
  have sa: "\<not> some_and x P \<longleftrightarrow> (\<forall>v. x = Some v \<longrightarrow> \<not> P v)" for x :: "'a option" and P
    by (simp add: some_and_def split: option.split)
  have no: "\<not> none_or x P \<longleftrightarrow> (\<exists>v. x = Some v \<and> \<not> P v)" for x :: "'a option" and P
    by (simp add: none_or_def split: option.split)
  have approved: "evaluate_candidate now fw c w conf = Approved \<longleftrightarrow>
     \<not> isl (utility_validate (fw_config fw)) \<and> \<not> is_stale now (max_world_state_age fw) w \<and> feasible c
     \<and> \<not> some_and (ov_value (predicted_ttft c)) (\<lambda>v. v > max_ttft (fw_config fw))
     \<and> \<not> some_and (ov_value (predicted_tpot c)) (\<lambda>v. v > max_tpot (fw_config fw))
     \<and> \<not> some_and (ov_value (predicted_e2e c)) (\<lambda>v. v > max_e2e (fw_config fw))
     \<and> \<not> none_or (ov_value (quality_risk c)) (\<lambda>v. f_lt v (min_quality (fw_config fw)))
     \<and> \<not> some_and (ov_value (predicted_cost c)) (\<lambda>v. f_gt v (max_cost (fw_config fw)))
     \<and> \<not> some_and (ov_value (predicted_failure_probability c)) (\<lambda>v. f_gt v (max_failure_probability (fw_config fw)))
     \<and> is_safe_for_optimization conf"
    by (simp add: evaluate_candidate_def Let_def)
  show ?thesis
    unfolding approved valid
    by (auto simp: is_stale_def older_than_def is_safe_for_optimization_def some_and_def none_or_def
        not_less not_le split: option.splits)
qed

lemma passing_config: "utility_validate \<lparr>weight_latency = f_one, weight_throughput = f_one, weight_reliability = f_one,
   weight_quality = f_one, weight_cost = f_one, weight_kv_transfer = f_one, max_ttft = 5, max_tpot = 5, max_e2e = 5,
   min_quality = f_zero, max_cost = f_one, max_failure_probability = f_one\<rparr> = Inr ()"
  by code_simp

text \<open>
  What is not known is not checked: an approved candidate stays approved when its predicted
  cost or failure probability becomes unknown, unavailable, or not a number, and when its latency
  predictions become unknown.
\<close>
theorem unknown_predictions_pass:
  assumes "evaluate_candidate now fw c w conf = Approved"
    and "ov_value cost = None \<or> (\<exists>x. ov_value cost = Some x \<and> is_nan x)"
    and "ov_value prob = None \<or> (\<exists>x. ov_value prob = Some x \<and> is_nan x)"
  shows "evaluate_candidate now fw (c\<lparr>predicted_ttft := Unknown, predicted_tpot := Unknown, predicted_e2e := Unknown,
    predicted_cost := cost, predicted_failure_probability := prob\<rparr>) w conf = Approved"
proof -
  have "\<not> f_gt x y" if "is_nan x" for x y using that by (simp add: f_lt_def)
  then show ?thesis using assms unfolding firewall_approves_iff by auto
qed

definition safe_candidate :: counterfactual where
  "safe_candidate = \<lparr>candidate_id = ''a'', cf_backend_id = ''b'', cf_compute_node_id = ''n'', cf_model = ''m'',
     cf_strategy = ''s'', predicted_ttft = Observed 1, predicted_tpot = Observed 1, predicted_e2e = Observed 1,
     predicted_cost = Observed f_zero, predicted_failure_probability = Observed f_zero,
     predicted_kv_transfer = Unknown, quality_risk = Observed f_one, cf_confidence = Unknown, feasible = True,
     cf_rejection_reason = None\<rparr>"

definition open_firewall :: firewall where
  "open_firewall = \<lparr>fw_config = \<lparr>weight_latency = f_one, weight_throughput = f_one, weight_reliability = f_one,
   weight_quality = f_one, weight_cost = f_one, weight_kv_transfer = f_one, max_ttft = 5, max_tpot = 5, max_e2e = 5,
   min_quality = f_zero, max_cost = f_one, max_failure_probability = f_one\<rparr>, max_world_state_age = 10\<rparr>"

lemma safe_approved: "evaluate_candidate 0 open_firewall safe_candidate (wm_state (world_manager_new 0 10)) High = Approved"
  by code_simp

theorem unknown_predictions_pass_witness:
  "evaluate_candidate 0 open_firewall (safe_candidate\<lparr>predicted_ttft := Unknown, predicted_tpot := Unknown,
     predicted_e2e := Unknown, predicted_cost := Predicted f_nan, predicted_failure_probability := Unknown\<rparr>)
     (wm_state (world_manager_new 0 10)) High = Approved"
  by (rule unknown_predictions_pass [OF safe_approved]) (simp_all add: f_nan_def)

theorem firewall_approves_iff_witness: "feasible safe_candidate"
  using firewall_approves_iff [of 0 open_firewall safe_candidate "wm_state (world_manager_new 0 10)" High] safe_approved
  by simp

lemma takeWhile_separator: "c \<notin> set a \<Longrightarrow> takeWhile ((\<noteq>) c) (a @ c # b) = a"
  by (induction a) auto

lemma append_separator_inject:
  assumes "c \<notin> set a" "c \<notin> set a'" "a @ c # b = a' @ c # b'"
  shows "a = a' \<and> b = b'"
  using takeWhile_separator [OF assms(1), of b] takeWhile_separator [OF assms(2), of b'] assms(3) by auto

text \<open>
  Candidate ids do not collide: for valid backend and node ids the id determines the
  backend, the node and the strategy.
\<close>
theorem candidate_ids_unique:
  assumes "valid_identifier b" "valid_identifier n" "valid_identifier b'" "valid_identifier n'"
    and "candidate_id_new b n s = candidate_id_new b' n' s'"
  shows "b = b' \<and> n = n' \<and> s = s'"
  using append_separator_inject [of "CHR '':''" b b' "n @ CHR '':'' # s" "n' @ CHR '':'' # s'"]
    append_separator_inject [of "CHR '':''" n n' s s']
    assms valid_identifier_no_colon by (auto simp: candidate_id_new_def)

theorem candidate_ids_unique_witness: "candidate_id_new ''a'' ''b'' ''s'' \<noteq> candidate_id_new ''a'' ''c'' ''s''"
proof -
  have "valid_identifier ''a''" "valid_identifier ''b''" "valid_identifier ''c''" by code_simp+
  then show ?thesis using candidate_ids_unique [of "''a''" "''b''" "''a''" "''c''" "''s''" "''s''"] by auto
qed

text \<open>
  The ranking keeps exactly the feasible candidates, best first: sorted by score and then by
  id, so the head has the least score of all feasible candidates.
\<close>
theorem ranking_is_sorted:
  "mset (counterfactual_evaluate cs) = filter_mset feasible (mset cs)
   \<and> sorted (map (\<lambda>c. (cf_score c, candidate_id c)) (counterfactual_evaluate cs))
   \<and> (\<forall>c rest. counterfactual_evaluate cs = c # rest \<longrightarrow>
        c \<in> set cs \<and> feasible c \<and> (\<forall>d \<in> set cs. feasible d \<longrightarrow> cf_score c \<le> cf_score d))
   \<and> (counterfactual_evaluate cs = [] \<longleftrightarrow> (\<forall>c \<in> set cs. \<not> feasible c))"
proof -
  have "c \<in> set cs \<and> feasible c \<and> (\<forall>d \<in> set cs. feasible d \<longrightarrow> cf_score c \<le> cf_score d)"
    if "counterfactual_evaluate cs = c # rest" for c rest
    using hd_sort_key_least [OF that [unfolded counterfactual_evaluate_def]] by (auto simp: less_eq_prod_def)
  moreover have "counterfactual_evaluate cs = [] \<longleftrightarrow> (\<forall>c \<in> set cs. \<not> feasible c)"
    by (simp add: counterfactual_evaluate_def sort_key_Nil_iff filter_empty_conv)
  moreover have "mset (counterfactual_evaluate cs) = filter_mset feasible (mset cs)"
    by (simp add: counterfactual_evaluate_def)
  moreover have "sorted (map (\<lambda>c. (cf_score c, candidate_id c)) (counterfactual_evaluate cs))"
    by (simp add: counterfactual_evaluate_def)
  ultimately show ?thesis by blast
qed

theorem ranking_is_sorted_witness:
  "counterfactual_evaluate [safe_candidate] \<noteq> []"
  using ranking_is_sorted [of "[safe_candidate]"] by (simp add: safe_candidate_def)

text \<open>
  The decision memory answers with the newest record: a lookup finds the last recorded
  decision for the id among the most recent ones, as many as the capacity.
\<close>
theorem memory_finds_newest:
  "memory_lookup i (fold memory_record rs (memory_new k))
     = List.find (\<lambda>r. dr_request_id r = i) (rev (drop (length rs - min (max k 1) 100000) rs))"
proof -
  have "memory.log_ok (memory_new k)" by (auto simp: memory.log_ok_def memory_new_def)
  from memory.entries_fold [OF this, of rs] show ?thesis by (simp add: memory_lookup_def memory_new_def)
qed

end
