(* ===== verification/ControlPlane.thy ===== *)
theory ControlPlane
  imports Kv
begin

text \<open>
  \<open>src/src/control_plane.rs\<close>: versioned snapshots of the KV tables, and when two snapshots count
  as the same state.
\<close>

datatype state_version = StateVersion (version_number: u64)

record control_plane_versions =
  v_graph :: state_version
  v_health :: state_version
  v_models :: state_version
  v_kv :: state_version
  v_policy :: state_version
  v_capacity :: state_version
  v_planner :: state_version

definition default_versions :: control_plane_versions where
  "default_versions = \<lparr>v_graph = StateVersion 0, v_health = StateVersion 0, v_models = StateVersion 0,
     v_kv = StateVersion 0, v_policy = StateVersion 0, v_capacity = StateVersion 0, v_planner = StateVersion 1\<rparr>"

record control_plane_snapshot =
  cps_versions :: control_plane_versions
  cps_kv :: kv_intelligence

definition snapshot_new :: "kv_intelligence \<Rightarrow> control_plane_versions \<Rightarrow> control_plane_snapshot" where
  "snapshot_new kv versions =
     \<lparr>cps_versions = versions\<lparr>v_models := StateVersion (models_revision (ki_models kv)),
                              v_kv := StateVersion (records_revision (ki_compatibility kv))\<rparr>,
      cps_kv = kv\<rparr>"

definition is_current_for :: "control_plane_snapshot \<Rightarrow> control_plane_snapshot \<Rightarrow> bool" where
  "is_current_for self other \<longleftrightarrow> cps_versions self = cps_versions other"

definition snapshot_policy :: "control_plane_snapshot \<Rightarrow> kv_policy" where
  "snapshot_policy s = ki_policy (cps_kv s)"

lemma is_current_new:
  fixes v :: control_plane_versions
  shows "is_current_for (snapshot_new k v) (snapshot_new k' v) \<longleftrightarrow>
     models_revision (ki_models k) = models_revision (ki_models k')
     \<and> records_revision (ki_compatibility k) = records_revision (ki_compatibility k')"
  by (cases v) (simp add: is_current_for_def snapshot_new_def)

lemma model_register_revision:
  "fst (model_register m r) = Inr () \<Longrightarrow> models_revision (snd (model_register m r)) = models_revision r + 1"
  by (auto simp: model_register_def split: if_splits)

lemma compat_register_revision:
  "fst (compat_register c r) = Inr () \<Longrightarrow> records_revision (snd (compat_register c r)) = records_revision r + 1"
  by (auto simp: compat_register_def Let_def split: if_splits sum.splits)

text \<open>
  A snapshot becomes stale with every accepted registration of a model or of a
  compatibility record, and a rejected registration leaves it current.
\<close>
theorem registration_makes_snapshot_stale:
  "is_current_for (snapshot_new k v) (snapshot_new (k\<lparr>ki_models := snd (model_register m (ki_models k))\<rparr>) v)
      = isl (fst (model_register m (ki_models k)))
   \<and> is_current_for (snapshot_new k v) (snapshot_new (k\<lparr>ki_compatibility := snd (compat_register c (ki_compatibility k))\<rparr>) v)
      = isl (fst (compat_register c (ki_compatibility k)))"
proof -
  have "snd (model_register m r) = r" if "isl (fst (model_register m r))" for r
    using that by (auto simp: model_register_def split: if_splits)
  moreover have "snd (compat_register c r) = r" if "isl (fst (compat_register c r))" for r
    using that by (auto simp: compat_register_def Let_def split: if_splits sum.splits)
  ultimately show ?thesis
    using model_register_revision [of m "ki_models k"] compat_register_revision [of c "ki_compatibility k"]
    by (cases "fst (model_register m (ki_models k))"; cases "fst (compat_register c (ki_compatibility k))")
       (simp_all add: is_current_new)
qed

text \<open>
  A change of policy is not seen: two snapshots with the same tables and caller-given
  versions are current for each other although they select by different policies.
\<close>
theorem policy_change_undetected:
  "is_current_for (snapshot_new k v) (snapshot_new (k\<lparr>ki_policy := p\<rparr>) v)
   \<and> snapshot_policy (snapshot_new (k\<lparr>ki_policy := p\<rparr>) v) = p"
  by (simp add: is_current_for_def snapshot_new_def snapshot_policy_def)

end
