(* ===== verification/Capacity.thy ===== *)
theory Capacity
  imports ControlPlane
begin

text \<open>
  \<open>src/src/capacity.rs\<close>: compute nodes, the snapshot they are registered in (an instance of the
  locale \<open>registry\<close>), and which of them meet a requirement.
\<close>

record compute_node =
  cn_id :: string
  cn_region :: string
  accelerator :: string
  total_memory_mb :: u64
  available_memory_mb :: u64
  utilization :: f64
  active_requests :: u32
  queue_depth :: u32
  healthy :: bool
  resident_models :: "model_reference set"

datatype capacity_error = InvalidNode string | DuplicateNode string

definition compute_node_validate :: "compute_node \<Rightarrow> capacity_error + unit" where
  "compute_node_validate n =
     (if \<not> valid_identifier (cn_id n) \<or> \<not> valid_identifier (cn_region n) \<or> \<not> valid_identifier (accelerator n)
         \<or> total_memory_mb n = 0 \<or> available_memory_mb n > total_memory_mb n
         \<or> \<not> is_ratio (utilization n)
      then Inl (InvalidNode (cn_id n)) else Inr ())"

record capacity_requirement =
  cr_model :: model_reference
  cr_region :: "string option"
  min_available_memory_mb :: u64
  max_queue_depth :: u32

datatype capacity_rejection = Unhealthy | RegionMismatch | ModelNotResident | InsufficientMemory | QueueLimit

record capacity_snapshot =
  compute_nodes :: "(string, compute_node) hmap"
  cap_revision :: state_version

definition default_capacity :: capacity_snapshot where
  "default_capacity = \<lparr>compute_nodes = [], cap_revision = StateVersion 0\<rparr>"

definition saturating_succ :: "u64 \<Rightarrow> u64" where
  "saturating_succ v = (if v = - 1 then v else v + 1)"

definition capacity_register :: "compute_node \<Rightarrow> capacity_snapshot \<Rightarrow> (capacity_error + unit) \<times> capacity_snapshot" where
  "capacity_register n s =
     (case compute_node_validate n of
        Inl e \<Rightarrow> (Inl e, s)
      | Inr _ \<Rightarrow>
          if contains_key (compute_nodes s) (cn_id n) then (Inl (DuplicateNode (cn_id n)), s)
          else (Inr (), s\<lparr>compute_nodes := bt_insert (cn_id n) n (compute_nodes s),
                         cap_revision := StateVersion (saturating_succ (version_number (cap_revision s)))\<rparr>))"

interpretation capacity: registry capacity_register "\<lambda>s. map_of (compute_nodes s)" cn_id
  "\<lambda>n. compute_node_validate n = Inr ()" "\<lambda>s. sorted_keys (compute_nodes s)"
  by unfold_locales (auto simp: capacity_register_def map_laws split: sum.split)

definition node_rejection :: "capacity_requirement \<Rightarrow> compute_node \<Rightarrow> capacity_rejection option" where
  "node_rejection r n =
     (if \<not> healthy n then Some Unhealthy
      else if (case cr_region r of None \<Rightarrow> False | Some g \<Rightarrow> g \<noteq> cn_region n) then Some RegionMismatch
      else if cr_model r \<notin> resident_models n then Some ModelNotResident
      else if available_memory_mb n < min_available_memory_mb r then Some InsufficientMemory
      else if queue_depth n > max_queue_depth r then Some QueueLimit
      else None)"

definition evaluate ::
  "capacity_snapshot \<Rightarrow> capacity_requirement \<Rightarrow> compute_node list \<times> (string \<times> capacity_rejection) list" where
  "evaluate s r =
     (map snd (filter (\<lambda>(_, n). node_rejection r n = None) (compute_nodes s)),
      List.map_filter (\<lambda>(i, n). map_option (Pair i) (node_rejection r n)) (compute_nodes s))"

section \<open>Properties\<close>

definition capacity_of :: "compute_node list \<Rightarrow> capacity_snapshot" where
  "capacity_of ns = fold (\<lambda>n s. snd (capacity_register n s)) ns default_capacity"

lemma capacity_sound: "capacity.sound (capacity_of ns)"
proof -
  have "capacity.sound (fold (\<lambda>n s. snd (capacity_register n s)) ns s)" if "capacity.sound s" for s
    using that by (induction ns arbitrary: s) (simp_all add: capacity.sound_register)
  moreover have "capacity.sound default_capacity" by (simp add: capacity.sound_def default_capacity_def)
  ultimately show ?thesis by (simp add: capacity_of_def)
qed

lemma keyed_filter_fst:
  "map fst (List.map_filter (\<lambda>(i, n). map_option (Pair i) (f n)) xs) = map fst (filter (\<lambda>(_, n). f n \<noteq> None) xs)"
  by (induction xs) (auto simp: List.map_filter_simps split: option.split)

lemma keyed_filter_set:
  "(i, e) \<in> set (List.map_filter (\<lambda>(i, n). map_option (Pair i) (f n)) xs) \<longleftrightarrow> (\<exists>n. (i, n) \<in> set xs \<and> f n = Some e)"
  by (induction xs) (auto simp: List.map_filter_simps split: option.split)

lemma evaluate_sets:
  assumes "capacity.sound s"
  shows "n \<in> set (fst (evaluate s r)) \<longleftrightarrow> map_of (compute_nodes s) (cn_id n) = Some n \<and> node_rejection r n = None"
    and "(i, e) \<in> set (snd (evaluate s r)) \<longleftrightarrow> (\<exists>n. map_of (compute_nodes s) i = Some n \<and> node_rejection r n = Some e)"
proof -
  have d: "map_of (compute_nodes s) i = Some n \<longleftrightarrow> (i, n) \<in> set (compute_nodes s)" for i n
    using assms by (intro map_of_eq_Some_iff sorted_keys_distinct) (simp add: capacity.sound_def)
  have k: "(i, n) \<in> set (compute_nodes s) \<Longrightarrow> cn_id n = i" for i n
    using assms by (simp add: capacity.sound_def flip: d)
  have "n \<in> set (fst (evaluate s r)) \<longleftrightarrow> (\<exists>i. (i, n) \<in> set (compute_nodes s)) \<and> node_rejection r n = None"
    by (auto simp: evaluate_def image_iff)
  then show "n \<in> set (fst (evaluate s r)) \<longleftrightarrow> map_of (compute_nodes s) (cn_id n) = Some n \<and> node_rejection r n = None"
    using d k by blast
  show "(i, e) \<in> set (snd (evaluate s r)) \<longleftrightarrow> (\<exists>n. map_of (compute_nodes s) i = Some n \<and> node_rejection r n = Some e)"
    by (simp add: evaluate_def keyed_filter_set d)
qed

text \<open>
  The evaluation of a requirement splits the registered nodes: every registered node is
  either eligible, and then it is healthy, in the region, holds the model and has the memory
  and the queue room, or it is rejected with the first reason that applies; each list is in the
  order of the node ids, without duplicates.
\<close>
theorem capacity_evaluation_partitions:
  fixes ns r
  defines "s \<equiv> capacity_of ns"
  shows "(\<forall>n. n \<in> set (fst (evaluate s r)) \<longleftrightarrow>
        map_of (compute_nodes s) (cn_id n) = Some n \<and> healthy n \<and> (cr_region r = None \<or> cr_region r = Some (cn_region n))
        \<and> cr_model r \<in> resident_models n \<and> min_available_memory_mb r \<le> available_memory_mb n
        \<and> queue_depth n \<le> max_queue_depth r)
    \<and> (\<forall>i e. (i, e) \<in> set (snd (evaluate s r)) \<longleftrightarrow>
          (\<exists>n. map_of (compute_nodes s) i = Some n \<and> node_rejection r n = Some e))
    \<and> sorted_wrt (<) (map cn_id (fst (evaluate s r))) \<and> sorted_wrt (<) (map fst (snd (evaluate s r)))
    \<and> length (fst (evaluate s r)) + length (snd (evaluate s r)) = length (compute_nodes s)"
proof -
  have sound: "capacity.sound s" by (simp add: s_def capacity_sound)
  have sorted: "sorted_keys (compute_nodes s)" using sound by (simp add: capacity.sound_def)
  have ids: "\<forall>(i, n) \<in> set (compute_nodes s). cn_id n = i"
    using sound sorted_keys_distinct [OF sorted] by (auto simp: capacity.sound_def)
  have ok: "node_rejection r n = None \<longleftrightarrow> healthy n \<and> (cr_region r = None \<or> cr_region r = Some (cn_region n))
        \<and> cr_model r \<in> resident_models n \<and> min_available_memory_mb r \<le> available_memory_mb n
        \<and> queue_depth n \<le> max_queue_depth r" for n
    by (auto simp: node_rejection_def not_less split: option.splits)
  have eq: "map cn_id (fst (evaluate s r)) = map fst (filter (\<lambda>(_, n). node_rejection r n = None) (compute_nodes s))"
    using ids by (auto simp: evaluate_def)
  have eq2: "map fst (snd (evaluate s r)) = map fst (filter (\<lambda>(_, n). node_rejection r n \<noteq> None) (compute_nodes s))"
    by (simp add: evaluate_def keyed_filter_fst)
  have sub: "sorted_wrt (<) (map fst (filter P (compute_nodes s)))" for P
    using sorted by (simp add: sorted_wrt_map sorted_wrt_filter)
  have "length (filter P xs) + length (filter (\<lambda>x. \<not> P x) xs) = length xs" for P and xs :: "(string \<times> compute_node) list"
    by (rule sum_length_filter_compl)
  from this [of "\<lambda>x. node_rejection r (snd x) = None" "compute_nodes s"]
  have "length (fst (evaluate s r)) + length (snd (evaluate s r)) = length (compute_nodes s)"
    using arg_cong [OF eq, of length] arg_cong [OF eq2, of length] by (simp add: case_prod_unfold del: not_None_eq)
  then show ?thesis
    using evaluate_sets [OF sound] ok eq eq2 sub by (simp only:) blast
qed

end
