(* ===== verification/Fabric.thy ===== *)
theory Fabric
  imports Intelligence Capacity Backends "HOL-Library.Multiset"
begin

text \<open>
  \<open>src/src/fabric.rs\<close>, first part: the state store, the transports and their deterministic
  implementations, the KV decision, node telemetry, load shedding and the bounded queue.
  Load shedding is two atomic counters read and written separately, so besides the sequential
  operations the section has their atomic steps and the interleavings of several threads.
\<close>

section \<open>Errors and the state store\<close>

datatype fabric_error =
    Timeout | CapabilityMismatch | AdmissionRejected string | StaleLease | QueueFull | BackendUnavailable
  | IdentityMismatch | MalformedResponse | KvTransferFailed | StaleReadiness

text \<open>\<open>Display\<close> prints the derived \<open>Debug\<close> form; the quoted form of a string is a parameter.\<close>

fun fabric_error_display :: "(string \<Rightarrow> string) \<Rightarrow> fabric_error \<Rightarrow> string" where
  "fabric_error_display quote Timeout = ''Timeout''"
| "fabric_error_display quote CapabilityMismatch = ''CapabilityMismatch''"
| "fabric_error_display quote (AdmissionRejected reason) = ''AdmissionRejected('' @ quote reason @ '')''"
| "fabric_error_display quote StaleLease = ''StaleLease''"
| "fabric_error_display quote QueueFull = ''QueueFull''"
| "fabric_error_display quote BackendUnavailable = ''BackendUnavailable''"
| "fabric_error_display quote IdentityMismatch = ''IdentityMismatch''"
| "fabric_error_display quote MalformedResponse = ''MalformedResponse''"
| "fabric_error_display quote KvTransferFailed = ''KvTransferFailed''"
| "fabric_error_display quote StaleReadiness = ''StaleReadiness''"

text \<open>The store hands out copies, so a later change of the store does not change a snapshot.\<close>

record local_state_store =
  store_capacity :: capacity_snapshot
  store_registry :: backend_registry

definition fetch_capacity :: "local_state_store \<Rightarrow> fabric_error + capacity_snapshot" where
  "fetch_capacity s = Inr (store_capacity s)"

definition fetch_registry :: "local_state_store \<Rightarrow> fabric_error + backend_registry" where
  "fetch_registry s = Inr (store_registry s)"

section \<open>Transports\<close>

record transport_request =
  tq_request_id :: string
  tq_model :: string
  tq_model_version :: string
  tq_backend_id :: string
  tq_timeout :: duration

record transport_response =
  tp_request_id :: string
  tp_backend_id :: string
  tp_success :: bool
  tp_latency_ms :: u64
  tp_failure_class :: "string option"
  tp_ttft_ms :: "u64 option"
  tp_tpot_ms :: "u64 option"
  tp_queue_delay_ms :: "u64 option"
  tp_gpu_utilization :: "f64 option"
  tp_gpu_memory_used_mb :: "u64 option"
  tp_gpu_memory_total_mb :: "u64 option"
  tp_actual_cost :: "f64 option"
  tp_quality_score :: "f64 option"
  tp_accelerator :: "string option"
  tp_region :: "string option"
  tp_backend_version :: "string option"

type_synonym inference_transport = "transport_request \<Rightarrow> fabric_error + transport_response"

record deterministic_transport =
  dt_healthy :: bool
  dt_latency_ms :: u64
  dt_capabilities :: "string list"

definition deterministic_execute :: "deterministic_transport \<Rightarrow> inference_transport" where
  "deterministic_execute t q =
     (if \<not> dt_healthy t then Inl BackendUnavailable
      else Inr \<lparr>tp_request_id = tq_request_id q, tp_backend_id = tq_backend_id q, tp_success = True,
             tp_latency_ms = dt_latency_ms t, tp_failure_class = None,
             tp_ttft_ms = Some (dt_latency_ms t div 4), tp_tpot_ms = Some (dt_latency_ms t div 20),
             tp_queue_delay_ms = Some 1, tp_gpu_utilization = Some (f64_lit (1/2)),
             tp_gpu_memory_used_mb = Some 4000, tp_gpu_memory_total_mb = Some 80000,
             tp_actual_cost = Some (f64_lit (2/1000)), tp_quality_score = Some f_one,
             tp_accelerator = None, tp_region = None, tp_backend_version = None\<rparr>)"

text \<open>A KV transport, as the operations its callers use.\<close>

record kv_transport =
  can_transfer :: "string \<Rightarrow> string \<Rightarrow> bool"
  kv_transfer :: "string \<Rightarrow> string \<Rightarrow> fabric_error + unit"
  kv_verify :: "string \<Rightarrow> bool"

record deterministic_kv =
  allow_transfer :: bool
  transfer_latency_per_mb :: duration

definition deterministic_kv_transport :: "deterministic_kv \<Rightarrow> kv_transport" where
  "deterministic_kv_transport k =
     \<lparr>can_transfer = (\<lambda>_ _. allow_transfer k),
      kv_transfer = (\<lambda>_ _. if allow_transfer k then Inr () else Inl KvTransferFailed),
      kv_verify = (\<lambda>_. allow_transfer k)\<rparr>"

text \<open>
  \<open>size_mb as u32\<close> keeps the low 32 bits, and the product of a \<open>Duration\<close> (in nanoseconds
  here) panics beyond its largest value.
\<close>

definition DURATION_MAX :: nat where "DURATION_MAX = 2 ^ 64 * 10 ^ 9 - 1"

definition estimate_transfer :: "u64 \<Rightarrow> deterministic_kv \<Rightarrow> duration option" where
  "estimate_transfer size_mb k =
     (let d = transfer_latency_per_mb k * unat (ucast size_mb :: u32)
      in if d > DURATION_MAX then None else Some d)"

section \<open>The KV decision\<close>

datatype kv_action = Reuse | Transfer | Keep | Evict | Migrate | Recompute

record kv_decision_input =
  compatible :: bool
  kv_size_mb :: u64
  transfer_latency_ms :: u64
  network_cost :: f64
  recomputation_ms :: u64
  expected_reuse :: f64
  failure_risk :: f64
  kd_confidence :: f64

definition decide_kv :: "kv_decision_input \<Rightarrow> kv_action \<times> string" where
  "decide_kv i =
     (if \<not> compatible i then (Recompute, ''INCOMPATIBLE_KV'')
      else if f_lt (kd_confidence i) (f64_lit (1/2)) then (Recompute, ''LOW_CONFIDENCE'')
      else if f_gt (failure_risk i) (f64_lit (3/10)) then (Recompute, ''HIGH_FAILURE_RISK'')
      else let transfer_cost = fadd (f64_of_u64 (transfer_latency_ms i)) (network_cost i);
               recompute_cost = f64_of_u64 (recomputation_ms i)
           in if f_le (fadd transfer_cost (fmul (failure_risk i) recompute_cost)) recompute_cost
              then (Transfer, ''TRANSFER_BENEFICIAL'')
              else (Recompute, ''TRANSFER_COST_EXCEEDS_BENEFIT''))"

section \<open>Node telemetry\<close>

record node_telemetry =
  nt_timestamp :: system_time
  nt_node_id :: string
  nt_revision :: u64
  provider_version :: string
  nt_gpu_utilization :: f64
  nt_gpu_memory_used_mb :: u64
  nt_gpu_memory_total_mb :: u64
  compute_availability :: f64
  nt_queue_depth :: u32
  nt_active_requests :: u32
  model_residency :: "string list"
  kv_utilization :: f64

definition telemetry_is_stale :: "system_time \<Rightarrow> duration \<Rightarrow> node_telemetry \<Rightarrow> bool" where
  "telemetry_is_stale now max_age t = older_than now max_age (nt_timestamp t)"

definition in_unit_range :: "f64 \<Rightarrow> bool" where
  "in_unit_range v \<longleftrightarrow> f_le f_zero v \<and> f_le v f_one"

definition telemetry_validate :: "node_telemetry \<Rightarrow> fabric_error + unit" where
  "telemetry_validate t =
     (if nt_node_id t = [] \<or> length (nt_node_id t) > 128 then Inl MalformedResponse
      else if is_nan (nt_gpu_utilization t) \<or> \<not> in_unit_range (nt_gpu_utilization t) then Inl MalformedResponse
      else if is_nan (kv_utilization t) \<or> \<not> in_unit_range (kv_utilization t) then Inl MalformedResponse
      else Inr ())"

definition deterministic_collect :: "f64 \<Rightarrow> u32 \<Rightarrow> system_time \<Rightarrow> string \<Rightarrow> fabric_error + node_telemetry" where
  "deterministic_collect gpu queue now i =
     Inr \<lparr>nt_timestamp = now, nt_node_id = i, nt_revision = 1, provider_version = ''test-v1'',
        nt_gpu_utilization = gpu, nt_gpu_memory_used_mb = 4000, nt_gpu_memory_total_mb = 8000,
        compute_availability = fsub f_one gpu, nt_queue_depth = queue, nt_active_requests = 0,
        model_residency = [], kv_utilization = f_zero\<rparr>"

section \<open>Load shedding\<close>

datatype fabric_decision = Accept | Queue | Defer | Shed | Fallback

datatype fabric_rejection =
    CapacityExhausted | ShedQueueFull | TenantQuotaExceeded | ConcurrencyLimit | TimeoutBudgetInsufficient
  | RetryBudgetExhausted | SloInfeasible

record load_controller =
  concurrency_limit :: u32
  queue_limit :: u32
  lc_active :: u32
  lc_queued :: u32

definition load_new :: "u32 \<Rightarrow> u32 \<Rightarrow> load_controller" where
  "load_new limit depth = \<lparr>concurrency_limit = limit, queue_limit = depth, lc_active = 0, lc_queued = 0\<rparr>"

definition load_evaluate :: "load_controller \<Rightarrow> (fabric_decision \<times> fabric_rejection option) \<times> load_controller" where
  "load_evaluate c =
     (if lc_active c < concurrency_limit c then ((Accept, None), c\<lparr>lc_active := lc_active c + 1\<rparr>)
      else if lc_queued c < queue_limit c then ((Queue, None), c\<lparr>lc_queued := lc_queued c + 1\<rparr>)
      else ((Shed, Some ShedQueueFull), c))"

text \<open>\<open>fetch_sub\<close> wraps; the \<open>debug_assert\<close> after it is absent from a release build.\<close>

definition load_complete :: "load_controller \<Rightarrow> load_controller" where
  "load_complete c = c\<lparr>lc_active := lc_active c - 1\<rparr>"

definition load_dequeue :: "load_controller \<Rightarrow> load_controller" where
  "load_dequeue c = c\<lparr>lc_queued := lc_queued c - 1\<rparr>"

text \<open>The atomic steps of one call of \<open>evaluate\<close>.\<close>

datatype eval_pc = Start | AddActive | LoadQueue | AddQueue | Decided fabric_decision "fabric_rejection option"

fun eval_step :: "load_controller \<times> eval_pc \<Rightarrow> load_controller \<times> eval_pc" where
  "eval_step (c, Start) = (c, if lc_active c < concurrency_limit c then AddActive else LoadQueue)"
| "eval_step (c, AddActive) = (c\<lparr>lc_active := lc_active c + 1\<rparr>, Decided Accept None)"
| "eval_step (c, LoadQueue) = (c, if lc_queued c < queue_limit c then AddQueue else Decided Shed (Some ShedQueueFull))"
| "eval_step (c, AddQueue) = (c\<lparr>lc_queued := lc_queued c + 1\<rparr>, Decided Queue None)"
| "eval_step (c, Decided d r) = (c, Decided d r)"

lemma evaluate_is_steps:
  "load_evaluate c = ((d, r), c') \<longleftrightarrow> (eval_step ^^ 3) (c, Start) = (c', Decided d r)"
  by (auto simp: load_evaluate_def numeral_3_eq_3)

text \<open>
  Several threads call \<open>evaluate\<close>, each its own number of times; their program counters form a
  multiset.  An accepted request may be completed, and a queued one dequeued, at any moment.
\<close>

inductive load_run :: "u32 \<Rightarrow> u32 \<Rightarrow> nat \<Rightarrow> load_controller \<Rightarrow> eval_pc multiset \<Rightarrow> bool"
  for limit depth threads where
  load_start: "load_run limit depth threads (load_new limit depth) (replicate_mset threads Start)"
| load_atomic: "load_run limit depth threads c (add_mset pc pcs) \<Longrightarrow> eval_step (c, pc) = (c', pc')
    \<Longrightarrow> load_run limit depth threads c' (add_mset pc' pcs)"
| load_again: "load_run limit depth threads c (add_mset (Decided d r) pcs)
    \<Longrightarrow> load_run limit depth threads c (add_mset Start pcs)"
| load_completed: "load_run limit depth threads c pcs \<Longrightarrow> lc_active c \<noteq> 0
    \<Longrightarrow> load_run limit depth threads (load_complete c) pcs"
| load_dequeued: "load_run limit depth threads c pcs \<Longrightarrow> lc_queued c \<noteq> 0
    \<Longrightarrow> load_run limit depth threads (load_dequeue c) pcs"

lemma unat_succ: "unat (x :: u32) + 1 < 2 ^ 32 \<Longrightarrow> unat (x + 1) = unat x + 1"
  using unat_add_lem [of x 1] by simp

lemma unat_pred: "(x :: u32) \<noteq> 0 \<Longrightarrow> unat (x - 1) = unat x - 1"
  by (simp add: unat_minus_one)

text \<open>
  A thread between its load and its addition has seen a counter below the limit, and there
  are at most as many such threads as there are threads.
\<close>

lemma load_run_bound:
  assumes "load_run limit depth threads c pcs" "0 < threads"
    and "unat limit + threads \<le> 2 ^ 32" "unat depth + threads \<le> 2 ^ 32"
  shows "size pcs = threads \<and> concurrency_limit c = limit \<and> queue_limit c = depth
    \<and> unat (lc_active c) + count pcs AddActive + 1 \<le> unat limit + threads
    \<and> unat (lc_queued c) + count pcs AddQueue + 1 \<le> unat depth + threads"
  using assms
proof (induction rule: load_run.induct)
  case load_start
  then show ?case by (simp add: load_new_def)
next
  case (load_atomic c pc pcs c' pc')
  then have IH: "size pcs + 1 = threads" "concurrency_limit c = limit" "queue_limit c = depth"
      "unat (lc_active c) + count (add_mset pc pcs) AddActive + 1 \<le> unat limit + threads"
      "unat (lc_queued c) + count (add_mset pc pcs) AddQueue + 1 \<le> unat depth + threads" by auto
  have le: "count pcs AddActive \<le> size pcs" "count pcs AddQueue \<le> size pcs" by (simp_all add: count_le_size)
  show ?case
  proof (cases pc)
    case Start
    then show ?thesis using load_atomic.hyps IH le
      by (auto simp: word_less_nat_alt split: if_splits)
  next
    case AddActive
    then have "unat (lc_active c) + 1 < 2 ^ 32" using IH load_atomic.prems by simp
    then show ?thesis using load_atomic.hyps IH AddActive unat_succ by auto
  next
    case LoadQueue
    then show ?thesis using load_atomic.hyps IH le
      by (auto simp: word_less_nat_alt split: if_splits)
  next
    case AddQueue
    then have "unat (lc_queued c) + 1 < 2 ^ 32" using IH load_atomic.prems by simp
    then show ?thesis using load_atomic.hyps IH AddQueue unat_succ by auto
  next
    case (Decided d r)
    then show ?thesis using load_atomic.hyps IH by auto
  qed
next
  case (load_again c d r pcs)
  then show ?case by auto
next
  case (load_completed c pcs)
  then show ?case by (auto simp: load_complete_def unat_pred)
next
  case (load_dequeued c pcs)
  then show ?case by (auto simp: load_dequeue_def unat_pred)
qed

section \<open>The bounded queue\<close>

record 'a bounded_queue =
  bq_items :: "'a list"
  bq_capacity :: nat

definition queue_new :: "nat \<Rightarrow> 'a bounded_queue" where
  "queue_new capacity = \<lparr>bq_items = [], bq_capacity = capacity\<rparr>"

definition queue_push :: "'a \<Rightarrow> 'a bounded_queue \<Rightarrow> (fabric_error + unit) \<times> 'a bounded_queue" where
  "queue_push x q =
     (if length (bq_items q) \<ge> bq_capacity q then (Inl QueueFull, q)
      else (Inr (), q\<lparr>bq_items := bq_items q @ [x]\<rparr>))"

definition queue_pop :: "'a bounded_queue \<Rightarrow> 'a option \<times> 'a bounded_queue" where
  "queue_pop q = (case bq_items q of [] \<Rightarrow> (None, q) | x # xs \<Rightarrow> (Some x, q\<lparr>bq_items := xs\<rparr>))"

definition queue_len :: "'a bounded_queue \<Rightarrow> nat" where
  "queue_len q = length (bq_items q)"

text \<open>A history of the queue: a pushed value, or a pop, and what each operation answered.\<close>

datatype 'a queue_answer = Pushed 'a | Refused fabric_error | Popped "'a option"

definition queue_step :: "'a option \<Rightarrow> 'a bounded_queue \<Rightarrow> 'a queue_answer \<times> 'a bounded_queue" where
  "queue_step p q =
     (case p of
        Some x \<Rightarrow> (case queue_push x q of (Inl e, q') \<Rightarrow> (Refused e, q') | (Inr _, q') \<Rightarrow> (Pushed x, q'))
      | None \<Rightarrow> (case queue_pop q of (res, q') \<Rightarrow> (Popped res, q')))"

fun queue_run :: "'a option list \<Rightarrow> 'a bounded_queue \<Rightarrow> 'a queue_answer list \<times> 'a bounded_queue" where
  "queue_run [] q = ([], q)"
| "queue_run (p # ops) q =
     (case queue_step p q of (answer, q) \<Rightarrow> (case queue_run ops q of (answers, q) \<Rightarrow> (answer # answers, q)))"

text \<open>
  What a bounded first-in first-out queue has to answer, from the answers so far alone: the values
  taken in, and how many were given out.
\<close>

fun taken_in :: "'a queue_answer list \<Rightarrow> 'a list" where
  "taken_in [] = []"
| "taken_in (Pushed x # as) = x # taken_in as"
| "taken_in (_ # as) = taken_in as"

fun given_out :: "'a queue_answer list \<Rightarrow> nat" where
  "given_out [] = 0"
| "given_out (Popped (Some _) # as) = Suc (given_out as)"
| "given_out (_ # as) = given_out as"

definition fifo_answer :: "nat \<Rightarrow> 'a queue_answer list \<Rightarrow> 'a option \<Rightarrow> 'a queue_answer" where
  "fifo_answer capacity past p =
     (let held = length (taken_in past) - given_out past
      in case p of
           Some x \<Rightarrow> if held = capacity then Refused QueueFull else Pushed x
         | None \<Rightarrow> Popped (if held = 0 then None else Some (taken_in past ! given_out past)))"

text \<open>The items of the queue are the values taken in and not given out yet.\<close>

definition queue_holds :: "nat \<Rightarrow> 'a queue_answer list \<Rightarrow> 'a bounded_queue \<Rightarrow> bool" where
  "queue_holds capacity past q \<longleftrightarrow> bq_capacity q = capacity \<and> length (bq_items q) \<le> capacity
     \<and> given_out past \<le> length (taken_in past) \<and> bq_items q = drop (given_out past) (taken_in past)"

lemma answers_append:
  "taken_in (as @ bs) = taken_in as @ taken_in bs" "given_out (as @ bs) = given_out as + given_out bs"
proof -
  show "taken_in (as @ bs) = taken_in as @ taken_in bs" by (induction as rule: taken_in.induct) simp_all
  show "given_out (as @ bs) = given_out as + given_out bs" by (induction as rule: given_out.induct) simp_all
qed

lemma queue_step_fifo:
  assumes "queue_holds capacity past q" "queue_step p q = (answer, q')"
  shows "answer = fifo_answer capacity past p" "queue_holds capacity (past @ [answer]) q'"
proof -
  note h = assms(1) [unfolded queue_holds_def]
  have held: "length (bq_items q) = length (taken_in past) - given_out past" using h by simp
  have "answer = fifo_answer capacity past p \<and> queue_holds capacity (past @ [answer]) q'"
  proof (cases p)
    case (Some x)
    then show ?thesis
      using assms(2) h held
      by (auto simp: queue_step_def queue_push_def fifo_answer_def queue_holds_def answers_append Let_def split: if_splits)
  next
    case None
    show ?thesis
    proof (cases "bq_items q")
      case Nil
      then have "answer = Popped None" "q' = q" using assms(2) None by (simp_all add: queue_step_def queue_pop_def)
      moreover have "length (taken_in past) - given_out past = 0" using held Nil by simp
      ultimately show ?thesis using assms(1) None by (simp add: fifo_answer_def queue_holds_def answers_append)
    next
      case (Cons x xs)
      then have d: "drop (given_out past) (taken_in past) = x # xs" using h by simp
      then have lt: "given_out past < length (taken_in past)" by (metis drop_all list.distinct(1) not_less)
      then have "taken_in past ! given_out past = x" "drop (Suc (given_out past)) (taken_in past) = xs"
        using d by (metis Cons_nth_drop_Suc list.inject)+
      moreover have "answer = Popped (Some x)" "q' = q\<lparr>bq_items := xs\<rparr>"
        using assms(2) None Cons by (simp_all add: queue_step_def queue_pop_def)
      moreover have "length xs \<le> capacity" "bq_capacity q = capacity" using h Cons by simp_all
      ultimately show ?thesis using None lt by (simp add: fifo_answer_def queue_holds_def answers_append)
    qed
  qed
  then show "answer = fifo_answer capacity past p" "queue_holds capacity (past @ [answer]) q'" by blast+
qed

lemma queue_run_fifo:
  "queue_holds capacity past q \<Longrightarrow> k < length ops \<Longrightarrow>
   length (fst (queue_run ops q)) = length ops
   \<and> fst (queue_run ops q) ! k = fifo_answer capacity (past @ take k (fst (queue_run ops q))) (ops ! k)"
proof (induction ops arbitrary: past q k)
  case (Cons p ops)
  obtain answer q1 where st: "queue_step p q = (answer, q1)" by fastforce
  obtain answers q2 where run: "queue_run ops q1 = (answers, q2)" by fastforce
  note first = queue_step_fifo [OF Cons.prems(1) st]
  have len: "length answers = length ops"
    using Cons.IH [OF first(2), of 0] run by (cases ops) auto
  show ?case
  proof (cases k)
    case (Suc j)
    then have "answers ! j = fifo_answer capacity ((past @ [answer]) @ take j answers) (ops ! j)"
      using Cons.IH [OF first(2), of j] Cons.prems(2) run by simp
    then show ?thesis using Suc st run len by simp
  qed (use first(1) st run len in simp)
qed simp

section \<open>Properties\<close>

lemma nan_fadd: "is_nan a \<or> is_nan b \<Longrightarrow> is_nan (fadd a b)"
  by (cases a; cases b) (auto simp: f_nan_def)

lemma nan_fmul: "is_nan a \<or> is_nan b \<Longrightarrow> is_nan (fmul a b)"
  by (cases a; cases b) (auto simp: f_nan_def)

text \<open>
  The concurrency limit is soft: with \<open>n\<close> threads the counter of active requests goes beyond
  its limit by at most \<open>n - 1\<close>, the queue depth likewise, and one thread keeps both limits.
\<close>
theorem load_limit_overshoot:
  assumes "load_run limit depth threads c pcs" "0 < threads"
    and "unat limit + threads \<le> 2 ^ 32" "unat depth + threads \<le> 2 ^ 32"
  shows "unat (lc_active c) \<le> unat limit + (threads - 1) \<and> unat (lc_queued c) \<le> unat depth + (threads - 1)"
  using load_run_bound [OF assms] assms(2) by auto

text \<open>
  The limit is exceeded: two threads that both load the counter before either adds to it are
  both accepted under a limit of one.
\<close>
theorem load_limit_exceeded:
  "\<exists>c. load_run 1 0 2 c {#Decided Accept None, Decided Accept None#} \<and> lc_active c = 2 \<and> concurrency_limit c = 1"
proof -
  have 0: "load_run 1 0 2 (load_new 1 0) {#Start, Start#}"
    using load_start [of 1 0 2] by (simp add: numeral_2_eq_2)
  have 1: "load_run 1 0 2 (load_new 1 0) {#AddActive, Start#}"
    using load_atomic [OF 0] by (simp add: load_new_def)
  have 2: "load_run 1 0 2 (load_new 1 0) {#AddActive, AddActive#}"
    using load_atomic [of 1 0 2 "load_new 1 0" Start "{#AddActive#}"] 1
    by (simp add: load_new_def add_mset_commute)
  have 3: "load_run 1 0 2 ((load_new 1 0)\<lparr>lc_active := 1\<rparr>) {#Decided Accept None, AddActive#}"
    using load_atomic [OF 2] by (simp add: load_new_def)
  have "load_run 1 0 2 ((load_new 1 0)\<lparr>lc_active := 2\<rparr>) {#Decided Accept None, Decided Accept None#}"
    using load_atomic [of 1 0 2 "(load_new 1 0)\<lparr>lc_active := 1\<rparr>" AddActive "{#Decided Accept None#}"] 3
    by (simp add: load_new_def add_mset_commute)
  then show ?thesis by (intro exI [of _ "(load_new 1 0)\<lparr>lc_active := 2\<rparr>"]) (simp add: load_new_def)
qed

theorem load_limit_overshoot_witness:
  "unat (lc_active (snd (load_evaluate (snd (load_evaluate (load_new 1 1)))))) \<le> 1"
proof -
  have 0: "load_run 1 1 1 (load_new 1 1) {#Start#}" using load_start [of 1 1 1] by simp
  have 1: "load_run 1 1 1 (load_new 1 1) {#AddActive#}"
    using load_atomic [OF 0] by (simp add: load_new_def)
  have 2: "load_run 1 1 1 ((load_new 1 1)\<lparr>lc_active := 1\<rparr>) {#Decided Accept None#}"
    using load_atomic [OF 1] by (simp add: load_new_def)
  have 3: "load_run 1 1 1 ((load_new 1 1)\<lparr>lc_active := 1\<rparr>) {#LoadQueue#}"
    using load_atomic [OF load_again [OF 2]] by (simp add: load_new_def)
  have 4: "load_run 1 1 1 ((load_new 1 1)\<lparr>lc_active := 1\<rparr>) {#AddQueue#}"
    using load_atomic [OF 3] by (simp add: load_new_def)
  have "load_run 1 1 1 ((load_new 1 1)\<lparr>lc_active := 1, lc_queued := 1\<rparr>) {#Decided Queue None#}"
    using load_atomic [OF 4] by (simp add: load_new_def)
  from load_limit_overshoot [OF this] show ?thesis by (simp add: load_evaluate_def load_new_def)
qed

text \<open>
  C33: The queue refines a bounded first-in first-out queue, answer by answer: in any history from the
  empty queue, a push is accepted unless exactly as many values as the capacity were taken in and not
  given out, and refused then; a pop finds nothing only when all values taken in were given out, and
  gives out the oldest of the others.
\<close>
theorem queue_is_fifo:
  assumes "k < length ops"
  shows "fst (queue_run ops (queue_new capacity)) ! k
    = fifo_answer capacity (take k (fst (queue_run ops (queue_new capacity)))) (ops ! k)"
proof -
  have "queue_holds capacity [] (queue_new capacity)" by (simp add: queue_holds_def queue_new_def)
  from queue_run_fifo [OF this assms] show ?thesis by simp
qed

lemma queue_is_fifo_witness:
  "fst (queue_run [Some 7, Some 8, Some 9, None] (queue_new 2)) ! 2 = (Refused QueueFull :: nat queue_answer)
   \<and> fst (queue_run [Some 7, Some 8, Some 9, None] (queue_new 2)) ! 3 = (Popped (Some 7) :: nat queue_answer)"
proof -
  let ?ops = "[Some 7, Some 8, Some 9, None] :: nat option list"
  have "take 2 (fst (queue_run ?ops (queue_new 2))) = [Pushed 7, Pushed 8]"
    "take 3 (fst (queue_run ?ops (queue_new 2))) = [Pushed 7, Pushed 8, Refused QueueFull]" by code_simp+
  then show ?thesis using queue_is_fifo [of 2 ?ops 2] queue_is_fifo [of 3 ?ops 2] by (simp add: fifo_answer_def)
qed

text \<open>
  A confidence that is not a number counts as full confidence: the test for low confidence is
  false, so the KV decision is the one for confidence one.
\<close>
theorem kv_nan_confidence_is_high:
  assumes "is_nan (kd_confidence i)"
  shows "decide_kv i = decide_kv (i\<lparr>kd_confidence := f_one\<rparr>)"
proof -
  have "\<not> f_lt f_one (f64_lit (1/2))" by code_simp
  moreover have "\<not> f_lt (kd_confidence i) (f64_lit (1/2))"
    using assms by (cases "kd_confidence i") (simp_all add: f_lt_def)
  ultimately show ?thesis by (simp add: decide_kv_def)
qed

definition sure_transfer :: kv_decision_input where
  "sure_transfer = \<lparr>compatible = True, kv_size_mb = 1, transfer_latency_ms = 1, network_cost = f_zero,
     recomputation_ms = 100, expected_reuse = f_one, failure_risk = f_zero, kd_confidence = f_nan\<rparr>"

theorem kv_nan_confidence_is_high_witness: "decide_kv sure_transfer = (Transfer, ''TRANSFER_BENEFICIAL'')"
proof -
  have n: "f64_of_nat 1 = Fin False 1" "f64_of_nat 100 = Fin False 100" by (simp_all add: f64_of_nat_small)
  have t: "f_lt f_one (f64_lit (1/2)) = False" "f_lt (f64_lit (3/10)) f_zero = False"
    "f_le (fadd (fadd (Fin False 1) f_zero) (fmul f_zero (Fin False 100))) (Fin False 100)" by code_simp+
  have "decide_kv (sure_transfer\<lparr>kd_confidence := f_one\<rparr>) = (Transfer, ''TRANSFER_BENEFICIAL'')"
    using t n by (simp add: decide_kv_def sure_transfer_def)
  then show ?thesis using kv_nan_confidence_is_high [of sure_transfer] by (simp add: sure_transfer_def f_nan_def)
qed

text \<open>
  The KV decision only transfers or recomputes, and transfers only a compatible cache whose
  risk is not above 0.3 and whose cost and risk are numbers.
\<close>
theorem kv_transfer_is_justified:
  "fst (decide_kv i) = Recompute
   \<or> fst (decide_kv i) = Transfer \<and> compatible i \<and> f_le (failure_risk i) (f64_lit (3/10))
     \<and> \<not> is_nan (network_cost i)"
proof -
  have num: "\<not> is_nan (network_cost i) \<and> \<not> is_nan (failure_risk i)"
    if "f_le (fadd (fadd a (network_cost i)) (fmul (failure_risk i) b)) b" for a b
    using that nan_fadd nan_fmul unfolding f_le_def by blast
  have le: "\<not> is_nan v \<Longrightarrow> \<not> f_gt v (f64_lit (3/10)) \<Longrightarrow> f_le v (f64_lit (3/10))" for v
  proof -
    have "\<not> is_nan (f64_lit (3/10))" by code_simp
    then show "\<not> is_nan v \<Longrightarrow> \<not> f_gt v (f64_lit (3/10)) \<Longrightarrow> f_le v (f64_lit (3/10))"
      by (auto simp: f_le_def f_lt_def)
  qed
  show ?thesis
  proof (cases "fst (decide_kv i) = Recompute")
    case False
    then have "compatible i" "\<not> f_gt (failure_risk i) (f64_lit (3/10))" "fst (decide_kv i) = Transfer"
      "f_le (fadd (fadd (f64_of_u64 (transfer_latency_ms i)) (network_cost i))
         (fmul (failure_risk i) (f64_of_u64 (recomputation_ms i)))) (f64_of_u64 (recomputation_ms i))"
      by (simp_all add: decide_kv_def Let_def split: if_splits)
    then show ?thesis using num le by blast
  qed simp
qed

end
