(* ===== verification/NodeLifecycle.thy ===== *)
theory NodeLifecycle
  imports Fabric
begin

text \<open>
  \<open>src/src/fabric.rs\<close>, second part: the life cycle of a node with its bounded log of transitions,
  leases with fencing epochs, the runtime state of a backend, and the canary limits.  The counters
  keep their widths and wrap, as in a release build.
\<close>

section \<open>The life cycle\<close>

datatype lifecycle_state = Healthy | Degraded | Suspect | Draining | Failed | Recovering

record lifecycle_transition =
  lt_from :: lifecycle_state
  lt_to :: lifecycle_state
  lt_reason :: string
  lt_timestamp :: system_time
  lt_revision :: u64

record node_lifecycle =
  nl_state :: lifecycle_state
  consecutive_failures :: u32
  consecutive_successes :: u32
  nl_transitions :: "lifecycle_transition list"
  max_transitions :: nat
  nl_revision :: u64

definition lifecycle_new :: "nat \<Rightarrow> node_lifecycle" where
  "lifecycle_new m =
     \<lparr>nl_state = Healthy, consecutive_failures = 0, consecutive_successes = 0, nl_transitions = [],
      max_transitions = min (max m 1) 1000, nl_revision = 0\<rparr>"

definition log_transition :: "lifecycle_transition \<Rightarrow> node_lifecycle \<Rightarrow> node_lifecycle" where
  "log_transition r n = n\<lparr>nl_transitions := push_when_at_least (max_transitions n) r (nl_transitions n)\<rparr>"

interpretation transition_log: bounded_log log_transition nl_transitions max_transitions
  by unfold_locales (auto simp: log_transition_def push_when_at_least_def)

definition transition :: "system_time \<Rightarrow> lifecycle_state \<Rightarrow> string \<Rightarrow> node_lifecycle \<Rightarrow> node_lifecycle" where
  "transition now to reason n =
     (let rev = nl_revision n + 1;
          r = \<lparr>lt_from = nl_state n, lt_to = to, lt_reason = reason, lt_timestamp = now, lt_revision = rev\<rparr>
      in (log_transition r (n\<lparr>nl_revision := rev\<rparr>))\<lparr>nl_state := to\<rparr>)"

definition lifecycle_record_success :: "system_time \<Rightarrow> node_lifecycle \<Rightarrow> node_lifecycle" where
  "lifecycle_record_success now n =
     (let n = n\<lparr>consecutive_successes := consecutive_successes n + 1, consecutive_failures := 0\<rparr>
      in if nl_state n = Recovering \<and> consecutive_successes n \<ge> 3
         then transition now Healthy ''recovery_complete'' n
         else if nl_state n = Degraded \<and> consecutive_successes n \<ge> 2
         then transition now Healthy ''degraded_recovery'' n
         else if nl_state n = Suspect \<and> consecutive_successes n \<ge> 1
         then transition now Degraded ''suspect_improving'' n
         else n)"

definition lifecycle_record_failure :: "system_time \<Rightarrow> node_lifecycle \<Rightarrow> node_lifecycle" where
  "lifecycle_record_failure now n =
     (let n = n\<lparr>consecutive_failures := consecutive_failures n + 1, consecutive_successes := 0\<rparr>;
          f = consecutive_failures n
      in if f \<ge> 5 \<and> nl_state n \<noteq> Failed then transition now Failed ''failure_threshold'' n
         else if f \<ge> 3 \<and> nl_state n = Healthy then transition now Suspect ''repeated_failures'' n
         else if f \<ge> 2 \<and> (nl_state n = Healthy \<or> nl_state n = Degraded)
         then transition now Degraded ''failures_increasing'' n
         else n)"

definition drain :: "system_time \<Rightarrow> node_lifecycle \<Rightarrow> node_lifecycle" where
  "drain now n = (if nl_state n \<noteq> Draining then transition now Draining ''manual_drain'' n else n)"

definition begin_recovery :: "system_time \<Rightarrow> node_lifecycle \<Rightarrow> node_lifecycle" where
  "begin_recovery now n =
     (if nl_state n = Failed
      then (transition now Recovering ''recovery_initiated'' n)\<lparr>consecutive_failures := 0, consecutive_successes := 0\<rparr>
      else n)"

datatype lifecycle_event =
    Success system_time | Failure system_time | Drain system_time | BeginRecovery system_time

fun lifecycle_apply :: "lifecycle_event \<Rightarrow> node_lifecycle \<Rightarrow> node_lifecycle" where
  "lifecycle_apply (Success now) n = lifecycle_record_success now n"
| "lifecycle_apply (Failure now) n = lifecycle_record_failure now n"
| "lifecycle_apply (Drain now) n = drain now n"
| "lifecycle_apply (BeginRecovery now) n = begin_recovery now n"

definition lifecycle_run :: "lifecycle_event list \<Rightarrow> node_lifecycle \<Rightarrow> node_lifecycle" where
  "lifecycle_run es n = fold lifecycle_apply es n"

lemma lifecycle_run_simps [simp]:
  "lifecycle_run [] n = n" "lifecycle_run (e # es) n = lifecycle_run es (lifecycle_apply e n)"
  by (simp_all add: lifecycle_run_def)

lemma transition_simps [simp]:
  "nl_state (transition now to reason n) = to"
  "consecutive_failures (transition now to reason n) = consecutive_failures n"
  "consecutive_successes (transition now to reason n) = consecutive_successes n"
  "nl_revision (transition now to reason n) = nl_revision n + 1"
  "max_transitions (transition now to reason n) = max_transitions n"
  by (simp_all add: transition_def log_transition_def Let_def)

text \<open>
  Every operation either changes only the two counters or makes one transition between two
  changes of the counters, so an invariant of the log needs two cases.
\<close>

lemma apply_cases:
  obtains f s where "lifecycle_apply e n = n\<lparr>consecutive_failures := f, consecutive_successes := s\<rparr>"
  | f s now to reason f' s' where "lifecycle_apply e n =
      (transition now to reason (n\<lparr>consecutive_failures := f, consecutive_successes := s\<rparr>))
        \<lparr>consecutive_failures := f', consecutive_successes := s'\<rparr>"
proof -
  let ?plain = "\<lambda>m. \<exists>f s. m = n\<lparr>consecutive_failures := f, consecutive_successes := s\<rparr>"
  let ?moved = "\<lambda>m. \<exists>f s now to reason f' s'. m =
      (transition now to reason (n\<lparr>consecutive_failures := f, consecutive_successes := s\<rparr>))
        \<lparr>consecutive_failures := f', consecutive_successes := s'\<rparr>"
  have self: "m = m\<lparr>consecutive_failures := consecutive_failures m, consecutive_successes := consecutive_successes m\<rparr>"
    for m :: node_lifecycle by simp
  have moved: "?moved (transition now to reason (n\<lparr>consecutive_failures := f, consecutive_successes := s\<rparr>))"
    for now to reason f s using self by blast
  have swap: "n\<lparr>consecutive_successes := s, consecutive_failures := f\<rparr>
      = n\<lparr>consecutive_failures := f, consecutive_successes := s\<rparr>" for f s by simp
  have moved': "?moved (transition now to reason n)" for now to reason using moved self [of n] by metis
  have recovered: "?moved ((transition now to reason n)\<lparr>consecutive_failures := f', consecutive_successes := s'\<rparr>)"
    for now to reason f' s' using self [of n] by metis
  have "?plain (lifecycle_apply e n) \<or> ?moved (lifecycle_apply e n)"
  proof (cases e)
    case (Success now)
    then show ?thesis
      by (simp only: lifecycle_apply.simps lifecycle_record_success_def Let_def swap split: if_split) (use moved in blast)
  next
    case (Failure now)
    then show ?thesis
      by (simp only: lifecycle_apply.simps lifecycle_record_failure_def Let_def split: if_split) (use moved in blast)
  next
    case (Drain now)
    then show ?thesis
      by (simp only: lifecycle_apply.simps drain_def split: if_split) (use moved' self in blast)
  next
    case (BeginRecovery now)
    then show ?thesis
      by (simp only: lifecycle_apply.simps begin_recovery_def split: if_split) (use recovered self in blast)
  qed
  then show thesis using that by blast
qed

text \<open>The log is a path that ends in the present state, with consecutive revisions.\<close>

fun chained :: "lifecycle_transition list \<Rightarrow> bool" where
  "chained (r # r' # rs) = (lt_to r = lt_from r' \<and> lt_revision r' = lt_revision r + 1 \<and> chained (r' # rs))"
| "chained _ = True"

definition log_ends :: "node_lifecycle \<Rightarrow> bool" where
  "log_ends n \<longleftrightarrow> transition_log.log_ok n \<and> chained (nl_transitions n)
     \<and> (nl_transitions n \<noteq> [] \<longrightarrow> lt_to (last (nl_transitions n)) = nl_state n
          \<and> lt_revision (last (nl_transitions n)) = nl_revision n)"

lemma chained_append:
  "chained (rs @ [r]) \<longleftrightarrow> chained rs \<and> (rs \<noteq> [] \<longrightarrow> lt_to (last rs) = lt_from r \<and> lt_revision r = lt_revision (last rs) + 1)"
  by (induction rs rule: chained.induct) auto

lemma chained_tl: "chained rs \<Longrightarrow> chained (tl rs)"
  by (cases rs rule: chained.cases) auto

lemma log_ends_transition: "log_ends n \<Longrightarrow> log_ends (transition now to reason n)"
  by (auto simp: log_ends_def transition_log.log_ok_def transition_def log_transition_def Let_def
      push_when_at_least_def chained_append chained_tl last_tl)

lemma log_ends_counters: "log_ends (n\<lparr>consecutive_failures := f, consecutive_successes := s\<rparr>) = log_ends n"
  by (simp add: log_ends_def transition_log.log_ok_def)

lemma log_ends_run: "log_ends n \<Longrightarrow> log_ends (lifecycle_run es n)"
proof (induction es arbitrary: n)
  case (Cons e es)
  have "log_ends (lifecycle_apply e n)"
    by (cases rule: apply_cases [of e n]) (simp_all add: log_ends_counters log_ends_transition Cons.prems)
  then show ?case using Cons.IH by simp
qed simp

lemma capacity_run: "max_transitions (lifecycle_run es n) = max_transitions n"
proof (induction es arbitrary: n)
  case (Cons e es)
  have "max_transitions (lifecycle_apply e n) = max_transitions n"
    by (cases rule: apply_cases [of e n]) simp_all
  then show ?case using Cons.IH by simp
qed simp

text \<open>
  A healthy node has failed at most once in a row: the second failure already degrades it, so
  the third never finds it healthy.
\<close>

definition never_suspect :: "node_lifecycle \<Rightarrow> bool" where
  "never_suspect n \<longleftrightarrow> nl_state n \<noteq> Suspect \<and> (nl_state n = Healthy \<longrightarrow> consecutive_failures n \<le> 1)"

lemma small_failures: "(f :: u32) \<le> 1 \<Longrightarrow> \<not> 2 \<le> f + 1 \<Longrightarrow> f + 1 \<le> 1"
  by (auto simp: word_le_nat_alt unat_word_ariths)

lemma no_third: "(f :: u32) \<le> 1 \<Longrightarrow> \<not> 3 \<le> f + 1"
  by (auto simp: word_le_nat_alt unat_word_ariths)

lemma never_suspect_apply: "never_suspect n \<Longrightarrow> never_suspect (lifecycle_apply e n)"
  using no_third [of "consecutive_failures n"] small_failures [of "consecutive_failures n"]
  by (cases e) (auto simp: never_suspect_def lifecycle_record_success_def lifecycle_record_failure_def drain_def begin_recovery_def Let_def)

lemma never_suspect_run: "never_suspect n \<Longrightarrow> never_suspect (lifecycle_run es n)"
  by (induction es arbitrary: n) (simp_all add: never_suspect_apply)

text \<open>Out of service: failed or drained.\<close>

lemma out_of_service_apply:
  "nl_state n = Failed \<or> nl_state n = Draining \<Longrightarrow> (\<And>now. e \<noteq> BeginRecovery now) \<Longrightarrow>
   nl_state (lifecycle_apply e n) = Failed \<or> nl_state (lifecycle_apply e n) = Draining"
  by (cases e) (auto simp: lifecycle_record_success_def lifecycle_record_failure_def drain_def Let_def)

section \<open>Leases\<close>

record lease =
  ls_epoch :: u64
  ls_owner :: string
  expires_at :: system_time

definition lease_is_valid :: "system_time \<Rightarrow> lease \<Rightarrow> bool" where
  "lease_is_valid now l \<longleftrightarrow> now < expires_at l"

record lease_store =
  current_lease :: "lease option"
  store_epoch :: u64

definition lease_store_new :: lease_store where
  "lease_store_new = \<lparr>current_lease = None, store_epoch = 0\<rparr>"

definition lease_acquire :: "system_time \<Rightarrow> string \<Rightarrow> duration \<Rightarrow> lease_store \<Rightarrow> lease option \<times> lease_store" where
  "lease_acquire now owner ttl s =
     (if (case current_lease s of None \<Rightarrow> False | Some l \<Rightarrow> lease_is_valid now l \<and> ls_owner l \<noteq> owner)
      then (None, s)
      else let epoch = store_epoch s + 1;
               l = \<lparr>ls_epoch = epoch, ls_owner = owner, expires_at = now + int ttl\<rparr>
           in (Some l, \<lparr>current_lease = Some l, store_epoch = epoch\<rparr>))"

definition lease_verify :: "system_time \<Rightarrow> u64 \<Rightarrow> lease_store \<Rightarrow> bool" where
  "lease_verify now epoch s =
     (case current_lease s of None \<Rightarrow> False | Some l \<Rightarrow> ls_epoch l = epoch \<and> lease_is_valid now l)"

text \<open>A sequence of requests, with the leases that were granted.\<close>

fun lease_run :: "(system_time \<times> string \<times> duration) list \<Rightarrow> lease_store \<Rightarrow> lease list \<times> lease_store" where
  "lease_run [] s = ([], s)"
| "lease_run ((now, owner, ttl) # rs) s =
     (case lease_acquire now owner ttl s of (g, s') \<Rightarrow>
        (case lease_run rs s' of (gs, s'') \<Rightarrow> (case g of None \<Rightarrow> gs | Some l \<Rightarrow> l # gs, s'')))"

lemma lease_run_spec:
  "lease_run rs s = (gs, s') \<Longrightarrow>
     map ls_epoch gs = map (\<lambda>i. store_epoch s + of_nat (Suc i)) [0..<length gs]
   \<and> current_lease s' = (if gs = [] then current_lease s else Some (last gs))
   \<and> length gs \<le> length rs"
proof (induction rs arbitrary: s gs)
  case (Cons r rs)
  obtain now owner ttl where r: "r = (now, owner, ttl)" by (metis prod_cases3)
  show ?case
  proof (cases "fst (lease_acquire now owner ttl s)")
    case None
    then have "snd (lease_acquire now owner ttl s) = s" by (auto simp: lease_acquire_def Let_def split: if_splits)
    then have "lease_run rs s = (gs, s')" using Cons.prems None by (auto simp: r split: prod.splits)
    then show ?thesis using Cons.IH by fastforce
  next
    case (Some l)
    obtain gs1 where g: "lease_run rs (snd (lease_acquire now owner ttl s)) = (gs1, s')" "gs = l # gs1"
      using Cons.prems Some by (auto simp: r split: prod.splits)
    have e: "ls_epoch l = store_epoch s + 1" "store_epoch (snd (lease_acquire now owner ttl s)) = store_epoch s + 1"
      "current_lease (snd (lease_acquire now owner ttl s)) = Some l"
      using Some by (auto simp: lease_acquire_def Let_def split: if_splits)
    have "map ls_epoch gs = (store_epoch s + 1) # map (\<lambda>i. store_epoch s + 1 + of_nat (Suc i)) [0..<length gs1]"
      using Cons.IH [OF g(1)] e by (simp add: g(2))
    also have "\<dots> = map (\<lambda>i. store_epoch s + of_nat (Suc i)) [0..<Suc (length gs1)]"
      by (simp add: upt_conv_Cons map_Suc_upt [symmetric] algebra_simps del: upt_Suc)
    finally show ?thesis using Cons.IH [OF g(1)] e by (simp add: g(2))
  qed
qed simp

section \<open>Runtime state, versions and canaries\<close>

datatype execution_phase = Prefill | Decode | PrefillDecode

datatype backend_readiness = Declared | Ready | ReadyDegraded | NotAvailable

record runtime_backend_state =
  rb_backend_id :: string
  readiness :: backend_readiness
  model_loaded :: bool
  rb_model_version :: string
  health_ok :: bool
  last_checked :: system_time

definition is_selectable :: "runtime_backend_state \<Rightarrow> bool" where
  "is_selectable s \<longleftrightarrow> readiness s = Ready \<and> model_loaded s \<and> health_ok s"

definition runtime_is_stale :: "system_time \<Rightarrow> duration \<Rightarrow> runtime_backend_state \<Rightarrow> bool" where
  "runtime_is_stale now max_age s = older_than now max_age (last_checked s)"

datatype version_stage = StageCandidate | Shadow | Canary | StageActive | Deprecated | RolledBack

record versioned_artifact =
  va_name :: string
  va_version :: string
  va_stage :: version_stage

record shadow_evaluation =
  primary_backend :: string
  shadow_backend :: string
  primary_score :: f64
  shadow_score :: f64
  difference :: f64
  sh_confidence :: f64

record canary_config =
  stages :: "f64 list"
  max_error_rate :: f64
  max_p99_latency_ms :: u64
  max_cost_regression :: f64
  min_samples_per_stage :: u64

definition default_canary :: canary_config where
  "default_canary = \<lparr>stages = [f64_lit (1/100), f64_lit (5/100), f64_lit (25/100), f64_lit (50/100), f_one],
     max_error_rate = f64_lit (5/100), max_p99_latency_ms = 500, max_cost_regression = f64_lit (1/10),
     min_samples_per_stage = 100\<rparr>"

definition should_auto_stop :: "canary_config \<Rightarrow> f64 \<Rightarrow> u64 \<Rightarrow> f64 \<Rightarrow> string option" where
  "should_auto_stop c error_rate p99 regression =
     (if f_gt error_rate (max_error_rate c) then Some ''ERROR_RATE_EXCEEDED''
      else if p99 > max_p99_latency_ms c then Some ''P99_LATENCY_EXCEEDED''
      else if f_gt regression (max_cost_regression c) then Some ''COST_REGRESSION''
      else None)"

definition can_promote :: "canary_config \<Rightarrow> u64 \<Rightarrow> nat \<Rightarrow> bool" where
  "can_promote c samples stage \<longleftrightarrow> samples \<ge> min_samples_per_stage c \<and> stage < length (stages c) - 1"

section \<open>Properties\<close>

text \<open>
  No history of successes, failures, drains and recoveries makes a node suspect: the second
  failure in a row degrades a healthy node before the third could mark it.
\<close>
theorem suspect_is_unreachable:
  "nl_state (lifecycle_run es (lifecycle_new m)) \<noteq> Suspect"
proof -
  have "never_suspect (lifecycle_new m)" by (simp add: never_suspect_def lifecycle_new_def)
  from never_suspect_run [OF this] show ?thesis by (simp add: never_suspect_def)
qed

text \<open>
  The log of transitions is a path: each entry starts where the one before ended, with the
  next revision, the last one ends in the present state with the present revision, and there are
  never more entries than the capacity, which lies between 1 and 1000.
\<close>
theorem transition_log_is_a_path:
  fixes es m
  defines "n \<equiv> lifecycle_run es (lifecycle_new m)"
  shows "chained (nl_transitions n) \<and> length (nl_transitions n) \<le> min (max m 1) 1000
    \<and> (nl_transitions n = [] \<or> lt_to (last (nl_transitions n)) = nl_state n
        \<and> lt_revision (last (nl_transitions n)) = nl_revision n)"
proof -
  have "log_ends (lifecycle_new m)" by (simp add: log_ends_def transition_log.log_ok_def lifecycle_new_def)
  then have "log_ends n" by (simp add: n_def log_ends_run)
  moreover have "max_transitions n = min (max m 1) 1000" by (simp add: n_def capacity_run lifecycle_new_def)
  ultimately show ?thesis by (auto simp: log_ends_def transition_log.log_ok_def)
qed

theorem transition_log_is_a_path_witness:
  "lt_to (last (nl_transitions (lifecycle_run [Failure 1, Failure 2] (lifecycle_new 5)))) = Degraded"
proof -
  have "nl_state (lifecycle_run [Failure 1, Failure 2] (lifecycle_new 5)) = Degraded"
    "nl_transitions (lifecycle_run [Failure 1, Failure 2] (lifecycle_new 5)) \<noteq> []" by code_simp+
  then show ?thesis using transition_log_is_a_path [of "[Failure 1, Failure 2]" 5] by simp
qed

text \<open>
  A failed node does not come back by itself: whatever successes, failures and drains follow,
  it stays failed or draining until recovery is begun.
\<close>
theorem failed_needs_recovery:
  assumes "nl_state n = Failed" "\<forall>now. BeginRecovery now \<notin> set es"
  shows "nl_state (lifecycle_run es n) = Failed \<or> nl_state (lifecycle_run es n) = Draining"
proof -
  have "nl_state n = Failed \<or> nl_state n = Draining" using assms(1) by simp
  then show ?thesis using assms(2)
  proof (induction es arbitrary: n)
    case (Cons e es)
    have "nl_state (lifecycle_apply e n) = Failed \<or> nl_state (lifecycle_apply e n) = Draining"
      using out_of_service_apply Cons.prems by (metis list.set_intros(1))
    then show ?case using Cons by simp
  qed simp
qed

definition failed_node :: node_lifecycle where
  "failed_node = lifecycle_run (map Failure [1..5]) (lifecycle_new 10)"

theorem failed_needs_recovery_witness:
  "nl_state (lifecycle_run [Success 6, Drain 7, Success 8] failed_node) \<noteq> Healthy"
proof -
  have "nl_state failed_node = Failed" unfolding failed_node_def by code_simp
  from failed_needs_recovery [OF this, of "[Success 6, Drain 7, Success 8]"] show ?thesis by auto
qed

text \<open>
  C17: Fencing: the epochs of the granted leases count up from one, and after any sequence of
  requests the only epoch that verifies is that of the lease granted last, until it expires; the
  holder of an earlier lease fails verification even while its own lease looks valid.
\<close>
theorem only_last_lease_verifies:
  assumes "lease_run rs lease_store_new = (gs, s)" "length rs < 2 ^ 64"
  shows "map (unat \<circ> ls_epoch) gs = [1..<Suc (length gs)]
    \<and> (\<forall>now epoch. lease_verify now epoch s \<longleftrightarrow>
         gs \<noteq> [] \<and> epoch = ls_epoch (last gs) \<and> now < expires_at (last gs))"
proof -
  note spec = lease_run_spec [OF assms(1)]
  have e: "map ls_epoch gs = map (\<lambda>i. of_nat (Suc i)) [0..<length gs]"
    using spec by (simp add: lease_store_new_def)
  have "map (unat \<circ> ls_epoch) gs = map unat (map ls_epoch gs)" by simp
  also have "\<dots> = map (\<lambda>i. unat (of_nat (Suc i) :: u64)) [0..<length gs]"
    unfolding e by (simp only: map_map comp_def)
  also have "\<dots> = map Suc [0..<length gs]"
    using spec assms(2) by (intro map_cong refl) (simp add: unat_of_nat take_bit_nat_eq_self del: of_nat_Suc)
  finally have "map (unat \<circ> ls_epoch) gs = [1..<Suc (length gs)]" by (simp add: map_Suc_upt)
  moreover have "lease_verify now epoch s \<longleftrightarrow> gs \<noteq> [] \<and> epoch = ls_epoch (last gs) \<and> now < expires_at (last gs)"
    for now epoch
    using spec by (auto simp: lease_verify_def lease_is_valid_def lease_store_new_def)
  ultimately show ?thesis by blast
qed

theorem only_last_lease_verifies_witness:
  "\<not> lease_verify 6 1 (snd (lease_run [(0, ''a'', 10), (5, ''b'', 10), (5, ''a'', 10)] lease_store_new))"
proof -
  have r: "lease_run [(0, ''a'', 10), (5, ''b'', 10), (5, ''a'', 10)] lease_store_new
      = ([\<lparr>ls_epoch = 1, ls_owner = ''a'', expires_at = 10\<rparr>, \<lparr>ls_epoch = 2, ls_owner = ''a'', expires_at = 15\<rparr>],
         \<lparr>current_lease = Some \<lparr>ls_epoch = 2, ls_owner = ''a'', expires_at = 15\<rparr>, store_epoch = 2\<rparr>)"
    by (simp add: lease_acquire_def lease_is_valid_def lease_store_new_def Let_def)
  from only_last_lease_verifies [OF r] show ?thesis unfolding r by simp
qed

text \<open>
  A lease is exclusive while it lasts: the granted leases of two different owners do not
  overlap, in that the second is granted no earlier than the first expires.
\<close>
theorem valid_lease_excludes_others:
  assumes "current_lease s = Some l" "owner \<noteq> ls_owner l" "lease_acquire now owner ttl s = (Some l', s')"
  shows "expires_at l \<le> now \<and> (\<forall>t \<ge> now. \<not> lease_is_valid t l)"
  using assms by (auto simp: lease_acquire_def lease_is_valid_def split: if_splits)

theorem valid_lease_excludes_others_witness:
  "\<not> lease_is_valid 11 \<lparr>ls_epoch = 1, ls_owner = ''a'', expires_at = 10\<rparr>"
  using valid_lease_excludes_others [of "\<lparr>current_lease = Some \<lparr>ls_epoch = 1, ls_owner = ''a'', expires_at = 10\<rparr>, store_epoch = 1\<rparr>"
      "\<lparr>ls_epoch = 1, ls_owner = ''a'', expires_at = 10\<rparr>" "''b''" 11 1]
  by (simp add: lease_acquire_def lease_is_valid_def Let_def)

text \<open>
  A canary whose error rate and cost regression are not numbers is never stopped for them:
  only the latency is tested.
\<close>
theorem nan_canary_not_stopped:
  assumes "is_nan error_rate" "is_nan regression"
  shows "should_auto_stop c error_rate p99 regression
    = (if p99 > max_p99_latency_ms c then Some ''P99_LATENCY_EXCEEDED'' else None)"
  using assms by (simp add: should_auto_stop_def f_lt_def)

theorem nan_canary_not_stopped_witness: "should_auto_stop default_canary f_nan 100 f_nan = None"
proof -
  have "\<not> (100 :: u64) > max_p99_latency_ms default_canary" by (simp add: default_canary_def)
  then show ?thesis using nan_canary_not_stopped [of f_nan f_nan default_canary 100] by (simp add: f_nan_def)
qed

end
