(* ===== verification/AuditChain.thy ===== *)
theory AuditChain
  imports NodeLifecycle
begin

text \<open>
  \<open>src/src/fabric.rs\<close>, third part: the execution compiler, the hash chain of audit records and the
  operational counters.  The MD5 digest, in hexadecimal, comes from a library and is a parameter.
\<close>

section \<open>The execution compiler\<close>

record compiled_plan =
  cp_schema_version :: u8
  cp_model :: string
  cp_model_version :: string
  cp_backend :: string
  cp_node :: string
  cp_phase :: execution_phase
  cp_strategy :: string
  cp_timeout :: duration
  retry_budget :: u32
  cp_kv_action :: kv_action
  cp_kv_reason :: string
  quality_floor :: f64
  cp_world_revision :: u64
  lease_epoch :: u64
  fencing_token :: u64

definition compile_plan ::
  "counterfactual \<Rightarrow> string \<Rightarrow> kv_action \<times> string \<Rightarrow> f64 \<Rightarrow> u64 \<Rightarrow> u64 \<Rightarrow> u64 \<Rightarrow> compiled_plan" where
  "compile_plan c version kv floor_quality revision epoch token =
     \<lparr>cp_schema_version = 2, cp_model = cf_model c, cp_model_version = version, cp_backend = cf_backend_id c,
      cp_node = cf_compute_node_id c, cp_phase = PrefillDecode, cp_strategy = cf_strategy c, cp_timeout = millis 5000,
      retry_budget = 3, cp_kv_action = fst kv, cp_kv_reason = snd kv, quality_floor = floor_quality,
      cp_world_revision = revision, lease_epoch = epoch, fencing_token = token\<rparr>"

section \<open>The audit chain\<close>

record audit_record =
  ar_schema_version :: u8
  ar_event_id :: string
  previous_hash :: string
  current_hash :: string
  ar_timestamp :: system_time
  ar_actor :: string
  ar_world_revision :: u64

definition compute_hash :: "(string \<Rightarrow> string) \<Rightarrow> string \<Rightarrow> string \<Rightarrow> string \<Rightarrow> string" where
  "compute_hash md5 event_id previous actor = md5 (event_id @ ''-'' @ previous @ ''-'' @ actor)"

record audit_chain =
  chain_records :: "audit_record list"
  max_records :: nat

definition chain_new :: "nat \<Rightarrow> audit_chain" where
  "chain_new m = \<lparr>chain_records = [], max_records = min (max m 1) 100000\<rparr>"

definition chain_push :: "audit_record \<Rightarrow> audit_chain \<Rightarrow> audit_chain" where
  "chain_push r c = c\<lparr>chain_records := push_when_at_least (max_records c) r (chain_records c)\<rparr>"

definition next_record :: "(string \<Rightarrow> string) \<Rightarrow> system_time \<Rightarrow> string \<Rightarrow> string \<Rightarrow> u64 \<Rightarrow> audit_chain \<Rightarrow> audit_record" where
  "next_record md5 now event_id actor revision c =
     (let previous = (if chain_records c = [] then ''genesis'' else current_hash (last (chain_records c)))
      in \<lparr>ar_schema_version = 1, ar_event_id = event_id, previous_hash = previous,
          current_hash = compute_hash md5 event_id previous actor, ar_timestamp = now, ar_actor = actor,
          ar_world_revision = revision\<rparr>)"

definition chain_append :: "(string \<Rightarrow> string) \<Rightarrow> system_time \<Rightarrow> string \<Rightarrow> string \<Rightarrow> u64 \<Rightarrow> audit_chain \<Rightarrow> audit_chain" where
  "chain_append md5 now event_id actor revision c = chain_push (next_record md5 now event_id actor revision c) c"

fun verify_records :: "(string \<Rightarrow> string) \<Rightarrow> audit_record list \<Rightarrow> string + unit" where
  "verify_records md5 [] = Inr ()"
| "verify_records md5 (r # rs) =
     (if current_hash r \<noteq> compute_hash md5 (ar_event_id r) (previous_hash r) (ar_actor r)
      then Inl ''TAMPERED_RECORD''
      else case rs of [] \<Rightarrow> Inr ()
           | r' # _ \<Rightarrow> if previous_hash r' \<noteq> current_hash r then Inl ''BROKEN_CHAIN'' else verify_records md5 rs)"

definition verify_integrity :: "(string \<Rightarrow> string) \<Rightarrow> audit_chain \<Rightarrow> string + unit" where
  "verify_integrity md5 c = verify_records md5 (chain_records c)"

interpretation chain_log: bounded_log chain_push chain_records max_records
  by unfold_locales (auto simp: chain_push_def push_when_at_least_def)

text \<open>What verification checks of each record, and between neighbours.\<close>

definition hash_ok :: "(string \<Rightarrow> string) \<Rightarrow> audit_record \<Rightarrow> bool" where
  "hash_ok md5 r \<longleftrightarrow> current_hash r = compute_hash md5 (ar_event_id r) (previous_hash r) (ar_actor r)"

definition linked :: "audit_record list \<Rightarrow> bool" where
  "linked rs \<longleftrightarrow> successively (\<lambda>r r'. previous_hash r' = current_hash r) rs"

lemma verify_records_iff: "verify_records md5 rs = Inr () \<longleftrightarrow> (\<forall>r \<in> set rs. hash_ok md5 r) \<and> linked rs"
  by (induction rs rule: induct_list012) (auto simp: hash_ok_def linked_def)

lemma linked_append: "linked (rs @ rs') \<Longrightarrow> linked rs \<and> linked rs'"
  by (simp add: linked_def successively_append_iff)

lemma linked_drop: "linked rs \<Longrightarrow> linked (drop n rs)"
  using linked_append [of "take n rs" "drop n rs"] by simp

lemma linked_take: "linked rs \<Longrightarrow> linked (take n rs)"
  using linked_append [of "take n rs" "drop n rs"] by simp

lemma hash_ok_next: "hash_ok md5 (next_record md5 now e a wr c)"
  by (simp add: hash_ok_def next_record_def Let_def)

lemma linked_next: "linked (chain_records c) \<Longrightarrow> linked (chain_records c @ [next_record md5 now e a wr c])"
  by (simp add: linked_def successively_append_iff next_record_def Let_def)

lemma verify_append:
  assumes "chain_log.log_ok c" "verify_integrity md5 c = Inr ()"
  shows "verify_integrity md5 (chain_append md5 now e a wr c) = Inr ()"
proof -
  let ?rs = "chain_records c @ [next_record md5 now e a wr c]"
  have rs: "linked ?rs" "\<forall>r \<in> set ?rs. hash_ok md5 r"
    using assms(2) linked_next hash_ok_next by (auto simp: verify_integrity_def verify_records_iff)
  have "linked (drop k ?rs) \<and> (\<forall>r \<in> set (drop k ?rs). hash_ok md5 r)" for k
    using linked_drop [OF rs(1)] rs(2) set_drop_subset [of k ?rs] by blast
  then show ?thesis
    unfolding verify_integrity_def chain_append_def chain_log.entries_push_drop [OF assms(1)] verify_records_iff
    by blast
qed

text \<open>Appending a list of events, each with its time, actor and revision.\<close>

definition append_all :: "(string \<Rightarrow> string) \<Rightarrow> (system_time \<times> string \<times> string \<times> u64) list \<Rightarrow> audit_chain \<Rightarrow> audit_chain" where
  "append_all md5 es c = fold (\<lambda>(now, e, a, wr). chain_append md5 now e a wr) es c"

lemma append_all_verifies:
  "chain_log.log_ok c \<Longrightarrow> verify_integrity md5 c = Inr () \<Longrightarrow>
   chain_log.log_ok (append_all md5 es c) \<and> verify_integrity md5 (append_all md5 es c) = Inr ()"
proof (induction es arbitrary: c)
  case (Cons x es)
  obtain now e a wr where x: "x = (now, e, a, wr)" by (metis prod_cases4)
  have "chain_log.log_ok (chain_append md5 now e a wr c)"
    using Cons.prems(1) by (simp add: chain_append_def chain_log.log_ok_push)
  with Cons.IH verify_append [OF Cons.prems] show ?case by (simp add: append_all_def x)
qed (simp add: append_all_def)

lemma append_all_records:
  "chain_log.log_ok c \<Longrightarrow> (\<And>r. (ar_event_id r, ar_actor r) = P r) \<Longrightarrow>
   map P (chain_records (append_all md5 es c))
     = drop (length (chain_records c) + length es - max_records c)
         (map P (chain_records c) @ map (\<lambda>(_, e, a, _). (e, a)) es)"
proof (induction es arbitrary: c)
  case (Cons x es)
  obtain now e a wr where x: "x = (now, e, a, wr)" by (metis prod_cases4)
  let ?r = "next_record md5 now e a wr c"
  have P: "P ?r = (e, a)" using Cons.prems(2) [of ?r] by (simp add: next_record_def Let_def)
  have ok: "chain_log.log_ok (chain_push ?r c)" using Cons.prems(1) by (rule chain_log.log_ok_push)
  have len: "length (chain_records (chain_push ?r c)) = min (max_records c) (Suc (length (chain_records c)))"
    using Cons.prems(1) by (auto simp: chain_push_def push_when_at_least_def chain_log.log_ok_def)
  have "map P (chain_records (append_all md5 (x # es) c)) = map P (chain_records (append_all md5 es (chain_push ?r c)))"
    by (simp add: append_all_def x chain_append_def)
  also have "\<dots> = drop (length (chain_records (chain_push ?r c)) + length es - max_records c)
      (map P (chain_records (chain_push ?r c)) @ map (\<lambda>(_, e, a, _). (e, a)) es)"
    using Cons.IH [OF ok Cons.prems(2)] by (simp add: chain_log.cap_push)
  also have "map P (chain_records (chain_push ?r c)) @ map (\<lambda>(_, e, a, _). (e, a)) es
      = drop (Suc (length (chain_records c)) - max_records c)
          (map P (chain_records c) @ map (\<lambda>(_, e, a, _). (e, a)) (x # es))"
    using Cons.prems(1) P chain_log.entries_push_drop [OF Cons.prems(1), of ?r]
    by (auto simp: chain_log.log_ok_def x drop_map)
  finally show ?case using len Cons.prems(1) by (auto simp: chain_log.log_ok_def min_def add.commute)
qed (simp add: append_all_def chain_log.log_ok_def)

section \<open>Counters\<close>

record fabric_metrics =
  admission_accepted :: u64
  admission_queued :: u64
  admission_shed :: u64
  executions :: u64
  execution_failures :: u64
  kv_transfers :: u64
  kv_recomputes :: u64
  stale_readiness_rejections :: u64
  firewall_approvals :: u64
  firewall_rejections :: u64
  low_confidence_decisions :: u64
  canary_auto_stops :: u64

definition fabric_metrics_new :: fabric_metrics where
  "fabric_metrics_new = \<lparr>admission_accepted = 0, admission_queued = 0, admission_shed = 0, executions = 0,
     execution_failures = 0, kv_transfers = 0, kv_recomputes = 0, stale_readiness_rejections = 0,
     firewall_approvals = 0, firewall_rejections = 0, low_confidence_decisions = 0, canary_auto_stops = 0\<rparr>"

section \<open>Properties\<close>

text \<open>
  C23: A chain that was only appended to verifies, also after its oldest records were evicted, and
  it holds the most recent events with their actors, in order.
\<close>
theorem appended_chain_verifies:
  "verify_integrity md5 (append_all md5 es (chain_new m)) = Inr ()
   \<and> map (\<lambda>r. (ar_event_id r, ar_actor r)) (chain_records (append_all md5 es (chain_new m)))
       = drop (length es - min (max m 1) 100000) (map (\<lambda>(_, e, a, _). (e, a)) es)"
proof -
  have ok: "chain_log.log_ok (chain_new m)" by (simp add: chain_log.log_ok_def chain_new_def)
  have v: "verify_integrity md5 (chain_new m) = Inr ()" by (simp add: verify_integrity_def chain_new_def)
  show ?thesis using append_all_verifies [OF ok v, of es] append_all_records [OF ok refl, of md5 es]
    by (simp add: chain_new_def)
qed

text \<open>
  Changing the event or the actor of a record is detected when it changes the digest: no
  chain that holds the changed record verifies unless its stored hash is changed with it.
\<close>
theorem tampering_is_detected:
  assumes "hash_ok md5 r" "chain_records c = before @ r\<lparr>ar_event_id := e, ar_actor := a\<rparr> # after"
    and "compute_hash md5 e (previous_hash r) a \<noteq> compute_hash md5 (ar_event_id r) (previous_hash r) (ar_actor r)"
  shows "isl (verify_integrity md5 c)"
proof -
  have "\<not> hash_ok md5 (r\<lparr>ar_event_id := e, ar_actor := a\<rparr>)" using assms(1,3) by (simp add: hash_ok_def)
  then have "verify_integrity md5 c \<noteq> Inr ()"
    using assms(2) by (auto simp: verify_integrity_def verify_records_iff)
  then show ?thesis by (cases "verify_integrity md5 c") auto
qed

definition sample_record :: audit_record where
  "sample_record = \<lparr>ar_schema_version = 1, ar_event_id = ''e'', previous_hash = ''genesis'',
     current_hash = ''e-genesis-a'', ar_timestamp = 1, ar_actor = ''a'', ar_world_revision = 0\<rparr>"

lemma sample_verifies: "hash_ok id sample_record" "verify_integrity id \<lparr>chain_records = [sample_record], max_records = 4\<rparr> = Inr ()"
  by (simp_all add: hash_ok_def compute_hash_def sample_record_def verify_integrity_def)

theorem tampering_is_detected_witness:
  "isl (verify_integrity id \<lparr>chain_records = [sample_record\<lparr>ar_event_id := ''f'', ar_actor := ''a''\<rparr>], max_records = 4\<rparr>)"
  by (rule tampering_is_detected [OF sample_verifies(1), where before = "[]" and after = "[]" and e = "''f''" and a = "''a''"])
    (simp_all add: compute_hash_def sample_record_def)

text \<open>
  The digest does not cover everything: changing the time, the world revision or the schema
  version of any record, and dropping records at either end, go unnoticed.
\<close>
theorem uncovered_fields_undetected:
  assumes "verify_integrity md5 c = Inr ()"
  shows "verify_integrity md5 (c\<lparr>chain_records := drop i (take j (map (\<lambda>r. r\<lparr>ar_timestamp := t r,
      ar_world_revision := wr r, ar_schema_version := v r\<rparr>) (chain_records c)))\<rparr>) = Inr ()"
proof -
  let ?f = "\<lambda>r. r\<lparr>ar_timestamp := t r, ar_world_revision := wr r, ar_schema_version := v r\<rparr>"
  have "linked (map ?f (chain_records c))"
    using assms by (simp add: verify_integrity_def verify_records_iff linked_def successively_map)
  moreover have "\<forall>r \<in> set (map ?f (chain_records c)). hash_ok md5 r"
    using assms by (simp add: verify_integrity_def verify_records_iff hash_ok_def)
  ultimately show ?thesis
    by (auto simp: verify_integrity_def verify_records_iff intro!: linked_drop linked_take dest!: in_set_dropD in_set_takeD)
qed

theorem uncovered_fields_undetected_witness:
  "verify_integrity id \<lparr>chain_records = [sample_record\<lparr>ar_timestamp := 99, ar_world_revision := 42, ar_schema_version := 7\<rparr>],
     max_records = 4\<rparr> = Inr ()"
  using uncovered_fields_undetected [OF sample_verifies(2), where i = 0 and j = 1 and t = "\<lambda>_. 99" and
      wr = "\<lambda>_. 42" and v = "\<lambda>_. 7"] by simp

text \<open>
  The digested text is ambiguous: a record and the one whose event takes over the first part
  of its actor have the same digest, whatever the hash function.
\<close>
theorem digest_is_ambiguous:
  "compute_hash md5 e p (p @ ''-'' @ a) = compute_hash md5 (e @ ''-'' @ p) p a"
  by (simp add: compute_hash_def)

end
