(* ===== verification/RouterProps.thy ===== *)
theory RouterProps
  imports RouterSafety
begin

text \<open>
  What the router promises its callers, in every reachable state: safe paths, justified
  escalations, a bounded cache, isolated tenants, a complete recovery probe and a faithful
  audit trail.
\<close>

section \<open>Decisions\<close>

lemma cached_route_safe:
  "tenant_inv t \<Longrightarrow> map_of (cache t) k = Some c \<Longrightarrow> cached_ok t k c"
  by (simp add: tenant_inv_def all_hits_def hit_def)

lemma route_fast_cases:
  assumes "route_fast tid start goal r = (Some d, r')"
  obtains t c where "map_of (tenants r) tid = Some t" "map_of (cache t) \<lparr>rk_start = start, rk_goal = goal\<rparr> = Some c"
    "d = Routed (cached_route c)" "r' = push_event (reroute tid start goal (cached_route c)) r"
  using assms by (auto simp: route_fast_def split: option.splits)

lemma route_slow_cases:
  obtains (unknown) "map_of (tenants r) tid = None"
      "route_slow tid start goal r = (let c = \<lparr>ec_tenant_id = tid, ec_start = start, ec_goal = goal,
         ec_reason = TenantNotFound, failed_or_blocked_nodes = []\<rparr> in (Escalate c, push_event (ExplicitEscalation c) r))"
  | (cached) t c where "map_of (tenants r) tid = Some t" "map_of (cache t) \<lparr>rk_start = start, rk_goal = goal\<rparr> = Some c"
      "route_slow tid start goal r = (Routed (cached_route c), push_event (reroute tid start goal (cached_route c))
         (put_tenant tid (snd (get_cached \<lparr>rk_start = start, rk_goal = goal\<rparr> t)) r))"
  | (searched) t rt where "map_of (tenants r) tid = Some t"
      "shortest_path (health t) (cost_model t) (graph t) start goal = Some rt"
      "route_slow tid start goal r = (Routed rt, push_event (reroute tid start goal rt)
         (put_tenant tid (insert_cache \<lparr>rk_start = start, rk_goal = goal\<rparr>
            \<lparr>cp_path = nodes rt, cp_weight = total_cost rt, touched_nodes = set (nodes rt)\<rparr> t) r))"
  | (blocked) t where "map_of (tenants r) tid = Some t"
      "shortest_path (health t) (cost_model t) (graph t) start goal = None"
      "route_slow tid start goal r = (let c = \<lparr>ec_tenant_id = tid, ec_start = start, ec_goal = goal,
         ec_reason = NoFeasiblePath, failed_or_blocked_nodes = blocked_nodes t\<rparr>
         in (Escalate c, push_event (ExplicitEscalation c) r))"
proof (cases "map_of (tenants r) tid")
  case None
  then show thesis using unknown by (simp add: route_slow_def Let_def)
next
  case (Some t)
  let ?k = "\<lparr>rk_start = start, rk_goal = goal\<rparr>"
  show thesis
  proof (cases "map_of (cache t) ?k")
    case None
    then show thesis
      using Some searched blocked
      by (cases "shortest_path (health t) (cost_model t) (graph t) start goal")
         (simp_all add: route_slow_def get_cached_def Let_def)
  next
    case (Some c)
    then show thesis
      using \<open>map_of (tenants r) tid = Some t\<close> cached by (simp add: route_slow_def get_cached_def Let_def)
  qed
qed

lemma routed_paths_safe:
  assumes "router_reachable r"
    and "fst (route_slow tid start goal r) = Routed rt \<or> fst (route_fast tid start goal r) = Some (Routed rt)"
  shows "\<exists>t. map_of (tenants r) tid = Some t \<and> nodes rt \<noteq> [] \<and> hd (nodes rt) = start
    \<and> last (nodes rt) = goal \<and> distinct (nodes rt) \<and> successively (usable_hop (health t) (graph t)) (nodes rt)"
proof -
  have inv: "router_inv r" using assms(1) by (rule router_reachable_inv)
  have hit: "\<exists>t. map_of (tenants r) tid = Some t \<and> nodes rt \<noteq> [] \<and> hd (nodes rt) = start
    \<and> last (nodes rt) = goal \<and> distinct (nodes rt) \<and> successively (usable_hop (health t) (graph t)) (nodes rt)"
    if "map_of (tenants r) tid = Some t" "map_of (cache t) \<lparr>rk_start = start, rk_goal = goal\<rparr> = Some c"
      "rt = cached_route c" for t c
    using that cached_route_safe [OF router_inv_tenant [OF inv that(1)] that(2)]
    by (simp add: cached_ok_def cached_route_def)
  from assms(2) show ?thesis
  proof
    assume slow: "fst (route_slow tid start goal r) = Routed rt"
    show ?thesis
    proof (cases rule: route_slow_cases [where r = r and tid = tid and start = start and goal = goal])
      case (cached t c)
      then show ?thesis using slow hit [OF cached(1,2)] by simp
    next
      case (searched t rt')
      then have "rt' = rt" using slow by simp
      with searched show ?thesis
        using search_cached_ok [OF router_inv_tenant [OF inv searched(1)] searched(2)] by (simp add: cached_ok_def)
    qed (use slow in \<open>simp_all add: Let_def\<close>)
  next
    assume "fst (route_fast tid start goal r) = Some (Routed rt)"
    then have "route_fast tid start goal r = (Some (Routed rt), snd (route_fast tid start goal r))"
      by (simp add: prod_eq_iff)
    then show ?thesis by (rule route_fast_cases) (use hit in blast)
  qed
qed

text \<open>
  C1: No routing decision ever sends traffic into an open breaker.  In every state the router
  can reach, under any interleaving of other operations between the two steps of the call, a
  returned path (searched or served from the cache) starts and ends where asked, visits no node
  twice, and follows enabled, valid edges of the tenant's present graph into nodes whose
  breakers are not open now.
\<close>
theorem routed_paths_are_safe:
  assumes "router_reachable r"
    and "fst (route_slow tid start goal r) = Routed rt \<or> fst (route_fast tid start goal r) = Some (Routed rt)"
  shows "\<exists>t. map_of (tenants r) tid = Some t \<and> nodes rt \<noteq> [] \<and> hd (nodes rt) = start
    \<and> last (nodes rt) = goal \<and> distinct (nodes rt) \<and> successively (usable_hop (health t) (graph t)) (nodes rt)"
  using routed_paths_safe [OF assms] .

definition demo_router :: router where
  "demo_router = add_edge ''t'' (edge_new ''a'' ''b'') router_new"

lemma edge_new_wf: "wf_edge (edge_new a b)"
  using rnd_of_int [of 1] by (simp add: edge_new_def wf_edge_def max_mag_def)

lemma demo_router_reachable: "router_reachable demo_router"
  unfolding demo_router_def
  by (rule reach_step [OF reach_new step_add_edge])
     (simp_all add: edge_new_wf tenant_or_default_def get_or_def router_new_def default_tenant_def empty_graph_def)

lemma demo_router_tenants: "map_of (tenants demo_router) ''t''
   = Some (default_tenant\<lparr>graph := graph_add_edge (edge_new ''a'' ''b'') empty_graph\<rparr>)"
  by (simp add: demo_router_def add_edge_def Let_def tenants_put tenant_or_default_def get_or_def router_new_def
      invalidate_all_cache_def default_tenant_def)

lemma trivial_route: "fst (route_slow ''t'' ''a'' ''a'' demo_router)
   = Routed \<lparr>nodes = [''a''], total_cost = f_zero, cache_hit = False\<rparr>"
  by (simp add: route_slow_def demo_router_tenants get_cached_def default_tenant_def shortest_path_def Let_def)

theorem routed_paths_are_safe_witness:
  "\<exists>t :: tenant_state. map_of (tenants demo_router) ''t'' = Some t
     \<and> successively (usable_hop (health t) (graph t)) [''a'']"
  using routed_paths_are_safe [OF demo_router_reachable, of "''t''" "''a''" "''a''"] trivial_route by auto

text \<open>What an escalation names: the open nodes, sorted and without duplicates.\<close>

lemma blocked_nodes_open:
  assumes "tenant_inv t" "map_of (tenants r) tid = Some t"
  shows "sorted (blocked_nodes t)" "distinct (blocked_nodes t)"
    "set (blocked_nodes t) = {n. node_state_of tid n r = Some Open}"
  using assms by (auto simp: blocked_nodes_def tenant_inv_def) (force simp: blocked_nodes_def node_state_of_def tenant_inv_def)+

text \<open>
  C13: An escalation is justified.  The router escalates a known tenant only when start and goal
  differ and no path of finite cost leads from one to the other in the tenant's present graph,
  and it then names exactly the nodes whose breakers are open, sorted and without duplicates.
  An unknown tenant is escalated as such.
\<close>
theorem escalation_is_justified:
  assumes "router_reachable r" "fst (route_slow tid start goal r) = Escalate c"
  shows "ec_tenant_id c = tid \<and> ec_start c = start \<and> ec_goal c = goal
    \<and> (case map_of (tenants r) tid of
         None \<Rightarrow> ec_reason c = TenantNotFound \<and> failed_or_blocked_nodes c = []
       | Some t \<Rightarrow> ec_reason c = NoFeasiblePath \<and> start \<noteq> goal
           \<and> (\<forall>s g p d. map_of (node_to_id (graph t)) start = Some s \<longrightarrow> map_of (node_to_id (graph t)) goal = Some g
                \<longrightarrow> costed_path (hops (health t) (cost_model t) (graph t)) s p g d \<longrightarrow> d = f_inf)
           \<and> sorted (failed_or_blocked_nodes c) \<and> distinct (failed_or_blocked_nodes c)
           \<and> set (failed_or_blocked_nodes c) = {n. node_state_of tid n r = Some Open})"
  using assms(2)
proof (cases rule: route_slow_cases [where r = r and tid = tid and start = start and goal = goal])
  case (blocked t)
  have t: "tenant_inv t" using router_inv_tenant [OF router_reachable_inv [OF assms(1)] blocked(1)] .
  have ne: "start \<noteq> goal" using blocked(2) by (auto simp: shortest_path_def)
  have "d = f_inf" if "map_of (node_to_id (graph t)) start = Some s" "map_of (node_to_id (graph t)) goal = Some g"
      "costed_path (hops (health t) (cost_model t) (graph t)) s p g d" for s g p d
    using shortest_path_search(1) [OF _ _ _ that(1,2) ne, of "cost_model t" "health t"] t blocked(2) that(3)
    by (auto simp: tenant_inv_def optimal_route_def)
  then show ?thesis
    using assms(2) blocked ne blocked_nodes_open [OF t blocked(1)] by (auto simp: Let_def)
qed (use assms(2) in \<open>auto simp: Let_def\<close>)

lemma unknown_route: "fst (route_slow ''u'' ''a'' ''b'' router_new) = Escalate
   \<lparr>ec_tenant_id = ''u'', ec_start = ''a'', ec_goal = ''b'', ec_reason = TenantNotFound, failed_or_blocked_nodes = []\<rparr>"
  by (simp add: route_slow_def router_new_def Let_def)

theorem escalation_is_justified_witness:
  "\<exists>c :: escalation_context. fst (route_slow ''u'' ''a'' ''b'' router_new) = Escalate c \<and> ec_reason c = TenantNotFound"
  using escalation_is_justified [OF reach_new unknown_route] unknown_route by (auto simp: router_new_def)

text \<open>
  A cache miss is answered optimally: the slow path returns a searched route of least cost
  and stores it, so that the next call of the fast path for the same key answers with the same
  path and cost, marked as a hit.
\<close>
theorem miss_then_hit:
  assumes "router_reachable r" "map_of (tenants r) tid = Some t"
    and "map_of (cache t) \<lparr>rk_start = start, rk_goal = goal\<rparr> = None"
    and "route_slow tid start goal r = (Routed rt, r')"
  shows "shortest_path (health t) (cost_model t) (graph t) start goal = Some rt
    \<and> fst (route_fast tid start goal r') = Some (Routed (rt\<lparr>cache_hit := True\<rparr>))"
proof (cases rule: route_slow_cases [where r = r and tid = tid and start = start and goal = goal])
  case (searched t' rt')
  have "cache_inv t" using router_inv_tenant [OF router_reachable_inv [OF assms(1)] assms(2)] by (simp add: tenant_inv_def)
  then have "hit \<lparr>rk_start = start, rk_goal = goal\<rparr> (insert_cache \<lparr>rk_start = start, rk_goal = goal\<rparr>
      \<lparr>cp_path = nodes rt, cp_weight = total_cost rt, touched_nodes = set (nodes rt)\<rparr> t)
    = Some \<lparr>cp_path = nodes rt, cp_weight = total_cost rt, touched_nodes = set (nodes rt)\<rparr>"
    by (rule routes.get_put)
  then show ?thesis
    using searched assms by (auto simp: route_fast_def tenants_put hit_def cached_route_def)
qed (use assms in \<open>auto simp: Let_def\<close>)

theorem miss_then_hit_witness:
  "fst (route_fast ''t'' ''a'' ''a'' (snd (route_slow ''t'' ''a'' ''a'' demo_router)))
     = Some (Routed \<lparr>nodes = [''a''], total_cost = f_zero, cache_hit = True\<rparr>)"
  using miss_then_hit [OF demo_router_reachable demo_router_tenants, of "''a''" "''a''"
      "\<lparr>nodes = [''a''], total_cost = f_zero, cache_hit = False\<rparr>" "snd (route_slow ''t'' ''a'' ''a'' demo_router)"]
    trivial_route by (simp add: prod_eq_iff default_tenant_def)

text \<open>
  A cache hit does not renew the entry.  A call that is answered from the cache changes
  nothing of the tenants, in particular not the order of eviction, so entries are evicted in
  the order in which they were inserted, however often they are hit.
\<close>
theorem hits_do_not_renew:
  assumes "map_of (tenants r) tid = Some t" "map_of (cache t) \<lparr>rk_start = start, rk_goal = goal\<rparr> = Some c"
  shows "route_request tid start goal r
    = (Routed (cached_route c), push_event (reroute tid start goal (cached_route c)) r)
    \<and> tenants (snd (route_request tid start goal r)) = tenants r"
  using assms by (simp add: route_request_def route_fast_def)

lemma demo_hit:
  "map_of (tenants (snd (route_slow ''t'' ''a'' ''a'' demo_router))) ''t''
     = Some (insert_cache \<lparr>rk_start = ''a'', rk_goal = ''a''\<rparr>
         \<lparr>cp_path = [''a''], cp_weight = f_zero, touched_nodes = {''a''}\<rparr>
         (default_tenant\<lparr>graph := graph_add_edge (edge_new ''a'' ''b'') empty_graph\<rparr>))"
  by (simp add: route_slow_def demo_router_tenants get_cached_def default_tenant_def shortest_path_def Let_def tenants_put)

theorem hits_do_not_renew_witness:
  "tenants (snd (route_request ''t'' ''a'' ''a'' (snd (route_slow ''t'' ''a'' ''a'' demo_router))))
     = tenants (snd (route_slow ''t'' ''a'' ''a'' demo_router))"
  using hits_do_not_renew [OF demo_hit, of "''a''" "''a''"]
  by (simp add: insert_cache_def Let_def map_laws)

section \<open>State\<close>

text \<open>
  C34: The route cache of every tenant is bounded and consistent in every reachable state: at
  most 1024 entries, and the eviction order lists each cached key exactly once.
\<close>
theorem route_cache_bounded:
  assumes "router_reachable r" "map_of (tenants r) tid = Some t"
  shows "length (cache t) \<le> 1024 \<and> distinct_keys (cache t)
    \<and> distinct (cache_order t) \<and> set (cache_order t) = fst ` set (cache t)"
  using router_inv_tenant [OF router_reachable_inv [OF assms(1)] assms(2)]
  by (simp add: tenant_inv_def cache_inv_def ROUTE_CACHE_LIMIT_def)

theorem route_cache_bounded_witness:
  "\<exists>t :: tenant_state. map_of (tenants demo_router) ''t'' = Some t \<and> length (cache t) \<le> 1024"
  using route_cache_bounded [OF demo_router_reachable demo_router_tenants] demo_router_tenants by blast

text \<open>The operations on one tenant.\<close>

inductive tenant_step :: "tenant_id \<Rightarrow> router \<Rightarrow> router \<Rightarrow> bool" where
  "tenant_step tid r (add_tenant tid r)"
| "tenant_step tid r (set_cost_model tid m r)"
| "tenant_step tid r (snd (try_set_health_policy tid p r))"
| "tenant_step tid r (add_edge tid e r)"
| "tenant_step tid r (record_result now tid n ok latency r)"
| "tenant_step tid r (snd (force_half_open tid n r))"
| "tenant_step tid r (snd (route_request tid start goal r))"

lemma route_slow_frame:
  "tid' \<noteq> tid \<Longrightarrow> map_of (tenants (snd (route_slow tid start goal r))) tid' = map_of (tenants r) tid'"
  by (cases rule: route_slow_cases [where r = r and tid = tid and start = start and goal = goal])
     (simp_all add: Let_def tenants_put)

lemma tenant_step_frame:
  "tenant_step tid r r' \<Longrightarrow> tid' \<noteq> tid \<Longrightarrow> map_of (tenants r') tid' = map_of (tenants r) tid'"
  by (induction rule: tenant_step.induct)
     (auto simp: add_tenant_def set_cost_model_def try_set_cost_model_def try_set_health_policy_def add_edge_def
        record_result_def force_half_open_def route_request_def route_fast_def tenants_put Let_def
        route_slow_frame split: sum.split option.split prod.split)

lemma route_request_cong:
  "map_of (tenants r) tid = map_of (tenants r') tid
   \<Longrightarrow> fst (route_request tid start goal r) = fst (route_request tid start goal r')"
  by (auto simp: route_request_def route_fast_def route_slow_def Let_def split: option.split prod.split)

text \<open>
  C19: Tenants are isolated.  No operation on one tenant changes the state of another one, the
  states of its nodes, or the decision it gets for any route.
\<close>
theorem tenants_isolated:
  assumes "tenant_step tid r r'" "tid' \<noteq> tid"
  shows "map_of (tenants r') tid' = map_of (tenants r) tid' \<and> node_state_of tid' n r' = node_state_of tid' n r
    \<and> fst (route_request tid' start goal r') = fst (route_request tid' start goal r)"
  using tenant_step_frame [OF assms] route_request_cong [of r' tid' r start goal]
  by (simp add: node_state_of_def)

theorem tenants_isolated_witness:
  "fst (route_request ''t'' ''a'' ''b'' (record_result 0 ''u'' ''b'' False 5 demo_router))
     = fst (route_request ''t'' ''a'' ''b'' demo_router)"
  using tenants_isolated [OF tenant_step.intros(5), of "''t''" "''u''"] by blast

section \<open>Recovery\<close>

lemma probe_opened_health:
  "map_option health (map_of (tenants (probe_opened p r)) tid) = map_option health (map_of (tenants r) tid)"
  "map_option graph (map_of (tenants (probe_opened p r)) tid) = map_option graph (map_of (tenants r) tid)"
  by (cases p; auto simp: probe_opened_def tenants_put split: option.split)+

lemma fold_probe_health:
  "map_option health (map_of (tenants (fold probe_opened ps r)) tid) = map_option health (map_of (tenants r) tid)"
  "map_option graph (map_of (tenants (fold probe_opened ps r)) tid) = map_option graph (map_of (tenants r) tid)"
  by (induction ps arbitrary: r) (simp_all add: probe_opened_health)

lemma probe_health:
  "map_option health (map_of (tenants (snd (run_recovery_probe_once cd now r))) tid)
     = map_option (\<lambda>t. probe_trackers cd now (health t)) (map_of (tenants r) tid)"
  "map_option graph (map_of (tenants (snd (run_recovery_probe_once cd now r))) tid)
     = map_option graph (map_of (tenants r) tid)"
  by (simp_all add: run_recovery_probe_once_def Let_def fold_probe_health map_of_map option.map_comp comp_def)

text \<open>
  The recovery probe is complete and touches nothing else: afterwards exactly the open
  nodes whose cooldown has passed are half-open, of every tenant, and every other node has the
  state it had.
\<close>
theorem probe_reopens_ready_nodes:
  "node_state_of tid n (snd (run_recovery_probe_once cd now r)) =
     (case map_of (tenants r) tid of None \<Rightarrow> None
      | Some t \<Rightarrow> (case map_of (health t) n of None \<Rightarrow> None
          | Some h \<Rightarrow> Some (if ht_state h = Open \<and> (\<exists>at0. opened_at h = Some at0 \<and> cd \<le> now - at0)
                            then HalfOpen else ht_state h)))"
proof -
  let ?r = "snd (run_recovery_probe_once cd now r)"
  show ?thesis
  proof (cases "map_of (tenants r) tid")
    case None
    then show ?thesis using probe_health(1) [where tid = tid and cd = cd and now = now and r = r] by (simp add: node_state_of_def)
  next
    case (Some t)
    then obtain t' where t': "map_of (tenants ?r) tid = Some t'" "health t' = probe_trackers cd now (health t)"
      using probe_health(1) [where tid = tid and cd = cd and now = now and r = r] by auto
    show ?thesis
      by (auto simp: Some t' node_state_of_def map_of_probe transition_to_half_open_if_ready_def split: option.split)
  qed
qed

section \<open>The audit trail\<close>

lemma route_request_pushes:
  obtains ev where "audit_log (snd (route_request tid start goal r)) = audit_push ev (audit_log r)"
    "case fst (route_request tid start goal r) of
       Routed rt \<Rightarrow> ev = reroute tid start goal rt | Escalate c \<Rightarrow> ev = ExplicitEscalation c"
proof -
  obtain d r' where d: "route_request tid start goal r = (d, r')" by (metis surj_pair)
  have "\<exists>ev. audit_log r' = audit_push ev (audit_log r) \<and> (case d of
         Routed rt \<Rightarrow> ev = reroute tid start goal rt | Escalate c \<Rightarrow> ev = ExplicitEscalation c)"
  proof (cases "fst (route_fast tid start goal r)")
    case None
    then have "route_slow tid start goal r = (d, r')"
      using d by (auto simp: route_request_def split: prod.splits)
    then show ?thesis
      by (cases rule: route_slow_cases [where r = r and tid = tid and start = start and goal = goal])
         (auto simp: Let_def push_event_def)
  next
    case (Some d')
    then have "route_fast tid start goal r = (Some d, r')"
      using d by (auto simp: route_request_def split: prod.splits)
    then show ?thesis by (rule route_fast_cases) (auto simp: push_event_def)
  qed
  then show thesis using that d by auto
qed

lemma route_request_audited:
  assumes "router_reachable r"
  shows "\<exists>ev. router_events (snd (route_request tid start goal r)) = ap_events (audit_push ev (audit_log r))
    \<and> last_audit_event (snd (route_request tid start goal r)) = Some ev
    \<and> (case fst (route_request tid start goal r) of
         Routed rt \<Rightarrow> ev = Reroute tid start goal (nodes rt) (total_cost rt) (cache_hit rt)
       | Escalate c \<Rightarrow> ev = ExplicitEscalation c)"
proof -
  have ok: "audit.log_ok (audit_log r)"
    using router_reachable_inv [OF assms] by (simp add: router_inv_def)
  have last: "last_event (audit_push ev (audit_log r)) = Some ev" for ev
    using audit.last_push [OF ok, of ev] by (simp add: last_event_def audit_push_def Let_def)
  show ?thesis
    by (rule route_request_pushes [where r = r and tid = tid and start = start and goal = goal])
       (auto simp: last router_events_def last_audit_event_def reroute_def split: route_decision.splits)
qed

text \<open>
  Every routing call leaves exactly one audit event, the newest of the trail, and it says
  what the caller was told: the path, its cost and whether it was a cache hit, or the context of
  the escalation.
\<close>
theorem route_calls_are_audited:
  assumes "router_reachable r"
  shows "\<exists>ev. router_events (snd (route_request tid start goal r)) = ap_events (audit_push ev (audit_log r))
    \<and> last_audit_event (snd (route_request tid start goal r)) = Some ev
    \<and> (case fst (route_request tid start goal r) of
         Routed rt \<Rightarrow> ev = Reroute tid start goal (nodes rt) (total_cost rt) (cache_hit rt)
       | Escalate c \<Rightarrow> ev = ExplicitEscalation c)"
  using route_request_audited [OF assms] .

theorem route_calls_are_audited_witness:
  "\<exists>ev. last_audit_event (snd (route_request ''u'' ''a'' ''b'' router_new)) = Some ev"
  using route_calls_are_audited [OF reach_new] by blast

end
