(* ===== verification/Planner.thy ===== *)
theory Planner
  imports RouterProps Kv
begin

text \<open>
  \<open>src/src/planner.rs\<close> and \<open>src/src/escalation.rs\<close>: a routing decision turned into a bounded
  execution plan, or into a bounded recovery plan when the router escalates.  The planner shares
  the router, so planning passes the router's state along.
\<close>

section \<open>Recovery plans\<close>

record recovery_plan =
  rp_blocked_nodes :: "node_id list"
  rp_steps :: "string list"

definition adapter_new :: "nat \<Rightarrow> nat" where
  "adapter_new max_steps = max max_steps 1"

definition recovery_plan_for :: "nat \<Rightarrow> escalation_context \<Rightarrow> recovery_plan" where
  "recovery_plan_for max_steps context =
     (let steps = map (\<lambda>node. ''Inspect or replace blocked tool: '' @ node)
                    (take max_steps (failed_or_blocked_nodes context));
          steps = (if length steps < max_steps
                   then steps @ [''Ask the recovery planner for a bounded alternate workflow.''] else steps)
      in \<lparr>rp_blocked_nodes = failed_or_blocked_nodes context, rp_steps = take max_steps steps\<rparr>)"

section \<open>Requests and plans\<close>

definition MAX_EXECUTION_PLAN_STEPS :: nat where "MAX_EXECUTION_PLAN_STEPS = 64"

record planning_request =
  pr_tenant_id :: tenant_id
  pr_start :: node_id
  pr_goal :: node_id

datatype planning_error = InvalidRequest string | RouteExceedsStepLimit nat nat

fun planning_error_display :: "(nat \<Rightarrow> string) \<Rightarrow> planning_error \<Rightarrow> string" where
  "planning_error_display show_nat (InvalidRequest message) = ''invalid planning request: '' @ message"
| "planning_error_display show_nat (RouteExceedsStepLimit n limit) =
     ''route has '' @ show_nat n @ '' steps, above execution-plan limit '' @ show_nat limit"

definition validate_identifier :: "string \<Rightarrow> string \<Rightarrow> planning_error + unit" where
  "validate_identifier field value =
     (if value = [] \<or> length value > 128 then Inl (InvalidRequest (field @ '' must be 1-128 characters''))
      else if \<not> list_all id_char value then Inl (InvalidRequest (field @ '' contains invalid characters''))
      else Inr ())"

definition request_validate :: "planning_request \<Rightarrow> planning_error + unit" where
  "request_validate q =
     (case validate_identifier ''tenant_id'' (pr_tenant_id q) of Inl e \<Rightarrow> Inl e
      | Inr _ \<Rightarrow> (case validate_identifier ''start'' (pr_start q) of Inl e \<Rightarrow> Inl e
          | Inr _ \<Rightarrow> (case validate_identifier ''goal'' (pr_goal q) of Inl e \<Rightarrow> Inl e
              | Inr _ \<Rightarrow> Inr ())))"

record system_snapshot =
  ss_tenant_id :: tenant_id
  ss_start :: node_id
  ss_goal :: node_id
  ss_cache_hit :: bool

record candidate =
  ca_nodes :: "node_id list"
  ca_score :: f64

record execution_step =
  ordinal :: nat
  es_node :: node_id

record execution_plan =
  ep_schema_version :: u8
  ep_snapshot :: system_snapshot
  ep_candidate :: candidate
  ep_steps :: "execution_step list"
  ep_kv :: kv_plan

datatype plan_outcome = Execute execution_plan | Recover system_snapshot escalation_context recovery_plan

record planner =
  max_steps :: nat
  recovery_steps :: nat
  pl_kv :: kv_intelligence

definition default_kv_intelligence :: kv_intelligence where
  "default_kv_intelligence = \<lparr>ki_models = empty_models, ki_compatibility = empty_compat, ki_policy = default_kv_policy\<rparr>"

definition with_limits :: "nat \<Rightarrow> nat \<Rightarrow> planner" where
  "with_limits steps recovery = \<lparr>max_steps = min (max steps 1) MAX_EXECUTION_PLAN_STEPS,
     recovery_steps = adapter_new recovery, pl_kv = default_kv_intelligence\<rparr>"

definition planner_new :: planner where
  "planner_new = with_limits MAX_EXECUTION_PLAN_STEPS 4"

definition with_kv_intelligence :: "kv_intelligence \<Rightarrow> planner \<Rightarrow> planner" where
  "with_kv_intelligence kv p = p\<lparr>pl_kv := kv\<rparr>"

definition make_plan :: "planner \<Rightarrow> planning_request \<Rightarrow> route \<Rightarrow> planning_error + plan_outcome" where
  "make_plan p q rt =
     (if length (nodes rt) > max_steps p then Inl (RouteExceedsStepLimit (length (nodes rt)) (max_steps p))
      else if \<not> is_finite (total_cost rt) \<or> f_lt (total_cost rt) f_zero
      then Inl (InvalidRequest ''routing core returned an invalid candidate score'')
      else Inr (Execute \<lparr>ep_schema_version = 1,
             ep_snapshot = \<lparr>ss_tenant_id = pr_tenant_id q, ss_start = pr_start q, ss_goal = pr_goal q,
                            ss_cache_hit = cache_hit rt\<rparr>,
             ep_candidate = \<lparr>ca_nodes = nodes rt, ca_score = total_cost rt\<rparr>,
             ep_steps = map (\<lambda>(i, n). \<lparr>ordinal = i, es_node = n\<rparr>) (enumerate 0 (nodes rt)),
             ep_kv = kv_normal (pl_kv p)\<rparr>))"

definition plan :: "planner \<Rightarrow> planning_request \<Rightarrow> router \<Rightarrow> (planning_error + plan_outcome) \<times> router" where
  "plan p q r =
     (case request_validate q of
        Inl e \<Rightarrow> (Inl e, r)
      | Inr _ \<Rightarrow>
          (case route_request (pr_tenant_id q) (pr_start q) (pr_goal q) r of
             (Routed rt, r') \<Rightarrow> (make_plan p q rt, r')
           | (Escalate c, r') \<Rightarrow>
               (Inr (Recover \<lparr>ss_tenant_id = pr_tenant_id q, ss_start = pr_start q, ss_goal = pr_goal q,
                              ss_cache_hit = False\<rparr> c (recovery_plan_for (recovery_steps p) c)), r')))"

definition plan_with_kv ::
  "planner \<Rightarrow> planning_request \<Rightarrow> kv_context \<Rightarrow> router \<Rightarrow> (planning_error + plan_outcome) \<times> router" where
  "plan_with_kv p q cx r =
     (case plan p q r of
        (Inr (Execute ep), r') \<Rightarrow> (Inr (Execute (ep\<lparr>ep_kv := kv_select (pl_kv p) cx\<rparr>)), r')
      | (outcome, r') \<Rightarrow> (outcome, r'))"

section \<open>Properties\<close>

lemma validate_identifier_iff: "validate_identifier field v = Inr () \<longleftrightarrow> valid_identifier v"
  by (auto simp: validate_identifier_def valid_identifier_def)

lemma request_validate_iff: "request_validate q = Inr () \<longleftrightarrow>
   valid_identifier (pr_tenant_id q) \<and> valid_identifier (pr_start q) \<and> valid_identifier (pr_goal q)"
  using validate_identifier_iff [of "''tenant_id''" "pr_tenant_id q"] validate_identifier_iff [of "''start''" "pr_start q"]
    validate_identifier_iff [of "''goal''" "pr_goal q"]
  by (auto simp: request_validate_def split: sum.split)

lemma recovery_bounded:
  "0 < k \<Longrightarrow> length (rp_steps (recovery_plan_for k c)) \<le> k \<and> rp_steps (recovery_plan_for k c) \<noteq> []
    \<and> rp_blocked_nodes (recovery_plan_for k c) = failed_or_blocked_nodes c"
  by (auto simp: recovery_plan_for_def Let_def)

lemma with_limits_bounds: "1 \<le> max_steps (with_limits a b) \<and> max_steps (with_limits a b) \<le> 64 \<and> 1 \<le> recovery_steps (with_limits a b)"
  by (auto simp: with_limits_def adapter_new_def MAX_EXECUTION_PLAN_STEPS_def)

lemma route_request_safe:
  assumes "router_reachable r" "fst (route_request tid start goal r) = Routed rt"
  shows "\<exists>t. map_of (tenants r) tid = Some t \<and> nodes rt \<noteq> [] \<and> hd (nodes rt) = start
    \<and> last (nodes rt) = goal \<and> distinct (nodes rt) \<and> successively (usable_hop (health t) (graph t)) (nodes rt)"
  using assms routed_paths_safe [OF assms(1), of tid start goal rt]
  by (auto simp: route_request_def split: prod.splits option.splits)

text \<open>
  C11: An execution plan is a bounded, safe piece of work: for a valid request on a reachable
  router its steps are numbered from 0 and are the nodes of a path from start to goal without
  repetitions, over usable hops of the tenant's graph into nodes that are not open; there are at
  most 64 of them, and the score is a finite non-negative cost.
\<close>
theorem execution_plan_safe:
  assumes "router_reachable r" "fst (plan (with_limits a b) q r) = Inr (Execute ep)"
  shows "\<exists>t. map_of (tenants r) (pr_tenant_id q) = Some t
    \<and> map es_node (ep_steps ep) = ca_nodes (ep_candidate ep)
    \<and> map ordinal (ep_steps ep) = [0..<length (ep_steps ep)]
    \<and> ep_steps ep \<noteq> [] \<and> length (ep_steps ep) \<le> 64 \<and> length (ep_steps ep) \<le> max a 1
    \<and> hd (ca_nodes (ep_candidate ep)) = pr_start q \<and> last (ca_nodes (ep_candidate ep)) = pr_goal q
    \<and> distinct (ca_nodes (ep_candidate ep))
    \<and> successively (usable_hop (health t) (graph t)) (ca_nodes (ep_candidate ep))
    \<and> is_finite (ca_score (ep_candidate ep)) \<and> \<not> f_lt (ca_score (ep_candidate ep)) f_zero"
proof -
  obtain rt where rt: "fst (route_request (pr_tenant_id q) (pr_start q) (pr_goal q) r) = Routed rt"
    "make_plan (with_limits a b) q rt = Inr (Execute ep)"
    using assms(2) by (auto simp: plan_def split: sum.splits prod.splits route_decision.splits)
  have ep: "ca_nodes (ep_candidate ep) = nodes rt" "ca_score (ep_candidate ep) = total_cost rt"
    "ep_steps ep = map (\<lambda>(i, n). \<lparr>ordinal = i, es_node = n\<rparr>) (enumerate 0 (nodes rt))"
    "length (nodes rt) \<le> max_steps (with_limits a b)" "is_finite (total_cost rt)" "\<not> f_lt (total_cost rt) f_zero"
    using rt(2) by (auto simp: make_plan_def split: if_splits)
  have st: "map es_node (ep_steps ep) = nodes rt" "map ordinal (ep_steps ep) = [0..<length (nodes rt)]"
    "length (ep_steps ep) = length (nodes rt)"
    by (simp_all add: ep(3) case_prod_unfold comp_def)
  have "length (nodes rt) \<le> 64" "length (nodes rt) \<le> max a 1"
    using ep(4) by (auto simp: with_limits_def MAX_EXECUTION_PLAN_STEPS_def)
  moreover have "ep_steps ep \<noteq> [] \<longleftrightarrow> nodes rt \<noteq> []" using st(3) by (metis length_0_conv)
  ultimately show ?thesis
    using route_request_safe [OF assms(1) rt(1)] ep st by simp
qed

definition trivial_request :: planning_request where
  "trivial_request = \<lparr>pr_tenant_id = ''t'', pr_start = ''a'', pr_goal = ''a''\<rparr>"

lemma trivial_plan: "\<exists>ep. fst (plan (with_limits 3 3) trivial_request demo_router) = Inr (Execute ep)"
proof -
  have v: "request_validate trivial_request = Inr ()" by code_simp
  have "fst (route_request ''t'' ''a'' ''a'' demo_router) = Routed \<lparr>nodes = [''a''], total_cost = f_zero, cache_hit = False\<rparr>"
    using trivial_route by (simp add: route_request_def route_fast_def demo_router_tenants default_tenant_def)
  then show ?thesis
    using v by (auto simp: plan_def trivial_request_def make_plan_def with_limits_def MAX_EXECUTION_PLAN_STEPS_def
        f_lt_def split: prod.splits)
qed

theorem execution_plan_safe_witness:
  "\<exists>ep :: execution_plan. fst (plan (with_limits 3 3) trivial_request demo_router) = Inr (Execute ep)
     \<and> length (ep_steps ep) \<le> 3"
proof -
  obtain ep where ep: "fst (plan (with_limits 3 3) trivial_request demo_router) = Inr (Execute ep)"
    using trivial_plan by blast
  then show ?thesis using execution_plan_safe [OF demo_router_reachable ep] by auto
qed

text \<open>
  A recovery outcome carries the escalation of the router and a plan of at least one and at
  most the configured number of steps; an invalid request is refused before the router is
  touched.
\<close>
theorem recovery_plan_bounded:
  "(\<forall>s c rp. fst (plan (with_limits a b) q r) = Inr (Recover s c rp) \<longrightarrow>
      fst (route_request (pr_tenant_id q) (pr_start q) (pr_goal q) r) = Escalate c
      \<and> rp_steps rp \<noteq> [] \<and> length (rp_steps rp) \<le> max b 1 \<and> rp_blocked_nodes rp = failed_or_blocked_nodes c)
   \<and> (request_validate q \<noteq> Inr () \<longrightarrow> isl (fst (plan (with_limits a b) q r)) \<and> snd (plan (with_limits a b) q r) = r)"
proof -
  have "rp = recovery_plan_for (max b 1) c \<and> fst (route_request (pr_tenant_id q) (pr_start q) (pr_goal q) r) = Escalate c"
    if "fst (plan (with_limits a b) q r) = Inr (Recover s c rp)" for s c rp
    using that by (auto simp: plan_def make_plan_def with_limits_def adapter_new_def
        split: sum.splits prod.splits route_decision.splits if_splits)
  moreover have "isl (fst (plan (with_limits a b) q r)) \<and> snd (plan (with_limits a b) q r) = r" if "request_validate q \<noteq> Inr ()"
    using that by (cases "request_validate q") (auto simp: plan_def)
  ultimately show ?thesis using recovery_bounded [of "max b 1"] by (metis max.strict_coboundedI2 zero_less_one)
qed

theorem recovery_plan_bounded_witness:
  "snd (plan (with_limits 1 1) \<lparr>pr_tenant_id = [], pr_start = ''a'', pr_goal = ''b''\<rparr> router_new) = router_new"
proof -
  have "request_validate \<lparr>pr_tenant_id = [], pr_start = ''a'', pr_goal = ''b''\<rparr> \<noteq> Inr ()" by code_simp
  then show ?thesis using recovery_plan_bounded by blast
qed

end
