(* ===== verification/Inference.thy ===== *)
theory Inference
  imports Kv
begin

text \<open>
  \<open>src/src/inference.rs\<close>: feasibility and scoring of inference candidates.  The comparator chains
  of the code (\<open>then_with\<close> over \<open>cmp\<close> and \<open>total_cmp\<close>) are the lexicographic order of tuples, so a
  stable \<open>sort_by\<close> is \<^const>\<open>sort_key\<close> with that tuple as key.
\<close>

section \<open>Orders\<close>

fun kv_rank :: "kv_strategy \<Rightarrow> nat" where
  "kv_rank NoKv = 0"
| "kv_rank PrefixCache = 1"
| "kv_rank CachedKv = 2"
| "kv_rank CrossModelKvTransfer = 3"

lemma kv_rank_inject: "kv_rank a = kv_rank b \<longleftrightarrow> a = b"
  by (cases a; cases b) simp_all

instantiation kv_strategy :: linorder
begin

definition less_eq_kv_strategy :: "kv_strategy \<Rightarrow> kv_strategy \<Rightarrow> bool" where
  "a \<le> b \<longleftrightarrow> kv_rank a \<le> kv_rank b"

definition less_kv_strategy :: "kv_strategy \<Rightarrow> kv_strategy \<Rightarrow> bool" where
  "a < b \<longleftrightarrow> kv_rank a < kv_rank b"

instance
  by standard (auto simp: less_eq_kv_strategy_def less_kv_strategy_def kv_rank_inject)

end

datatype rejection_reason =
    InvalidEstimate | LatencyConstraint | CostConstraint | QualityConstraint | InvalidPlanningConfig

fun rejection_rank :: "rejection_reason \<Rightarrow> nat" where
  "rejection_rank InvalidEstimate = 0"
| "rejection_rank LatencyConstraint = 1"
| "rejection_rank CostConstraint = 2"
| "rejection_rank QualityConstraint = 3"
| "rejection_rank InvalidPlanningConfig = 4"

section \<open>Candidates, constraints, weights\<close>

record inference_candidate =
  ic_model :: model_reference
  ic_strategy :: kv_strategy
  ic_latency_ms :: f64
  ic_cost :: f64
  ic_failure_rate :: f64
  ic_quality :: f64

record inference_constraints =
  ct_max_latency_ms :: f64
  ct_max_cost :: f64
  ct_min_quality :: f64

definition default_constraints :: inference_constraints where
  "default_constraints = \<lparr>ct_max_latency_ms = f64_lit 1000, ct_max_cost = f_one, ct_min_quality = f_zero\<rparr>"

datatype decision_error = InvalidConstraints | InvalidObjective

definition constraints_validate :: "inference_constraints \<Rightarrow> decision_error + unit" where
  "constraints_validate c =
     (if \<not> is_finite (ct_max_latency_ms c) \<or> f_lt (ct_max_latency_ms c) f_zero
         \<or> \<not> is_finite (ct_max_cost c) \<or> f_lt (ct_max_cost c) f_zero
         \<or> \<not> is_ratio (ct_min_quality c)
      then Inl InvalidConstraints else Inr ())"

record objective_weights =
  ow_latency :: f64
  ow_cost :: f64
  ow_reliability :: f64
  ow_quality :: f64

definition default_objective :: objective_weights where
  "default_objective = \<lparr>ow_latency = f_one, ow_cost = f_one, ow_reliability = f_one, ow_quality = f_one\<rparr>"

definition objective_validate :: "objective_weights \<Rightarrow> decision_error + unit" where
  "objective_validate w =
     (let all = [ow_latency w, ow_cost w, ow_reliability w, ow_quality w]
      in if list_ex (\<lambda>v. \<not> is_finite v \<or> f_lt v f_zero) all \<or> list_all (\<lambda>v. f_eq v f_zero) all
         then Inl InvalidObjective else Inr ())"

record scored_candidate =
  sc_candidate :: inference_candidate
  sc_score :: f64

record decision_explanation =
  de_selected :: "scored_candidate option"
  de_rejected :: "(inference_candidate \<times> rejection_reason) list"
  de_fallback :: "kv_strategy list"
  de_config_error :: "decision_error option"

section \<open>Deciding\<close>

definition valid_estimate :: "f64 \<Rightarrow> bool" where
  "valid_estimate v \<longleftrightarrow> is_finite v \<and> f_ge v f_zero"

definition normalized :: "f64 \<Rightarrow> f64 \<Rightarrow> f64" where
  "normalized value ceil = (if f_eq ceil f_zero then f_zero else fdiv value ceil)"

definition candidate_key ::
  "inference_candidate \<Rightarrow> model_reference \<times> kv_strategy \<times> f64 \<times> f64 \<times> f64 \<times> f64" where
  "candidate_key c = (ic_model c, ic_strategy c, ic_latency_ms c, ic_cost c, ic_failure_rate c, ic_quality c)"

definition inference_rejection :: "inference_constraints \<Rightarrow> inference_candidate \<Rightarrow> rejection_reason option" where
  "inference_rejection ct c =
     (if \<not> list_all valid_estimate [ic_latency_ms c, ic_cost c, ic_failure_rate c, ic_quality c]
         \<or> f_gt (ic_failure_rate c) f_one \<or> f_gt (ic_quality c) f_one
      then Some InvalidEstimate
      else if f_gt (ic_latency_ms c) (ct_max_latency_ms ct) then Some LatencyConstraint
      else if f_gt (ic_cost c) (ct_max_cost ct) then Some CostConstraint
      else if f_lt (ic_quality c) (ct_min_quality ct) then Some QualityConstraint
      else None)"

definition inference_score ::
  "inference_constraints \<Rightarrow> objective_weights \<Rightarrow> inference_candidate \<Rightarrow> f64" where
  "inference_score ct w c =
     fadd (fadd (fadd (fmul (ow_latency w) (normalized (ic_latency_ms c) (ct_max_latency_ms ct)))
                      (fmul (ow_cost w) (normalized (ic_cost c) (ct_max_cost ct))))
                (fmul (ow_reliability w) (ic_failure_rate c)))
          (fmul (ow_quality w) (fsub f_one (ic_quality c)))"

fun fallback :: "kv_strategy \<Rightarrow> kv_strategy list" where
  "fallback CrossModelKvTransfer = [CachedKv, PrefixCache, NoKv]"
| "fallback CachedKv = [PrefixCache, NoKv]"
| "fallback PrefixCache = [NoKv]"
| "fallback NoKv = []"

definition rejected_list ::
  "inference_constraints \<Rightarrow> inference_candidate list \<Rightarrow> (inference_candidate \<times> rejection_reason) list" where
  "rejected_list ct cs = List.map_filter (\<lambda>c. map_option (Pair c) (inference_rejection ct c)) cs"

definition feasible_list ::
  "inference_constraints \<Rightarrow> objective_weights \<Rightarrow> inference_candidate list \<Rightarrow> scored_candidate list" where
  "feasible_list ct w cs =
     map (\<lambda>c. \<lparr>sc_candidate = c, sc_score = inference_score ct w c\<rparr>)
       (filter (\<lambda>c. inference_rejection ct c = None) cs)"

definition try_decide ::
  "inference_candidate list \<Rightarrow> inference_constraints \<Rightarrow> objective_weights
   \<Rightarrow> decision_error + decision_explanation" where
  "try_decide cs ct w =
     (case constraints_validate ct of
        Inl e \<Rightarrow> Inl e
      | Inr _ \<Rightarrow>
          (case objective_validate w of
             Inl e \<Rightarrow> Inl e
           | Inr _ \<Rightarrow>
               (let rejected = sort_key (\<lambda>(c, r). (candidate_key c, rejection_rank r)) (rejected_list ct cs);
                    feasible = sort_key (\<lambda>s. (sc_score s, candidate_key (sc_candidate s))) (feasible_list ct w cs);
                    selected = (case feasible of [] \<Rightarrow> None | s # _ \<Rightarrow> Some s)
                in Inr \<lparr>de_selected = selected, de_rejected = rejected,
                        de_fallback = (case selected of None \<Rightarrow> [] | Some s \<Rightarrow> fallback (ic_strategy (sc_candidate s))),
                        de_config_error = None\<rparr>)))"

definition decide ::
  "inference_candidate list \<Rightarrow> inference_constraints \<Rightarrow> objective_weights \<Rightarrow> decision_explanation" where
  "decide cs ct w =
     (case try_decide cs ct w of
        Inr d \<Rightarrow> d
      | Inl e \<Rightarrow> \<lparr>de_selected = None,
                  de_rejected = sort_key (\<lambda>(c, r). candidate_key c) (map (\<lambda>c. (c, InvalidPlanningConfig)) cs),
                  de_fallback = [], de_config_error = Some e\<rparr>)"

text \<open>\<open>src/src/evaluation.rs\<close>\<close>

definition replay ::
  "inference_candidate list \<Rightarrow> inference_constraints \<Rightarrow> objective_weights \<Rightarrow> decision_explanation" where
  "replay cs ct w = decide cs ct w"

section \<open>Determinism\<close>

lemma candidate_key_inject: "candidate_key c = candidate_key d \<longleftrightarrow> (c :: inference_candidate) = d"
  by (cases c; cases d) (auto simp: candidate_key_def)

lemma rejection_rank_inject: "rejection_rank a = rejection_rank b \<longleftrightarrow> a = b"
  by (cases a; cases b) simp_all

lemma mset_map_filter: "mset xs = mset ys \<Longrightarrow> mset (List.map_filter f xs) = mset (List.map_filter f ys)"
  by (simp add: List.map_filter_def mset_filter)

lemma try_decide_perm:
  assumes "mset cs = mset ds"
  shows "try_decide cs ct w = try_decide ds ct w"
proof -
  have "sort_key (\<lambda>(c, r). (candidate_key c, rejection_rank r)) (rejected_list ct cs)
      = sort_key (\<lambda>(c, r). (candidate_key c, rejection_rank r)) (rejected_list ct ds)"
    by (rule sort_key_mset)
       (use assms in \<open>auto simp: rejected_list_def inj_on_def candidate_key_inject rejection_rank_inject intro: mset_map_filter\<close>)
  moreover have "sort_key (\<lambda>s. (sc_score s, candidate_key (sc_candidate s))) (feasible_list ct w cs)
      = sort_key (\<lambda>s. (sc_score s, candidate_key (sc_candidate s))) (feasible_list ct w ds)"
    by (rule sort_key_mset) (use assms in \<open>auto simp: feasible_list_def inj_on_def candidate_key_inject mset_filter\<close>)
  ultimately show ?thesis by (simp add: try_decide_def split: sum.split)
qed

lemma decide_config_error:
  "try_decide cs ct w = Inl e \<Longrightarrow> try_decide ds ct w = Inl e"
  by (auto simp: try_decide_def Let_def split: sum.splits)

text \<open>
  C32: A decision does not depend on the order in which the candidates are given: any
  permutation of the input leads to the same selection, the same ordered list of rejections and
  the same fallbacks, invalid configurations included.
\<close>
theorem decision_order_independent:
  assumes "mset cs = mset ds"
  shows "decide cs ct w = decide ds ct w"
proof (cases "try_decide cs ct w")
  case (Inl e)
  have "sort_key (\<lambda>(c, r). candidate_key c) (map (\<lambda>c. (c, InvalidPlanningConfig)) cs)
      = sort_key (\<lambda>(c, r). candidate_key c) (map (\<lambda>c. (c, InvalidPlanningConfig)) ds)"
    by (rule sort_key_mset) (use assms in \<open>auto simp: inj_on_def candidate_key_inject\<close>)
  then show ?thesis using Inl decide_config_error [OF Inl, of ds] by (simp add: decide_def)
next
  case (Inr d)
  then show ?thesis using try_decide_perm [OF assms] by (simp add: decide_def)
qed

definition free_candidate :: inference_candidate where
  "free_candidate = \<lparr>ic_model = model_new ''m'' ''1'', ic_strategy = NoKv, ic_latency_ms = f_zero, ic_cost = f_zero,
     ic_failure_rate = f_zero, ic_quality = f_one\<rparr>"

theorem decision_order_independent_witness:
  "decide [free_candidate, free_candidate\<lparr>ic_cost := f_one\<rparr>] default_constraints default_objective
   = decide [free_candidate\<lparr>ic_cost := f_one\<rparr>, free_candidate] default_constraints default_objective"
  by (rule decision_order_independent) simp

section \<open>Selection\<close>

lemma try_decide_Inr:
  assumes "try_decide cs ct w = Inr d"
  shows "constraints_validate ct = Inr ()" "objective_validate w = Inr ()"
    and "de_rejected d = sort_key (\<lambda>(c, r). (candidate_key c, rejection_rank r)) (rejected_list ct cs)"
    and "de_selected d = (case sort_key (\<lambda>s. (sc_score s, candidate_key (sc_candidate s))) (feasible_list ct w cs) of
           [] \<Rightarrow> None | s # _ \<Rightarrow> Some s)"
    and "de_fallback d = (case de_selected d of None \<Rightarrow> [] | Some s \<Rightarrow> fallback (ic_strategy (sc_candidate s)))"
    and "de_config_error d = None"
  using assms by (auto simp: try_decide_def Let_def split: sum.splits)

lemma selected_least:
  assumes "try_decide cs ct w = Inr d" "de_selected d = Some s"
  shows "sc_candidate s \<in> set cs" "inference_rejection ct (sc_candidate s) = None"
    "sc_score s = inference_score ct w (sc_candidate s)"
    and "\<And>c. c \<in> set cs \<Longrightarrow> inference_rejection ct c = None \<Longrightarrow>
      (sc_score s, candidate_key (sc_candidate s)) \<le> (inference_score ct w c, candidate_key c)"
proof -
  obtain ss where "sort_key (\<lambda>s. (sc_score s, candidate_key (sc_candidate s))) (feasible_list ct w cs) = s # ss"
    using assms try_decide_Inr(4) [OF assms(1)] by (auto split: list.splits)
  from hd_sort_key_least [OF this] have s: "s \<in> set (feasible_list ct w cs)"
    "\<forall>x \<in> set (feasible_list ct w cs). (sc_score s, candidate_key (sc_candidate s)) \<le> (sc_score x, candidate_key (sc_candidate x))"
    by simp_all
  then show "sc_candidate s \<in> set cs" "inference_rejection ct (sc_candidate s) = None"
    "sc_score s = inference_score ct w (sc_candidate s)"
    by (auto simp: feasible_list_def)
  show "\<And>c. c \<in> set cs \<Longrightarrow> inference_rejection ct c = None \<Longrightarrow>
      (sc_score s, candidate_key (sc_candidate s)) \<le> (inference_score ct w c, candidate_key c)"
    using s(2) by (force simp: feasible_list_def)
qed

lemma selected_None_iff:
  assumes "try_decide cs ct w = Inr d"
  shows "de_selected d = None \<longleftrightarrow> (\<forall>c \<in> set cs. inference_rejection ct c \<noteq> None)"
proof -
  have "de_selected d = None \<longleftrightarrow> sort_key (\<lambda>s. (sc_score s, candidate_key (sc_candidate s))) (feasible_list ct w cs) = []"
    unfolding try_decide_Inr(4) [OF assms] by (simp split: list.split)
  also have "\<dots> \<longleftrightarrow> feasible_list ct w cs = []"
    by (rule sort_key_Nil_iff)
  finally show ?thesis by (auto simp: feasible_list_def filter_empty_conv)
qed

lemma rejected_iff:
  assumes "try_decide cs ct w = Inr d"
  shows "(c, r) \<in> set (de_rejected d) \<longleftrightarrow> c \<in> set cs \<and> inference_rejection ct c = Some r"
  by (simp add: try_decide_Inr(3) [OF assms] rejected_list_def map_filter_reason)

text \<open>
  C15: Under a valid configuration the decision is right: what is selected is a given candidate
  that meets every constraint, no feasible candidate has a smaller score (ties go to the least
  candidate in the fixed order), something is selected as soon as a feasible candidate exists,
  and the rejections are exactly the infeasible candidates with their first reason.
\<close>
theorem decision_selects_least_feasible:
  assumes "constraints_validate ct = Inr ()" "objective_validate w = Inr ()"
  shows "(\<forall>s. de_selected (decide cs ct w) = Some s \<longrightarrow>
        sc_candidate s \<in> set cs \<and> inference_rejection ct (sc_candidate s) = None
        \<and> sc_score s = inference_score ct w (sc_candidate s)
        \<and> (\<forall>c \<in> set cs. inference_rejection ct c = None \<longrightarrow>
              (sc_score s, candidate_key (sc_candidate s)) \<le> (inference_score ct w c, candidate_key c))
        \<and> de_fallback (decide cs ct w) = fallback (ic_strategy (sc_candidate s)))
    \<and> (de_selected (decide cs ct w) = None \<longleftrightarrow> (\<forall>c \<in> set cs. inference_rejection ct c \<noteq> None))
    \<and> (\<forall>c r. (c, r) \<in> set (de_rejected (decide cs ct w)) \<longleftrightarrow> c \<in> set cs \<and> inference_rejection ct c = Some r)"
proof -
  obtain d where d: "try_decide cs ct w = Inr d" using assms by (simp add: try_decide_def Let_def)
  then have e: "decide cs ct w = d" by (simp add: decide_def)
  show ?thesis
    unfolding e using selected_least [OF d] selected_None_iff [OF d] rejected_iff [OF d] try_decide_Inr(5) [OF d]
    by simp
qed

definition unit_constraints :: inference_constraints where
  "unit_constraints = \<lparr>ct_max_latency_ms = f_one, ct_max_cost = f_one, ct_min_quality = f_zero\<rparr>"

lemma unit_config: "constraints_validate unit_constraints = Inr ()" "objective_validate default_objective = Inr ()"
  "inference_rejection unit_constraints free_candidate = None"
  by code_simp+

theorem decision_selects_least_feasible_witness:
  "de_selected (decide [free_candidate] unit_constraints default_objective) \<noteq> None"
  using decision_selects_least_feasible [OF unit_config(1,2), of "[free_candidate]"] unit_config(3) by simp

text \<open>
  An invalid configuration fails closed: nothing is selected, there is no fallback, the
  error is reported, and every candidate is rejected because of the configuration.
\<close>
theorem invalid_config_fails_closed:
  assumes "isl (constraints_validate ct) \<or> isl (objective_validate w)"
  shows "de_selected (decide cs ct w) = None \<and> de_fallback (decide cs ct w) = []
    \<and> de_config_error (decide cs ct w) \<noteq> None
    \<and> mset (de_rejected (decide cs ct w)) = mset (map (\<lambda>c. (c, InvalidPlanningConfig)) cs)"
proof -
  obtain e where "try_decide cs ct w = Inl e"
    using assms by (cases "constraints_validate ct"; cases "objective_validate w") (simp_all add: try_decide_def)
  then show ?thesis by (simp add: decide_def)
qed

theorem invalid_config_fails_closed_witness:
  "de_selected (decide [free_candidate] unit_constraints
     \<lparr>ow_latency = f_zero, ow_cost = f_zero, ow_reliability = f_zero, ow_quality = f_zero\<rparr>) = None"
proof -
  have "isl (objective_validate \<lparr>ow_latency = f_zero, ow_cost = f_zero, ow_reliability = f_zero, ow_quality = f_zero\<rparr>)"
    by code_simp
  then show ?thesis using invalid_config_fails_closed by blast
qed

end
