(* ===== verification/SystemPlanning.thy ===== *)
theory SystemPlanning
  imports Capacity Backends Inference
begin

text \<open>
  \<open>src/src/system_planning.rs\<close>: the gates of capacity and declared backend capability composed
  with the scoring of theory \<open>Inference\<close>, and \<open>src/src/decision_trace.rs\<close>, the bounded
  explanation of a decision.
\<close>

section \<open>Placements\<close>

record placement_candidate =
  pc_backend_id :: string
  pc_compute_node_id :: string
  pc_estimate :: inference_candidate

datatype placement_rejection =
    InvalidCandidate | ModelMismatch | UnknownComputeNode | CapacityRejected capacity_rejection
  | UnknownBackendId | UnsupportedBackendCapability | InferenceRejected rejection_reason

fun capacity_rank :: "capacity_rejection \<Rightarrow> nat" where
  "capacity_rank Unhealthy = 0"
| "capacity_rank RegionMismatch = 1"
| "capacity_rank ModelNotResident = 2"
| "capacity_rank InsufficientMemory = 3"
| "capacity_rank QueueLimit = 4"

text \<open>The derived order of the enum: by variant, then by payload.\<close>

fun placement_rank :: "placement_rejection \<Rightarrow> nat \<times> nat" where
  "placement_rank InvalidCandidate = (0, 0)"
| "placement_rank ModelMismatch = (1, 0)"
| "placement_rank UnknownComputeNode = (2, 0)"
| "placement_rank (CapacityRejected r) = (3, capacity_rank r)"
| "placement_rank UnknownBackendId = (4, 0)"
| "placement_rank UnsupportedBackendCapability = (5, 0)"
| "placement_rank (InferenceRejected r) = (6, rejection_rank r)"

record placement_selection =
  ps_backend_id :: string
  ps_compute_node_id :: string
  ps_scored :: scored_candidate
  ps_fallback :: "kv_strategy list"

record system_decision =
  sd_selected :: "placement_selection option"
  sd_rejected :: "(placement_candidate \<times> placement_rejection) list"
  sd_unavailable_nodes :: "(string \<times> capacity_rejection) list"
  sd_config_error :: "decision_error option"

definition placement_key :: "placement_candidate \<Rightarrow> string \<times> string \<times> model_reference \<times> kv_strategy \<times> f64 \<times> f64 \<times> f64 \<times> f64" where
  "placement_key c = (pc_backend_id c, pc_compute_node_id c, candidate_key (pc_estimate c))"

definition sort_rejections ::
  "(placement_candidate \<times> placement_rejection) list \<Rightarrow> (placement_candidate \<times> placement_rejection) list" where
  "sort_rejections = sort_key (\<lambda>(c, r). (placement_key c, placement_rank r))"

text \<open>The derived \<open>PartialEq\<close> of an estimate compares its numbers as floating-point numbers.\<close>

definition estimate_eq :: "inference_candidate \<Rightarrow> inference_candidate \<Rightarrow> bool" where
  "estimate_eq a b \<longleftrightarrow> ic_model a = ic_model b \<and> ic_strategy a = ic_strategy b
     \<and> f_eq (ic_latency_ms a) (ic_latency_ms b) \<and> f_eq (ic_cost a) (ic_cost b)
     \<and> f_eq (ic_failure_rate a) (ic_failure_rate b) \<and> f_eq (ic_quality a) (ic_quality b)"

section \<open>The decision\<close>

definition placement_gate ::
  "backend_registry \<Rightarrow> capacity_snapshot \<Rightarrow> capacity_requirement \<Rightarrow> placement_candidate \<Rightarrow> placement_rejection option" where
  "placement_gate backends s req c =
     (let (eligible, unavailable) = evaluate s req
      in if \<not> valid_identifier (pc_backend_id c) \<or> \<not> valid_identifier (pc_compute_node_id c)
         then Some InvalidCandidate
         else if ic_model (pc_estimate c) \<noteq> cr_model req then Some ModelMismatch
         else if pc_compute_node_id c \<notin> set (map cn_id eligible)
         then Some (case map_of (rev unavailable) (pc_compute_node_id c) of
                      None \<Rightarrow> UnknownComputeNode | Some r \<Rightarrow> CapacityRejected r)
         else case registry_supports backends (pc_backend_id c) (ic_model (pc_estimate c)) (ic_strategy (pc_estimate c)) of
                Inr True \<Rightarrow> None
              | Inr False \<Rightarrow> Some UnsupportedBackendCapability
              | Inl (UnknownBackend _) \<Rightarrow> Some UnknownBackendId
              | Inl _ \<Rightarrow> Some InvalidCandidate)"

definition gate_rejected where
  "gate_rejected backends s req cs =
     List.map_filter (\<lambda>c. map_option (Pair c) (placement_gate backends s req c)) (sort_key placement_key cs)"

definition gate_passed where
  "gate_passed backends s req cs =
     filter (\<lambda>c. placement_gate backends s req c = None) (sort_key placement_key cs)"

definition system_decide ::
  "backend_registry \<Rightarrow> capacity_snapshot \<Rightarrow> placement_candidate list \<Rightarrow> capacity_requirement
   \<Rightarrow> inference_constraints \<Rightarrow> objective_weights \<Rightarrow> system_decision" where
  "system_decide backends s cs req ct w =
     (let rejected = gate_rejected backends s req cs;
          feasible = gate_passed backends s req cs;
          unavailable = snd (evaluate s req)
      in case try_decide (map pc_estimate feasible) ct w of
           Inl e \<Rightarrow>
             \<lparr>sd_selected = None,
              sd_rejected = sort_rejections
                (rejected @ map (\<lambda>c. (c, InferenceRejected InvalidPlanningConfig)) feasible),
              sd_unavailable_nodes = unavailable, sd_config_error = Some e\<rparr>
         | Inr d \<Rightarrow>
             \<lparr>sd_selected =
                (case de_selected d of None \<Rightarrow> None
                 | Some scored \<Rightarrow>
                     map_option (\<lambda>c. \<lparr>ps_backend_id = pc_backend_id c, ps_compute_node_id = pc_compute_node_id c,
                                     ps_scored = scored, ps_fallback = de_fallback d\<rparr>)
                       (List.find (\<lambda>c. estimate_eq (pc_estimate c) (sc_candidate scored)) feasible)),
              sd_rejected = sort_rejections
                (rejected @ concat (map (\<lambda>(e, r). map (\<lambda>c. (c, InferenceRejected r))
                   (filter (\<lambda>c. estimate_eq (pc_estimate c) e) feasible)) (de_rejected d))),
              sd_unavailable_nodes = unavailable, sd_config_error = None\<rparr>)"

section \<open>Soundness and completeness\<close>

lemma f_eq_refl: "\<not> is_nan a \<Longrightarrow> f_eq a a"
  by (cases a) (simp_all add: f_eq_def)

lemma f_eq_nan: "is_nan a \<Longrightarrow> \<not> f_eq a b"
  by (cases a) (simp_all add: f_eq_def)

lemma finite_not_nan: "is_finite a \<Longrightarrow> \<not> is_nan a"
  by (cases a) simp_all

lemma feasible_not_nan:
  "inference_rejection ct c = None \<Longrightarrow>
   \<not> is_nan (ic_latency_ms c) \<and> \<not> is_nan (ic_cost c) \<and> \<not> is_nan (ic_failure_rate c) \<and> \<not> is_nan (ic_quality c)"
  by (auto simp: inference_rejection_def valid_estimate_def finite_not_nan split: if_splits)

lemma feasible_eq_refl: "inference_rejection ct c = None \<Longrightarrow> estimate_eq c c"
  using feasible_not_nan [of ct c] by (simp add: estimate_eq_def f_eq_refl)

lemma gate_passed_set:
  "c \<in> set (gate_passed backends s req cs) \<longleftrightarrow> c \<in> set cs \<and> placement_gate backends s req c = None"
  by (auto simp: gate_passed_def)

lemma placement_gate_None:
  "placement_gate backends s req c = None \<longleftrightarrow>
     valid_identifier (pc_backend_id c) \<and> valid_identifier (pc_compute_node_id c)
     \<and> ic_model (pc_estimate c) = cr_model req
     \<and> (\<exists>n \<in> set (fst (evaluate s req)). cn_id n = pc_compute_node_id c)
     \<and> registry_supports backends (pc_backend_id c) (ic_model (pc_estimate c)) (ic_strategy (pc_estimate c)) = Inr True"
  by (auto simp: placement_gate_def case_prod_unfold Let_def image_iff
      split: sum.splits bool.splits backend_registry_error.splits)

lemma system_decide_Inr:
  assumes "try_decide (map pc_estimate (gate_passed backends s req cs)) ct w = Inr d"
  shows "sd_selected (system_decide backends s cs req ct w) =
      (case de_selected d of None \<Rightarrow> None
       | Some scored \<Rightarrow> map_option (\<lambda>c. \<lparr>ps_backend_id = pc_backend_id c, ps_compute_node_id = pc_compute_node_id c,
                                     ps_scored = scored, ps_fallback = de_fallback d\<rparr>)
           (List.find (\<lambda>c. estimate_eq (pc_estimate c) (sc_candidate scored)) (gate_passed backends s req cs)))"
    and "mset (sd_rejected (system_decide backends s cs req ct w)) = mset (gate_rejected backends s req cs)
      + mset (concat (map (\<lambda>(e, r). map (\<lambda>c. (c, InferenceRejected r))
           (filter (\<lambda>c. estimate_eq (pc_estimate c) e) (gate_passed backends s req cs))) (de_rejected d)))"
  using assms by (simp_all add: system_decide_def Let_def sort_rejections_def)

lemma selected_placement:
  assumes "sd_selected (system_decide backends s cs req ct w) = Some sel"
  obtains c d where "try_decide (map pc_estimate (gate_passed backends s req cs)) ct w = Inr d"
    "de_selected d = Some (ps_scored sel)" "c \<in> set cs" "placement_gate backends s req c = None"
    "estimate_eq (pc_estimate c) (sc_candidate (ps_scored sel))"
    "ps_backend_id sel = pc_backend_id c" "ps_compute_node_id sel = pc_compute_node_id c"
    "ps_fallback sel = de_fallback d"
proof (cases "try_decide (map pc_estimate (gate_passed backends s req cs)) ct w")
  case (Inl e)
  then show thesis using assms by (simp add: system_decide_def Let_def)
next
  case (Inr d)
  obtain scored c where sc: "de_selected d = Some scored"
    and f: "List.find (\<lambda>c. estimate_eq (pc_estimate c) (sc_candidate scored)) (gate_passed backends s req cs) = Some c"
    and sel: "sel = \<lparr>ps_backend_id = pc_backend_id c, ps_compute_node_id = pc_compute_node_id c,
        ps_scored = scored, ps_fallback = de_fallback d\<rparr>"
    using assms system_decide_Inr(1) [OF Inr] by (auto split: option.splits)
  have "c \<in> set (gate_passed backends s req cs)" "estimate_eq (pc_estimate c) (sc_candidate scored)"
    using f by (auto simp: find_Some_iff)
  then show thesis using that [OF Inr, of c] sc sel by (simp add: gate_passed_set)
qed

text \<open>
  C16: A selected placement passed every gate and is the best one: it is a given candidate with valid
  ids and the required model, on a registered node that meets the requirement, with a registered
  backend that declares the model and strategy; the estimate shown with it is that of a candidate that
  passed the gates, equal to the one selected, and meets the constraints; the score is the score of
  this estimate; no candidate that passes the gates and the constraints comes before it in the order
  by score and then by key; and the fallback is that of its strategy.
\<close>
theorem selected_placement_sound:
  assumes "sd_selected (system_decide backends s cs req ct w) = Some sel"
  shows "(\<exists>c \<in> set cs. pc_backend_id c = ps_backend_id sel \<and> pc_compute_node_id c = ps_compute_node_id sel
      \<and> valid_identifier (pc_backend_id c) \<and> valid_identifier (pc_compute_node_id c)
      \<and> ic_model (pc_estimate c) = cr_model req
      \<and> (\<exists>n \<in> set (fst (evaluate s req)). cn_id n = pc_compute_node_id c)
      \<and> registry_supports backends (pc_backend_id c) (ic_model (pc_estimate c)) (ic_strategy (pc_estimate c)) = Inr True
      \<and> estimate_eq (pc_estimate c) (sc_candidate (ps_scored sel)))
    \<and> (\<exists>c \<in> set cs. placement_gate backends s req c = None \<and> pc_estimate c = sc_candidate (ps_scored sel))
    \<and> inference_rejection ct (sc_candidate (ps_scored sel)) = None
    \<and> sc_score (ps_scored sel) = inference_score ct w (sc_candidate (ps_scored sel))
    \<and> (\<forall>c \<in> set cs. placement_gate backends s req c = None \<longrightarrow> inference_rejection ct (pc_estimate c) = None
         \<longrightarrow> (sc_score (ps_scored sel), candidate_key (sc_candidate (ps_scored sel)))
             \<le> (inference_score ct w (pc_estimate c), candidate_key (pc_estimate c)))
    \<and> ps_fallback sel = fallback (ic_strategy (sc_candidate (ps_scored sel)))"
proof -
  from assms obtain c d where d: "try_decide (map pc_estimate (gate_passed backends s req cs)) ct w = Inr d"
    "de_selected d = Some (ps_scored sel)"
    and c: "c \<in> set cs" "placement_gate backends s req c = None"
      "estimate_eq (pc_estimate c) (sc_candidate (ps_scored sel))"
      "ps_backend_id sel = pc_backend_id c" "ps_compute_node_id sel = pc_compute_node_id c"
    and f: "ps_fallback sel = de_fallback d"
    by (rule selected_placement)
  note l = selected_least [OF d]
  have "\<exists>c \<in> set cs. placement_gate backends s req c = None \<and> pc_estimate c = sc_candidate (ps_scored sel)"
    using l(1) by (auto simp: gate_passed_set)
  moreover have "(sc_score (ps_scored sel), candidate_key (sc_candidate (ps_scored sel)))
      \<le> (inference_score ct w (pc_estimate c'), candidate_key (pc_estimate c'))"
    if "c' \<in> set cs" "placement_gate backends s req c' = None" "inference_rejection ct (pc_estimate c') = None" for c'
    using l(4) [of "pc_estimate c'"] that by (auto simp: gate_passed_set)
  moreover have "ps_fallback sel = fallback (ic_strategy (sc_candidate (ps_scored sel)))"
    using f d(2) try_decide_Inr(5) [OF d(1)] by simp
  ultimately show ?thesis using c l(2,3) by (intro conjI ballI impI) (auto simp: placement_gate_None)
qed

text \<open>
  The planner finds a placement whenever there is one: under a valid configuration nothing
  is selected only if every candidate fails a gate or a constraint.
\<close>
theorem planner_complete:
  assumes "constraints_validate ct = Inr ()" "objective_validate w = Inr ()"
  shows "sd_selected (system_decide backends s cs req ct w) = None \<longleftrightarrow>
    (\<forall>c \<in> set cs. placement_gate backends s req c = None \<longrightarrow> inference_rejection ct (pc_estimate c) \<noteq> None)"
proof -
  let ?ps = "gate_passed backends s req cs"
  obtain d where d: "try_decide (map pc_estimate ?ps) ct w = Inr d"
    using assms by (simp add: try_decide_def Let_def)
  have "List.find (\<lambda>c. estimate_eq (pc_estimate c) (sc_candidate scored)) ?ps \<noteq> None" if "de_selected d = Some scored" for scored
  proof -
    note l = selected_least [OF d that]
    obtain c where "c \<in> set ?ps" "pc_estimate c = sc_candidate scored" using l(1) by auto
    then show ?thesis using feasible_eq_refl [OF l(2)] by (auto simp: find_None_iff)
  qed
  then have "sd_selected (system_decide backends s cs req ct w) = None \<longleftrightarrow> de_selected d = None"
    by (auto simp: system_decide_Inr(1) [OF d] split: option.split)
  then show ?thesis using selected_None_iff [OF d] by (auto simp: gate_passed_set)
qed

section \<open>What the explanation misses\<close>

text \<open>
  A candidate whose estimate is not a number disappears: it passes the gates, is never
  selected, and is listed in no rejection, because the lookup of the rejected estimate compares
  NaN with itself.
\<close>
theorem nan_estimate_unexplained:
  assumes "constraints_validate ct = Inr ()" "objective_validate w = Inr ()"
    and "c \<in> set cs" "placement_gate backends s req c = None" "is_nan (ic_latency_ms (pc_estimate c))"
  shows "\<forall>r. (c, r) \<notin> set (sd_rejected (system_decide backends s cs req ct w))"
proof -
  obtain d where d: "try_decide (map pc_estimate (gate_passed backends s req cs)) ct w = Inr d"
    using assms(1,2) by (simp add: try_decide_def Let_def)
  have "\<not> estimate_eq (pc_estimate c) e" for e
    using assms(5) f_eq_nan by (auto simp: estimate_eq_def)
  moreover have "(c, r) \<notin> set (gate_rejected backends s req cs)" for r
    using assms(4) by (simp add: gate_rejected_def map_filter_reason)
  ultimately have "(c, r) \<notin># mset (sd_rejected (system_decide backends s cs req ct w))" for r
    unfolding system_decide_Inr(2) [OF d] by auto
  then show ?thesis by simp
qed

text \<open>
  Equal estimates are reported more than once: when two candidates that pass the gates carry
  the same infeasible estimate, each of them is listed at least twice in the rejections, so the
  list can be longer than the input.
\<close>
theorem equal_estimates_reported_twice:
  assumes "constraints_validate ct = Inr ()" "objective_validate w = Inr ()"
    and "c \<in> set cs" "c' \<in> set cs" "c \<noteq> c'" "pc_estimate c = pc_estimate c'"
    and "placement_gate backends s req c = None" "placement_gate backends s req c' = None"
    and "inference_rejection ct (pc_estimate c) = Some r" "estimate_eq (pc_estimate c) (pc_estimate c)"
  shows "2 \<le> count (mset (sd_rejected (system_decide backends s cs req ct w))) (c, InferenceRejected r)"
proof -
  let ?ps = "gate_passed backends s req cs" and ?e = "pc_estimate c"
  let ?f = "\<lambda>(e, r). map (\<lambda>c. (c, InferenceRejected r)) (filter (\<lambda>c. estimate_eq (pc_estimate c) e) ?ps)"
  obtain d where d: "try_decide (map pc_estimate ?ps) ct w = Inr d"
    using assms(1,2) by (simp add: try_decide_def Let_def)
  have "{#c, c'#} \<subseteq># mset ?ps"
    using assms(3-5,7,8) by (intro insert_subset_eq_iff [THEN iffD2]) (auto simp: gate_passed_set in_diff_count)
  then have "image_mset pc_estimate {#c, c'#} \<subseteq># mset (map pc_estimate ?ps)"
    unfolding mset_map by (rule image_mset_subseteq_mono)
  then have sub: "{#?e, ?e#} \<subseteq># mset (map pc_estimate ?ps)" using assms(6) by simp
  have rej: "mset (rejected_list ct es) = image_mset (\<lambda>e. (e, the (inference_rejection ct e)))
      (filter_mset (\<lambda>e. inference_rejection ct e \<noteq> None) (mset es))" for es
    by (induction es) (auto simp: rejected_list_def List.map_filter_simps split: option.split)
  have "{#?e, ?e#} \<subseteq># filter_mset (\<lambda>e. inference_rejection ct e \<noteq> None) (mset (map pc_estimate ?ps))"
    using multiset_filter_mono [OF sub, of "\<lambda>e. inference_rejection ct e \<noteq> None"] assms(9) by simp
  from image_mset_subseteq_mono [OF this, of "\<lambda>e. (e, the (inference_rejection ct e))"]
  have "{#(?e, r), (?e, r)#} \<subseteq># mset (de_rejected d)"
    using assms(9) by (simp add: try_decide_Inr(3) [OF d] rej)
  from image_mset_subseteq_mono [OF this, of "\<lambda>x. mset (?f x)"]
  have le: "(\<Sum>x \<in># {#(?e, r), (?e, r)#}. mset (?f x)) \<subseteq># (\<Sum>x \<in># mset (de_rejected d). mset (?f x))"
    using \<open>{#(?e, r), (?e, r)#} \<subseteq># mset (de_rejected d)\<close> by (auto simp: subset_mset.le_iff_add)
  have "(c, InferenceRejected r) \<in> set (?f (?e, r))"
    using assms(3,7,10) by (simp add: gate_passed_set)
  then have "1 \<le> count (mset (?f (?e, r))) (c, InferenceRejected r)"
    by (metis count_greater_eq_one_iff set_mset_mset)
  moreover have "(\<Sum>x \<in># {#(?e, r), (?e, r)#}. mset (?f x)) = mset (?f (?e, r)) + mset (?f (?e, r))" by simp
  ultimately have "2 \<le> count (\<Sum>x \<in># {#(?e, r), (?e, r)#}. mset (?f x)) (c, InferenceRejected r)"
    by (simp only: count_union)
  also have "\<dots> \<le> count (\<Sum>x \<in># mset (de_rejected d). mset (?f x)) (c, InferenceRejected r)"
    using le by (rule mset_subset_eq_count)
  also have "(\<Sum>x \<in># mset (de_rejected d). mset (?f x)) = mset (concat (map ?f (de_rejected d)))"
    by (simp add: mset_concat sum_mset_sum_list [symmetric] comp_def)
  finally show ?thesis by (simp add: system_decide_Inr(2) [OF d])
qed

section \<open>A concrete system\<close>

definition demo_node :: compute_node where
  "demo_node = \<lparr>cn_id = ''n'', cn_region = ''r'', accelerator = ''g'', total_memory_mb = 8, available_memory_mb = 4,
     utilization = f_zero, active_requests = 0, queue_depth = 0, healthy = True,
     resident_models = {model_new ''m'' ''1''}\<rparr>"

definition demo_requirement :: capacity_requirement where
  "demo_requirement = \<lparr>cr_model = model_new ''m'' ''1'', cr_region = None, min_available_memory_mb = 1, max_queue_depth = 5\<rparr>"

definition demo_placement :: placement_candidate where
  "demo_placement = \<lparr>pc_backend_id = ''b'', pc_compute_node_id = ''n'', pc_estimate = free_candidate\<rparr>"

abbreviation demo_backends :: backend_registry where
  "demo_backends \<equiv> backends_of [(demo_descriptor, mock_as_backend demo_mock)]"

abbreviation demo_decide :: "placement_candidate list \<Rightarrow> system_decision" where
  "demo_decide cs \<equiv> system_decide demo_backends (capacity_of [demo_node]) cs demo_requirement
     unit_constraints default_objective"

lemma demo_evaluate: "evaluate (capacity_of [demo_node]) demo_requirement = ([demo_node], [])"
  by code_simp

lemma demo_ids_valid: "valid_identifier ''b''" "valid_identifier ''n''"
  by code_simp+

lemma demo_gate: "placement_gate demo_backends (capacity_of [demo_node]) demo_requirement
    \<lparr>pc_backend_id = ''b'', pc_compute_node_id = ''n'', pc_estimate = free_candidate\<lparr>ic_latency_ms := l\<rparr>\<rparr> = None"
  by (simp add: placement_gate_None demo_evaluate demo_ids_valid registry_supports_def demo_lookup)
     (simp add: demo_node_def demo_requirement_def free_candidate_def demo_descriptor_def descriptor_supports_def)

lemma demo_gate_free: "placement_gate demo_backends (capacity_of [demo_node]) demo_requirement demo_placement = None"
  using demo_gate [of f_zero] by (simp add: demo_placement_def free_candidate_def)

theorem planner_complete_witness: "sd_selected (demo_decide [demo_placement]) \<noteq> None"
  using planner_complete [OF unit_config(1,2), of demo_backends "capacity_of [demo_node]" "[demo_placement]" demo_requirement]
    demo_gate_free unit_config(3) by (simp add: demo_placement_def)

lemma demo_selected: "\<exists>sel. sd_selected (demo_decide [demo_placement]) = Some sel"
  using planner_complete [OF unit_config(1,2), of demo_backends "capacity_of [demo_node]" "[demo_placement]" demo_requirement]
    demo_gate_free unit_config(3) by (simp add: demo_placement_def)

theorem selected_placement_sound_witness:
  "\<exists>sel :: placement_selection. sd_selected (demo_decide [demo_placement]) = Some sel \<and> ps_backend_id sel = ''b''"
proof -
  obtain sel where sel: "sd_selected (demo_decide [demo_placement]) = Some sel" using demo_selected by blast
  from selected_placement_sound [OF this] show ?thesis using sel by (auto simp: demo_placement_def)
qed

theorem nan_estimate_unexplained_witness:
  "\<exists>c :: placement_candidate. \<forall>r. (c, r) \<notin> set (sd_rejected (demo_decide [c]))"
proof -
  let ?c = "\<lparr>pc_backend_id = ''b'', pc_compute_node_id = ''n'', pc_estimate = free_candidate\<lparr>ic_latency_ms := f_nan\<rparr>\<rparr>"
  show ?thesis
    using nan_estimate_unexplained [OF unit_config(1,2), of ?c "[?c]" demo_backends "capacity_of [demo_node]" demo_requirement]
      demo_gate [of f_nan] by (auto simp: f_nan_def)
qed

definition twin_node :: compute_node where
  "twin_node = demo_node\<lparr>cn_id := ''p''\<rparr>"

lemma twin_evaluate: "evaluate (capacity_of [demo_node, twin_node]) demo_requirement = ([demo_node, twin_node], [])"
  by code_simp

lemma twin_gate:
  assumes "i = ''n'' \<or> i = ''p''"
  shows "placement_gate demo_backends (capacity_of [demo_node, twin_node]) demo_requirement
    \<lparr>pc_backend_id = ''b'', pc_compute_node_id = i, pc_estimate = free_candidate\<lparr>ic_quality := q\<rparr>\<rparr> = None"
proof -
  have "valid_identifier ''p''" by code_simp
  then show ?thesis
    using assms by (simp add: placement_gate_None twin_evaluate registry_supports_def demo_lookup)
      (auto simp: demo_ids_valid demo_node_def twin_node_def demo_requirement_def free_candidate_def demo_descriptor_def
        descriptor_supports_def)
qed

lemma twin_rejection:
  "inference_rejection unit_constraints (free_candidate\<lparr>ic_quality := f64_lit 2\<rparr>) = Some InvalidEstimate"
  "estimate_eq (free_candidate\<lparr>ic_quality := f64_lit 2\<rparr>) (free_candidate\<lparr>ic_quality := f64_lit 2\<rparr>)"
  by code_simp+

theorem equal_estimates_reported_twice_witness:
  "\<exists>c c' :: placement_candidate. 2 \<le> count (mset (sd_rejected (system_decide demo_backends
      (capacity_of [demo_node, twin_node]) [c, c'] demo_requirement unit_constraints default_objective)))
      (c, InferenceRejected InvalidEstimate)"
proof -
  let ?c = "\<lambda>i. \<lparr>pc_backend_id = ''b'', pc_compute_node_id = i, pc_estimate = free_candidate\<lparr>ic_quality := f64_lit 2\<rparr>\<rparr>"
  show ?thesis
    using equal_estimates_reported_twice [OF unit_config(1,2), of "?c ''n''" "[?c ''n'', ?c ''p'']" "?c ''p''"
        demo_backends "capacity_of [demo_node, twin_node]" demo_requirement] twin_gate twin_rejection by auto
qed

section \<open>Decision traces\<close>

definition DECISION_TRACE_SCHEMA_VERSION :: u8 where "DECISION_TRACE_SCHEMA_VERSION = 1"
definition MAX_TRACE_REJECTIONS :: nat where "MAX_TRACE_REJECTIONS = 64"

record trace_selection =
  ts_backend_id :: string
  ts_compute_node_id :: string
  ts_model :: model_reference
  ts_strategy :: kv_strategy
  ts_score :: f64
  ts_fallback :: "kv_strategy list"

record trace_rejection =
  tr_backend_id :: string
  tr_compute_node_id :: string
  tr_reason :: string

record decision_trace =
  schema_version :: u8
  dt_request_id :: string
  capacity_revision :: u64
  dt_backend_revision :: u64
  dt_selected :: "trace_selection option"
  dt_rejected :: "trace_rejection list"
  rejected_truncated :: bool
  unavailable_nodes :: "trace_rejection list"
  dt_config_error :: "string option"

datatype trace_error = InvalidRequestId

fun capacity_reason :: "capacity_rejection \<Rightarrow> string" where
  "capacity_reason Unhealthy = ''node_unhealthy''"
| "capacity_reason RegionMismatch = ''region_mismatch''"
| "capacity_reason ModelNotResident = ''model_not_resident''"
| "capacity_reason InsufficientMemory = ''insufficient_memory''"
| "capacity_reason QueueLimit = ''queue_limit''"

fun inference_reason :: "rejection_reason \<Rightarrow> string" where
  "inference_reason InvalidEstimate = ''invalid_estimate''"
| "inference_reason LatencyConstraint = ''latency_constraint''"
| "inference_reason CostConstraint = ''cost_constraint''"
| "inference_reason QualityConstraint = ''quality_constraint''"
| "inference_reason InvalidPlanningConfig = ''invalid_planning_config''"

fun rejection_reason_name :: "placement_rejection \<Rightarrow> string" where
  "rejection_reason_name InvalidCandidate = ''invalid_candidate''"
| "rejection_reason_name ModelMismatch = ''model_mismatch''"
| "rejection_reason_name UnknownComputeNode = ''unknown_compute_node''"
| "rejection_reason_name (CapacityRejected r) = capacity_reason r"
| "rejection_reason_name UnknownBackendId = ''unknown_backend''"
| "rejection_reason_name UnsupportedBackendCapability = ''unsupported_backend_capability''"
| "rejection_reason_name (InferenceRejected r) = inference_reason r"

fun config_error_name :: "decision_error \<Rightarrow> string" where
  "config_error_name InvalidConstraints = ''invalid_constraints''"
| "config_error_name InvalidObjective = ''invalid_objective''"

definition from_system_decision ::
  "string \<Rightarrow> system_decision \<Rightarrow> u64 \<Rightarrow> u64 \<Rightarrow> nat \<Rightarrow> trace_error + decision_trace" where
  "from_system_decision request_id d cap_rev backend_rev max_rejections =
     (if \<not> valid_identifier request_id then Inl InvalidRequestId
      else let limit = min (max max_rejections 1) MAX_TRACE_REJECTIONS
           in Inr \<lparr>schema_version = DECISION_TRACE_SCHEMA_VERSION, dt_request_id = request_id,
                capacity_revision = cap_rev, dt_backend_revision = backend_rev,
                dt_selected = map_option (\<lambda>v. \<lparr>ts_backend_id = ps_backend_id v, ts_compute_node_id = ps_compute_node_id v,
                   ts_model = ic_model (sc_candidate (ps_scored v)), ts_strategy = ic_strategy (sc_candidate (ps_scored v)),
                   ts_score = sc_score (ps_scored v), ts_fallback = ps_fallback v\<rparr>) (sd_selected d),
                dt_rejected = map (\<lambda>(c, r). \<lparr>tr_backend_id = pc_backend_id c, tr_compute_node_id = pc_compute_node_id c,
                   tr_reason = rejection_reason_name r\<rparr>) (take limit (sd_rejected d)),
                rejected_truncated = (length (sd_rejected d) > limit),
                unavailable_nodes = map (\<lambda>(n, r). \<lparr>tr_backend_id = [], tr_compute_node_id = n,
                   tr_reason = capacity_reason r\<rparr>) (sd_unavailable_nodes d),
                dt_config_error = map_option config_error_name (sd_config_error d)\<rparr>)"

lemma take_min_length: "take (min (length xs) n) xs = take n xs"
  by (simp add: min_def)

text \<open>
  A trace keeps at most 64 rejections, the first ones of the decision, and says so when it
  dropped any; the list of unavailable nodes however is copied whole, whatever its length.
\<close>
theorem trace_bounds:
  assumes "from_system_decision i d cr br k = Inr t"
  shows "length (dt_rejected t) \<le> 64 \<and> length (dt_rejected t) \<le> max k 1
    \<and> map tr_reason (dt_rejected t) = take (length (dt_rejected t)) (map (rejection_reason_name \<circ> snd) (sd_rejected d))
    \<and> (rejected_truncated t \<longleftrightarrow> length (dt_rejected t) < length (sd_rejected d))
    \<and> length (unavailable_nodes t) = length (sd_unavailable_nodes d)"
  using assms
  by (auto simp: from_system_decision_def Let_def MAX_TRACE_REJECTIONS_def take_map comp_def case_prod_unfold
      take_min_length split: if_splits)

theorem trace_bounds_witness:
  "\<exists>t :: decision_trace. from_system_decision ''r'' (demo_decide []) 0 0 5 = Inr t \<and> length (dt_rejected t) \<le> 5"
proof -
  have "valid_identifier ''r''" by code_simp
  then obtain t where t: "from_system_decision ''r'' (demo_decide []) 0 0 5 = Inr t"
    by (auto simp: from_system_decision_def Let_def)
  then show ?thesis using trace_bounds [OF t] by auto
qed

end
