(* ===== verification/Admission.thy ===== *)
theory Admission
  imports Prelude
begin

text \<open>
  \<open>src/src/admission.rs\<close>: process-local admission control.  A permit is the name of the tenant it
  was given to; dropping it releases the slot.  The lock makes \<open>admit\<close> and the drop atomic, so
  the controller is a state machine whose steps are these two operations.
\<close>

record admission_policy =
  global_in_flight :: nat
  per_tenant_in_flight :: nat

definition default_admission_policy :: admission_policy where
  "default_admission_policy = \<lparr>global_in_flight = 1024, per_tenant_in_flight = 64\<rparr>"

datatype admission_error =
    InvalidPolicy string | InvalidTenant | GlobalLimit nat | TenantLimit string nat

definition admission_policy_validate :: "admission_policy \<Rightarrow> admission_error + unit" where
  "admission_policy_validate p =
     (if global_in_flight p = 0
      then Inl (InvalidPolicy ''global_in_flight must be greater than zero'')
      else if per_tenant_in_flight p = 0
      then Inl (InvalidPolicy ''per_tenant_in_flight must be greater than zero'')
      else if per_tenant_in_flight p > global_in_flight p
      then Inl (InvalidPolicy ''per_tenant_in_flight cannot exceed global_in_flight'')
      else Inr ())"

text \<open>\<open>Display\<close>; the decimal form of a number is a parameter.\<close>

fun admission_error_display :: "(nat \<Rightarrow> string) \<Rightarrow> admission_error \<Rightarrow> string" where
  "admission_error_display show_nat (InvalidPolicy message) = ''invalid admission policy: '' @ message"
| "admission_error_display show_nat InvalidTenant = ''tenant identifier is invalid''"
| "admission_error_display show_nat (GlobalLimit limit) =
     ''local admission limit of '' @ show_nat limit @ '' concurrent requests reached''"
| "admission_error_display show_nat (TenantLimit tenant limit) =
     ''tenant '' @ tenant @ '' reached its local admission limit of '' @ show_nat limit @ '' concurrent requests''"

record admission_state =
  total_in_flight :: nat
  tenant_in_flight :: "(string, nat) hmap"

record admission_controller =
  ac_policy :: admission_policy
  ac_state :: admission_state

definition admission_new :: "admission_policy \<Rightarrow> admission_error + admission_controller" where
  "admission_new policy =
     (case admission_policy_validate policy of
        Inl e \<Rightarrow> Inl e
      | Inr _ \<Rightarrow> Inr \<lparr>ac_policy = policy, ac_state = \<lparr>total_in_flight = 0, tenant_in_flight = []\<rparr>\<rparr>)"

type_synonym permit = string

definition admit :: "string \<Rightarrow> admission_controller \<Rightarrow> (admission_error + permit) \<times> admission_controller" where
  "admit tenant c =
     (if \<not> valid_identifier tenant then (Inl InvalidTenant, c)
      else let s = ac_state c; p = ac_policy c
           in if total_in_flight s \<ge> global_in_flight p then (Inl (GlobalLimit (global_in_flight p)), c)
              else let tenant_count = get_or 0 (tenant_in_flight s) tenant
                   in if tenant_count \<ge> per_tenant_in_flight p
                      then (Inl (TenantLimit tenant (per_tenant_in_flight p)), c)
                      else (Inr tenant, c\<lparr>ac_state := \<lparr>total_in_flight = total_in_flight s + 1,
                              tenant_in_flight = bt_insert tenant (tenant_count + 1) (tenant_in_flight s)\<rparr>\<rparr>))"

text \<open>The counters are unsigned; the invariant shows that neither subtraction underflows.\<close>

definition permit_drop :: "permit \<Rightarrow> admission_controller \<Rightarrow> admission_controller" where
  "permit_drop tenant c =
     (let s = ac_state c
      in case map_of (tenant_in_flight s) tenant of
           None \<Rightarrow> c
         | Some n \<Rightarrow>
             c\<lparr>ac_state := \<lparr>total_in_flight = total_in_flight s - 1,
                 tenant_in_flight = (if n - 1 = 0 then AList.delete tenant (tenant_in_flight s)
                                     else bt_insert tenant (n - 1) (tenant_in_flight s))\<rparr>\<rparr>)"

definition admission_snapshot :: "admission_controller \<Rightarrow> admission_state" where
  "admission_snapshot c = ac_state c"

section \<open>Invariant\<close>

text \<open>
  The multiset of live permits is a ghost: the counters say exactly how many permits each
  tenant holds.
\<close>

definition counts :: "admission_state \<Rightarrow> permit multiset \<Rightarrow> bool" where
  "counts s live \<longleftrightarrow> sorted_keys (tenant_in_flight s) \<and> total_in_flight s = size live
     \<and> (\<forall>t. map_of (tenant_in_flight s) t = (if count live t = 0 then None else Some (count live t)))"

inductive admission_run :: "admission_policy \<Rightarrow> admission_controller \<Rightarrow> permit multiset \<Rightarrow> bool" where
  run_new: "admission_new p = Inr c \<Longrightarrow> admission_run p c {#}"
| run_admit: "admission_run p c live \<Longrightarrow> admit tenant c = (Inr t, c') \<Longrightarrow> admission_run p c' (add_mset t live)"
| run_refuse: "admission_run p c live \<Longrightarrow> admit tenant c = (Inl e, c') \<Longrightarrow> admission_run p c' live"
| run_drop: "admission_run p c live \<Longrightarrow> t \<in># live \<Longrightarrow> admission_run p (permit_drop t c) (live - {#t#})"

lemma get_or_counts: "counts s live \<Longrightarrow> get_or 0 (tenant_in_flight s) t = count live t"
  by (simp add: counts_def get_or_def)

lemma admit_Inr:
  assumes "admit tenant c = (Inr t, c')" "counts (ac_state c) live"
  shows "t = tenant" "valid_identifier tenant" "size live < global_in_flight (ac_policy c)"
    "count live tenant < per_tenant_in_flight (ac_policy c)" "ac_policy c' = ac_policy c"
    "counts (ac_state c') (add_mset t live)"
  using assms get_or_counts [OF assms(2), of tenant]
  by (auto simp: admit_def Let_def counts_def map_laws count_eq_zero_iff split: if_splits)

lemma admit_Inl: "admit tenant c = (Inl e, c') \<Longrightarrow> c' = c"
  by (auto simp: admit_def Let_def split: if_splits)

lemma drop_counts:
  assumes "counts (ac_state c) live" "t \<in># live"
  shows "counts (ac_state (permit_drop t c)) (live - {#t#})" "ac_policy (permit_drop t c) = ac_policy c"
proof -
  let ?s = "ac_state c"
  have m: "map_of (tenant_in_flight ?s) t = Some (count live t)" using assms by (simp add: counts_def)
  have pos: "0 < count live t" using assms(2) by simp
  have srt: "sorted_keys (tenant_in_flight ?s)" using assms(1) by (simp add: counts_def)
  show "ac_policy (permit_drop t c) = ac_policy c" by (simp add: permit_drop_def Let_def m)
  show "counts (ac_state (permit_drop t c)) (live - {#t#})"
  proof (cases "count live t = 1")
    case True
    then show ?thesis
      using assms(1) m srt pos sorted_keys_delete [OF srt, of t]
      by (auto simp: permit_drop_def Let_def counts_def map_laws size_Diff_singleton [OF assms(2)] count_eq_zero_iff)
  next
    case False
    then have "1 < count live t" using pos by linarith
    then show ?thesis
      using assms(1) m srt sorted_keys_bt_insert [OF srt, of t "count live t - 1"]
      by (auto simp: permit_drop_def Let_def counts_def map_laws size_Diff_singleton [OF assms(2)] count_eq_zero_iff)
  qed
qed

definition within_limits :: "admission_policy \<Rightarrow> permit multiset \<Rightarrow> bool" where
  "within_limits p live \<longleftrightarrow> size live \<le> global_in_flight p \<and> (\<forall>t. count live t \<le> per_tenant_in_flight p)
     \<and> (\<forall>t \<in># live. valid_identifier t)"

lemma admission_run_inv:
  "admission_run p c live \<Longrightarrow> ac_policy c = p \<and> counts (ac_state c) live \<and> within_limits p live"
proof (induction rule: admission_run.induct)
  case (run_new p c)
  then show ?case by (auto simp: admission_new_def counts_def within_limits_def split: sum.splits)
next
  case (run_admit p c live tenant t c')
  then have c: "counts (ac_state c) live" "ac_policy c = p" "within_limits p live" by simp_all
  note a = admit_Inr [OF run_admit.hyps(2) c(1)]
  then show ?case using c by (auto simp: within_limits_def Suc_le_eq)
next
  case (run_refuse p c live tenant e c')
  then show ?case using admit_Inl by blast
next
  case (run_drop p c live t)
  then have "within_limits p (live - {#t#})"
    by (auto simp: within_limits_def dest: in_diffD intro: order_trans [OF size_Diff1_le] le_trans [OF diff_le_self])
  then show ?case using run_drop drop_counts [of c live t] by simp
qed

text \<open>The counters determine the state, so a permit that is taken and dropped leaves no trace.\<close>

lemma counts_unique:
  assumes "counts s live" "counts s' live"
  shows "s = s'"
proof -
  have "map_of (tenant_in_flight s) = map_of (tenant_in_flight s')" using assms by (auto simp: counts_def)
  then have "tenant_in_flight s = tenant_in_flight s'"
    using assms by (auto simp: counts_def intro: sorted_keys_unique)
  then show ?thesis using assms by (simp add: counts_def)
qed

lemma admit_then_drop:
  assumes "counts (ac_state c) live" "admit t c = (Inr t, c')"
  shows "permit_drop t c' = c"
proof -
  note x = admit_Inr [OF assms(2,1)]
  have "t \<in># add_mset t live" by simp
  from drop_counts [OF x(6) this] x(5) counts_unique [OF _ assms(1)]
  show ?thesis by (auto intro: admission_controller.equality)
qed

section \<open>Properties\<close>

text \<open>
  C10: Admission control is exact.  After any sequence of admissions, refusals and drops, the
  counters are the numbers of live permits, in total and per tenant, a tenant without permits is
  not listed, and neither the global nor the per-tenant limit is ever exceeded.
\<close>
theorem admission_counts_exact:
  assumes "admission_run p c live"
  shows "total_in_flight (admission_snapshot c) = size live
    \<and> (\<forall>t. map_of (tenant_in_flight (admission_snapshot c)) t = (if t \<in># live then Some (count live t) else None))
    \<and> size live \<le> global_in_flight p \<and> (\<forall>t. count live t \<le> per_tenant_in_flight p)"
  using admission_run_inv [OF assms]
  by (auto simp: admission_snapshot_def counts_def within_limits_def count_eq_zero_iff)

definition small_policy :: admission_policy where
  "small_policy = \<lparr>global_in_flight = 2, per_tenant_in_flight = 1\<rparr>"

definition small_controller :: admission_controller where
  "small_controller = \<lparr>ac_policy = small_policy, ac_state = \<lparr>total_in_flight = 0, tenant_in_flight = []\<rparr>\<rparr>"

lemma small_run: "admission_run small_policy (snd (admit ''a'' small_controller)) {#''a''#}"
proof -
  have "admission_new small_policy = Inr small_controller" by code_simp
  moreover have "fst (admit ''a'' small_controller) = Inr ''a''" by code_simp
  ultimately show ?thesis by (metis run_admit run_new prod.collapse)
qed

theorem admission_counts_exact_witness:
  "total_in_flight (admission_snapshot (snd (admit ''a'' small_controller))) = 1"
  using admission_counts_exact [OF small_run] by simp

text \<open>
  A request is refused only for a reason that holds: the tenant's name is invalid, the
  global limit is reached, or the tenant's limit is reached; otherwise it is admitted.  A refusal
  changes nothing.
\<close>
theorem admission_refused_only_at_limit:
  assumes "admission_run p c live"
  shows "case fst (admit t c) of
      Inr t' \<Rightarrow> t' = t \<and> valid_identifier t \<and> size live < global_in_flight p \<and> count live t < per_tenant_in_flight p
    | Inl e \<Rightarrow> snd (admit t c) = c
        \<and> (e = InvalidTenant \<and> \<not> valid_identifier t
           \<or> e = GlobalLimit (global_in_flight p) \<and> size live = global_in_flight p
           \<or> e = TenantLimit t (per_tenant_in_flight p) \<and> count live t = per_tenant_in_flight p)"
proof -
  have inv: "ac_policy c = p" "counts (ac_state c) live" "within_limits p live"
    using admission_run_inv [OF assms] by simp_all
  then have "size live \<le> global_in_flight p" "count live t \<le> per_tenant_in_flight p"
    by (simp_all add: within_limits_def)
  then show ?thesis
    using inv(1,2) get_or_counts [OF inv(2), of t]
    by (auto simp: admit_def Let_def counts_def not_le)
qed

theorem admission_refused_only_at_limit_witness:
  "snd (admit ''a'' (snd (admit ''a'' small_controller))) = snd (admit ''a'' small_controller)"
proof -
  have "isl (fst (admit ''a'' (snd (admit ''a'' small_controller))))" by code_simp
  then show ?thesis using admission_refused_only_at_limit [OF small_run, of "''a''"]
    by (auto simp: isl_def)
qed

text \<open>
  No slot leaks: a permit that is taken and dropped restores the counters, and when every
  permit has been dropped the controller is empty again.
\<close>
theorem no_slot_leaks:
  assumes "admission_run p c live"
  shows "(admit t c = (Inr t, c') \<longrightarrow> permit_drop t c' = c)
    \<and> (live = {#} \<longrightarrow> admission_snapshot c = \<lparr>total_in_flight = 0, tenant_in_flight = []\<rparr>)"
proof -
  have inv: "ac_policy c = p" "counts (ac_state c) live"
    using admission_run_inv [OF assms] by simp_all
  have "permit_drop t c' = c" if "admit t c = (Inr t, c')" using admit_then_drop [OF inv(2) that] .
  moreover have "admission_snapshot c = \<lparr>total_in_flight = 0, tenant_in_flight = []\<rparr>" if "live = {#}"
  proof -
    have "map_of (tenant_in_flight (ac_state c)) = Map.empty"
      using inv(2) that by (intro ext) (simp add: counts_def)
    then have "tenant_in_flight (ac_state c) = []" by (simp only: map_of_eq_empty_iff)
    then show ?thesis using inv(2) that by (simp add: counts_def admission_snapshot_def)
  qed
  ultimately show ?thesis by blast
qed

theorem no_slot_leaks_witness: "permit_drop ''a'' (snd (admit ''a'' small_controller)) = small_controller"
proof -
  have new: "admission_new small_policy = Inr small_controller" by code_simp
  have "fst (admit ''a'' small_controller) = Inr ''a''" by code_simp
  then have "admit ''a'' small_controller = (Inr ''a'', snd (admit ''a'' small_controller))" by (simp add: prod_eq_iff)
  then show ?thesis using no_slot_leaks [OF run_new [OF new]] by blast
qed

end
