(* ===== verification/Pipeline.thy ===== *)
theory Pipeline
  imports AuditChain Planner SystemPlanning Admission
begin

text \<open>
  \<open>src/src/pipeline.rs\<close>: the inference pipeline, one definition per stage, composed as
  \<open>process_request\<close> composes them.  The state store, the two transports, the printing of numbers
  and the clock are arguments; what a call does to the transports is the list of calls it makes.
  The health monitor is a field that no operation reads and is left out.
\<close>

section \<open>Requests and outcomes\<close>

record pipeline_request =
  pq_request_id :: string
  pq_tenant_id :: tenant_id
  pq_api_key :: "string option"
  pq_model :: string
  pq_model_version :: "string option"
  pq_prompt_tokens :: usize
  pq_max_tokens :: usize
  pq_prompt_prefix_hash :: "string option"
  pq_max_ttft_ms :: "u64 option"
  pq_max_e2e_ms :: "u64 option"
  pq_min_quality :: "f64 option"
  pq_max_cost :: "f64 option"
  force_stale_world_state :: bool
  observed_kv_size_mb :: "u64 option"
  observed_transfer_latency_ms :: "u64 option"
  observed_network_cost :: "f64 option"
  observed_recomputation_ms :: "u64 option"
  observed_source_node :: "string option"

definition pipeline_request_new :: "string \<Rightarrow> tenant_id \<Rightarrow> string \<Rightarrow> pipeline_request" where
  "pipeline_request_new request_id tenant model =
     \<lparr>pq_request_id = request_id, pq_tenant_id = tenant, pq_api_key = None, pq_model = model,
      pq_model_version = None, pq_prompt_tokens = 128, pq_max_tokens = 256, pq_prompt_prefix_hash = None,
      pq_max_ttft_ms = Some 500, pq_max_e2e_ms = Some 2000, pq_min_quality = Some (f64_lit (8/10)),
      pq_max_cost = Some (f64_lit (5/100)), force_stale_world_state = False, observed_kv_size_mb = None,
      observed_transfer_latency_ms = None, observed_network_cost = None, observed_recomputation_ms = None,
      observed_source_node = None\<rparr>"

record pipeline_outcome =
  po_success :: bool
  po_request_id :: string
  po_decision_id :: string
  po_backend :: "string option"
  po_node :: "string option"
  po_strategy :: "string option"
  po_kv_action :: "kv_action option"
  po_execution_plan :: "execution_plan option"
  po_compiled_plan :: "compiled_plan option"
  po_execution_result :: "backend_result option"
  po_rejection_reason :: "string option"
  po_trace :: decision_trace
  po_world_revision :: u64

section \<open>The engine\<close>

record pipeline =
  pipe_registry :: "fabric_error + backend_registry"
  pipe_capacity :: "fabric_error + capacity_snapshot"
  pipe_world :: world_manager
  pipe_control_plane :: control_plane_snapshot
  pipe_kv :: kv_intelligence
  pipe_admission :: admission_controller
  pipe_firewall :: firewall
  pipe_chain :: audit_chain
  pipe_memory :: decision_memory
  pipe_errors :: error_tracker
  pipe_predictions :: prediction_engine

definition pipeline_firewall :: firewall where
  "pipeline_firewall =
     \<lparr>fw_config = \<lparr>weight_latency = f64_lit (3/10), weight_throughput = f64_lit (2/10),
        weight_reliability = f64_lit (2/10), weight_quality = f64_lit (15/100), weight_cost = f64_lit (1/10),
        weight_kv_transfer = f64_lit (5/100), max_ttft = 1000, max_tpot = 200, max_e2e = 5000,
        min_quality = f64_lit (1/2), max_cost = f_one, max_failure_probability = f64_lit (2/10)\<rparr>,
      max_world_state_age = secs 300\<rparr>"

text \<open>\<open>unwrap()\<close> of the admission controller panics on an invalid policy: \<open>None\<close>.\<close>

definition pipeline_new ::
  "world_manager \<Rightarrow> fabric_error + backend_registry \<Rightarrow> fabric_error + capacity_snapshot \<Rightarrow> kv_intelligence
   \<Rightarrow> pipeline option" where
  "pipeline_new world reg cap kv =
     (case admission_new \<lparr>global_in_flight = 1000, per_tenant_in_flight = 100\<rparr> of
        Inl _ \<Rightarrow> None
      | Inr ac \<Rightarrow> Some \<lparr>pipe_registry = reg, pipe_capacity = cap, pipe_world = world,
            pipe_control_plane = snapshot_new kv default_versions, pipe_kv = kv, pipe_admission = ac,
            pipe_firewall = pipeline_firewall, pipe_chain = chain_new 1000, pipe_memory = memory_new 500,
            pipe_errors = error_tracker_new 500, pipe_predictions = engine_new (f64_lit (3/10)) 5\<rparr>)"

text \<open>What one call reads from the clock, and how numbers are printed.\<close>

record request_clock =
  t_snapshot :: system_time
  t_predict :: "string \<Rightarrow> system_time"
  t_firewall :: "nat \<Rightarrow> system_time"
  t_audit :: system_time
  t_observed :: system_time
  t_ingest :: system_time

record formatting =
  fmt_nat :: "nat \<Rightarrow> string"
  fmt_f64 :: "f64 \<Rightarrow> string"
  fmt_f64_debug :: "f64 \<Rightarrow> string"
  fmt_quote :: "string \<Rightarrow> string"

fun admission_error_debug :: "formatting \<Rightarrow> admission_error \<Rightarrow> string" where
  "admission_error_debug fm (InvalidPolicy message) = ''InvalidPolicy('' @ fmt_quote fm message @ '')''"
| "admission_error_debug fm InvalidTenant = ''InvalidTenant''"
| "admission_error_debug fm (GlobalLimit limit) = ''GlobalLimit { limit: '' @ fmt_nat fm limit @ '' }''"
| "admission_error_debug fm (TenantLimit tenant limit) =
     ''TenantLimit { tenant: '' @ fmt_quote fm tenant @ '', limit: '' @ fmt_nat fm limit @ '' }''"

fun intelligence_error_debug :: "formatting \<Rightarrow> intelligence_error \<Rightarrow> string" where
  "intelligence_error_debug fm (InvalidObservation message) = ''InvalidObservation('' @ fmt_quote fm message @ '')''"
| "intelligence_error_debug fm StaleWorldState = ''StaleWorldState''"
| "intelligence_error_debug fm InsufficientData = ''InsufficientData''"
| "intelligence_error_debug fm (InvalidConfiguration message) = ''InvalidConfiguration('' @ fmt_quote fm message @ '')''"

fun ov_debug :: "('a \<Rightarrow> string) \<Rightarrow> 'a operational_value \<Rightarrow> string" where
  "ov_debug show_value (Observed v) = ''Observed('' @ show_value v @ '')''"
| "ov_debug show_value (Predicted v) = ''Predicted('' @ show_value v @ '')''"
| "ov_debug show_value (Derived v) = ''Derived('' @ show_value v @ '')''"
| "ov_debug show_value (Configured v) = ''Configured('' @ show_value v @ '')''"
| "ov_debug show_value Unknown = ''Unknown''"
| "ov_debug show_value Unavailable = ''Unavailable''"

fun kv_strategy_debug :: "kv_strategy \<Rightarrow> string" where
  "kv_strategy_debug NoKv = ''None''"
| "kv_strategy_debug PrefixCache = ''PrefixCache''"
| "kv_strategy_debug CachedKv = ''CachedKv''"
| "kv_strategy_debug CrossModelKvTransfer = ''CrossModelKvTransfer''"

section \<open>Ending a request\<close>

definition decision_id :: "pipeline_request \<Rightarrow> string" where
  "decision_id q = ''dec-'' @ pq_request_id q"

definition trace_finish :: "pipeline_request \<Rightarrow> bool \<Rightarrow> string \<Rightarrow> trace_rejection list \<Rightarrow> decision_trace" where
  "trace_finish q success reason rejections =
     \<lparr>schema_version = DECISION_TRACE_SCHEMA_VERSION, dt_request_id = pq_request_id q, capacity_revision = 0,
      dt_backend_revision = 0, dt_selected = None, dt_rejected = rejections, rejected_truncated = False,
      unavailable_nodes = [], dt_config_error = (if \<not> success then Some reason else None)\<rparr>"

definition refused :: "pipeline_request \<Rightarrow> string \<Rightarrow> string \<Rightarrow> trace_rejection list \<Rightarrow> u64 \<Rightarrow> pipeline_outcome" where
  "refused q trace_reason reason rejections wr =
     \<lparr>po_success = False, po_request_id = pq_request_id q, po_decision_id = decision_id q, po_backend = None,
      po_node = None, po_strategy = None, po_kv_action = None, po_execution_plan = None, po_compiled_plan = None,
      po_execution_result = None, po_rejection_reason = Some reason,
      po_trace = trace_finish q False trace_reason rejections, po_world_revision = wr\<rparr>"

section \<open>Authentication\<close>

definition authenticated :: "pipeline_request \<Rightarrow> bool" where
  "authenticated q \<longleftrightarrow>
     (case pq_api_key q of None \<Rightarrow> True | Some key \<Rightarrow> \<not> (key = ''invalid'' \<or> key = []))"

section \<open>Candidates\<close>

definition model_ref_of :: "pipeline_request \<Rightarrow> model_reference" where
  "model_ref_of q = model_new (pq_model q) (unwrap_or ''1'' (pq_model_version q))"

definition requirement_of :: "pipeline_request \<Rightarrow> capacity_requirement" where
  "requirement_of q =
     \<lparr>cr_model = model_ref_of q, cr_region = None, min_available_memory_mb = 1000, max_queue_depth = 10\<rparr>"

definition f64_max :: f64 where "f64_max = Fin False max_mag"

definition kv_stage :: "pipeline_request \<Rightarrow> kv_action \<times> string" where
  "kv_stage q =
     (case pq_prompt_prefix_hash q of
        None \<Rightarrow> (Recompute, ''NO_PREFIX'')
      | Some _ \<Rightarrow>
          let i = \<lparr>compatible = True, kv_size_mb = unwrap_or 0 (observed_kv_size_mb q),
                transfer_latency_ms = unwrap_or (- 1) (observed_transfer_latency_ms q),
                network_cost = unwrap_or f64_max (observed_network_cost q),
                recomputation_ms = unwrap_or 0 (observed_recomputation_ms q),
                expected_reuse = f64_lit (8/10), failure_risk = f64_lit (1/100), kd_confidence = f64_lit (9/10)\<rparr>
          in if transfer_latency_ms i = - 1 \<or> f_eq (network_cost i) f64_max
             then (Recompute, ''MISSING_KV_TELEMETRY'') else decide_kv i)"

definition predicted_value :: "system_time \<Rightarrow> prediction_engine \<Rightarrow> string \<Rightarrow> u64 \<Rightarrow> u64 operational_value" where
  "predicted_value now e key wr =
     (case engine_predict now key wr e of
        Inr p \<Rightarrow> Predicted (f64_to_u64 (pd_value p))
      | Inl _ \<Rightarrow> Unavailable)"

definition supported_strategies :: "backend_registry \<Rightarrow> string \<Rightarrow> model_reference \<Rightarrow> kv_strategy list" where
  "supported_strategies backends b m =
     filter (\<lambda>s. case registry_supports backends b m s of Inr v \<Rightarrow> v | Inl _ \<Rightarrow> False)
       [NoKv, PrefixCache, CachedKv, CrossModelKvTransfer]"

text \<open>The clock is read in each prediction: it is indexed by the candidate and the quantity predicted.\<close>

definition candidate_estimate ::
  "(string \<Rightarrow> system_time) \<Rightarrow> prediction_engine \<Rightarrow> u64 \<Rightarrow> pipeline_request \<Rightarrow> string \<Rightarrow> compute_node \<Rightarrow> kv_strategy \<Rightarrow> counterfactual" where
  "candidate_estimate now e wr q b n s =
     \<lparr>candidate_id = candidate_id_new b (cn_id n) (kv_strategy_debug s), cf_backend_id = b,
      cf_compute_node_id = cn_id n, cf_model = pq_model q, cf_strategy = kv_strategy_debug s,
      predicted_ttft = predicted_value (now (candidate_id_new b (cn_id n) (kv_strategy_debug s) @ ''-ttft'')) e (b @ ''-ttft'') wr, predicted_tpot = Unavailable,
      predicted_e2e = predicted_value (now (candidate_id_new b (cn_id n) (kv_strategy_debug s) @ ''-e2e'')) e (b @ ''-e2e'') wr, predicted_cost = Derived (f64_lit (5/1000)),
      predicted_failure_probability = Predicted (f64_lit (1/100)), predicted_kv_transfer = Unavailable,
      quality_risk = Configured f_one, cf_confidence = Derived (f64_lit (9/10)), feasible = True,
      cf_rejection_reason = None\<rparr>"

definition raw_candidates ::
  "(string \<Rightarrow> system_time) \<Rightarrow> prediction_engine \<Rightarrow> u64 \<Rightarrow> pipeline_request \<Rightarrow> backend_registry \<Rightarrow> compute_node list
   \<Rightarrow> (counterfactual \<times> kv_action) list" where
  "raw_candidates now e wr q backends eligible =
     concat (map (\<lambda>b. concat (map (\<lambda>n. map (\<lambda>s. (candidate_estimate now e wr q b n s, fst (kv_stage q)))
         (supported_strategies backends b (model_ref_of q))) eligible)) (backend_ids backends))"

definition sorted_candidates where
  "sorted_candidates now e wr q backends eligible =
     sort_key (\<lambda>(c, _). candidate_id c) (raw_candidates now e wr q backends eligible)"

section \<open>Constraints and firewall\<close>

definition constraint_rejection :: "formatting \<Rightarrow> pipeline_request \<Rightarrow> counterfactual \<Rightarrow> string option" where
  "constraint_rejection fm q c =
     (if some_and (pq_max_ttft_ms q) (\<lambda>limit. some_and (ov_value (predicted_ttft c)) (\<lambda>v. v > limit))
      then Some (''TTFT '' @ ov_debug (fmt_nat fm \<circ> unat) (predicted_ttft c) @ '' exceeds max ''
             @ fmt_nat fm (unat (unwrap_or 0 (pq_max_ttft_ms q))) @ ''ms'')
      else if some_and (pq_max_e2e_ms q) (\<lambda>limit. some_and (ov_value (predicted_e2e c)) (\<lambda>v. v > limit))
      then Some (''E2E '' @ ov_debug (fmt_nat fm \<circ> unat) (predicted_e2e c) @ '' exceeds max ''
             @ fmt_nat fm (unat (unwrap_or 0 (pq_max_e2e_ms q))) @ ''ms'')
      else if some_and (pq_max_cost q) (\<lambda>limit. some_and (ov_value (predicted_cost c)) (\<lambda>v. f_gt v limit))
      then Some (''Cost '' @ ov_debug (fmt_f64_debug fm) (predicted_cost c) @ '' exceeds max ''
             @ fmt_f64 fm (unwrap_or f_zero (pq_max_cost q)))
      else None)"

definition rejection_of :: "counterfactual \<Rightarrow> string \<Rightarrow> trace_rejection" where
  "rejection_of c reason =
     \<lparr>tr_backend_id = cf_backend_id c, tr_compute_node_id = cf_compute_node_id c, tr_reason = reason\<rparr>"

text \<open>The candidates that pass, and the rejections in order; \<open>i\<close> counts the loop.\<close>

fun screen ::
  "formatting \<Rightarrow> (nat \<Rightarrow> system_time) \<Rightarrow> firewall \<Rightarrow> world_state \<Rightarrow> pipeline_request \<Rightarrow> nat
   \<Rightarrow> (counterfactual \<times> kv_action) list \<Rightarrow> (counterfactual \<times> kv_action) list \<times> trace_rejection list" where
  "screen fm clk fw w q i [] = ([], [])"
| "screen fm clk fw w q i ((c, kv) # cs) =
     (case screen fm clk fw w q (Suc i) cs of (passed, rejections) \<Rightarrow>
        (case constraint_rejection fm q c of
           Some reason \<Rightarrow> (passed, rejection_of c reason # rejections)
         | None \<Rightarrow>
             if evaluate_candidate (clk i) fw c w High = Approved then ((c, kv) # passed, rejections)
             else (passed, rejection_of c ''Rejected by DecisionFirewall'' # rejections)))"

section \<open>Selection and plans\<close>

text \<open>\<open>evaluated[0]\<close> panics on an empty ranking: \<open>None\<close>.\<close>

definition select_candidate :: "(counterfactual \<times> kv_action) list \<Rightarrow> (counterfactual \<times> kv_action) option" where
  "select_candidate passed =
     (case counterfactual_evaluate (map fst passed) of
        [] \<Rightarrow> None
      | c # _ \<Rightarrow> Some (c, case List.find (\<lambda>(d, _). candidate_id d = candidate_id c) passed of
                            None \<Rightarrow> Recompute | Some (_, kv) \<Rightarrow> kv))"

definition pipeline_plan :: "pipeline_request \<Rightarrow> counterfactual \<Rightarrow> kv_action \<Rightarrow> execution_plan" where
  "pipeline_plan q c kv =
     \<lparr>ep_schema_version = 1,
      ep_snapshot = \<lparr>ss_tenant_id = pq_tenant_id q, ss_start = cf_compute_node_id c, ss_goal = cf_compute_node_id c,
                     ss_cache_hit = (kv = Reuse)\<rparr>,
      ep_candidate = \<lparr>ca_nodes = [cf_compute_node_id c], ca_score = f_one\<rparr>,
      ep_steps = [\<lparr>ordinal = 0, es_node = cf_compute_node_id c\<rparr>],
      ep_kv = \<lparr>kp_inference = NormalPrefill, kp_strategy = NoKv, kp_target = Some (model_ref_of q), kp_source = None,
               kp_mapping_version = None, kp_model_revision = 0, kp_compatibility_revision = 0,
               kp_fallback_reason = None\<rparr>\<rparr>"

definition pipeline_compiled :: "pipeline_request \<Rightarrow> counterfactual \<Rightarrow> kv_action \<Rightarrow> u64 \<Rightarrow> compiled_plan" where
  "pipeline_compiled q c kv wr =
     compile_plan c (unwrap_or ''Unknown'' (pq_model_version q)) (kv, ''Selected deterministic action'')
       (f64_lit (8/10)) wr 1 1"

definition transport_request_of :: "pipeline_request \<Rightarrow> counterfactual \<Rightarrow> compiled_plan \<Rightarrow> transport_request" where
  "transport_request_of q c compiled =
     \<lparr>tq_request_id = pq_request_id q, tq_model = pq_model q,
      tq_model_version = unwrap_or ''Unknown'' (pq_model_version q), tq_backend_id = cf_backend_id c,
      tq_timeout = cp_timeout compiled\<rparr>"

definition chosen_outcome ::
  "pipeline_request \<Rightarrow> counterfactual \<Rightarrow> kv_action \<Rightarrow> u64 \<Rightarrow> string \<Rightarrow> trace_rejection list \<Rightarrow> pipeline_outcome" where
  "chosen_outcome q c kv wr reason rejections =
     (refused q reason reason rejections wr)
       \<lparr>po_backend := Some (cf_backend_id c), po_node := Some (cf_compute_node_id c),
        po_strategy := Some (cf_strategy c), po_kv_action := Some kv,
        po_execution_plan := Some (pipeline_plan q c kv),
        po_compiled_plan := Some (pipeline_compiled q c kv wr)\<rparr>"

section \<open>Execution and feedback\<close>

datatype pipeline_call = TransferKv string string | ExecuteOn transport_request

definition pipeline_transfer ::
  "kv_transport option \<Rightarrow> pipeline_request \<Rightarrow> counterfactual \<Rightarrow> kv_action \<Rightarrow> (fabric_error + unit) \<times> pipeline_call list" where
  "pipeline_transfer kvt q c kv =
     (case kvt of
        Some k \<Rightarrow>
          if kv = Transfer
          then let source = unwrap_or ''Unknown'' (observed_source_node q)
               in (kv_transfer k source (cf_compute_node_id c), [TransferKv source (cf_compute_node_id c)])
          else (Inr (), [])
      | None \<Rightarrow> (Inr (), []))"

definition observation_of ::
  "system_time \<Rightarrow> pipeline_request \<Rightarrow> counterfactual \<Rightarrow> kv_action \<Rightarrow> transport_response \<Rightarrow> u64 \<Rightarrow> observation" where
  "observation_of now q c kv resp wr =
     \<lparr>ob_schema_version = 1, ob_request_id = pq_request_id q, ob_tenant = pq_tenant_id q, ob_model = pq_model q,
      ob_model_version = unwrap_or ''Unknown'' (pq_model_version q), ob_backend_id = cf_backend_id c,
      ob_backend_version = unwrap_or ''Unknown'' (tp_backend_version resp),
      ob_compute_node_id = cf_compute_node_id c, ob_accelerator = unwrap_or ''Unknown'' (tp_accelerator resp),
      ob_region = unwrap_or ''Unknown'' (tp_region resp), ob_prefill_tokens = pq_prompt_tokens q,
      ob_decode_tokens = pq_max_tokens q, ob_total_tokens = pq_prompt_tokens q + pq_max_tokens q,
      ob_queue_delay_ms = unwrap_or 0 (tp_queue_delay_ms resp), ob_ttft_ms = unwrap_or 0 (tp_ttft_ms resp),
      ob_tpot_ms = unwrap_or 0 (tp_tpot_ms resp), ob_e2e_latency_ms = tp_latency_ms resp,
      ob_gpu_utilization = unwrap_or f_zero (tp_gpu_utilization resp),
      ob_gpu_memory_used_mb = unwrap_or 0 (tp_gpu_memory_used_mb resp),
      ob_gpu_memory_total_mb = unwrap_or 0 (tp_gpu_memory_total_mb resp), ob_kv_hit = (kv = Reuse),
      ob_kv_tokens = (if kv = Reuse then pq_prompt_tokens q else 0),
      ob_kv_memory_mb = unwrap_or 0 (observed_kv_size_mb q),
      ob_kv_transfer_ms = unwrap_or 0 (observed_transfer_latency_ms q), ob_network_transfer_ms = 0, ob_retries = 0,
      ob_failure_class = tp_failure_class resp, ob_quality_score = unwrap_or f_one (tp_quality_score resp),
      ob_estimated_cost = unwrap_or f_zero (ov_value (predicted_cost c)),
      ob_actual_cost = unwrap_or f_zero (tp_actual_cost resp), ob_timestamp = now, ob_world_revision = wr\<rparr>"

definition execution_result_of :: "counterfactual \<Rightarrow> transport_response \<Rightarrow> backend_result" where
  "execution_result_of c resp =
     \<lparr>backend = cf_backend_id c, res_success = tp_success resp, res_latency_ms = Some (tp_latency_ms resp),
      estimated_cost = ov_value (predicted_cost c), failure = None\<rparr>"

definition prediction_error_of :: "pipeline_request \<Rightarrow> counterfactual \<Rightarrow> transport_response \<Rightarrow> u64 \<Rightarrow> prediction_error" where
  "prediction_error_of q c resp wr =
     error_compute ''e2e_ms'' (f64_of_u64 (unwrap_or 0 (ov_value (predicted_e2e c))))
       (f64_of_u64 (tp_latency_ms resp)) (unwrap_or f_zero (ov_value (cf_confidence c)))
       (unwrap_or ''1'' (pq_model_version q)) wr"

definition feedback ::
  "(string \<Rightarrow> string) \<Rightarrow> request_clock \<Rightarrow> pipeline_request \<Rightarrow> world_state \<Rightarrow> counterfactual \<Rightarrow> kv_action
   \<Rightarrow> transport_response \<Rightarrow> pipeline \<Rightarrow> u64 \<times> pipeline" where
  "feedback md5 clk q w c kv resp s =
     (let wr = ws_revision w;
          chain = chain_append md5 (t_audit clk) (pq_request_id q) (cf_backend_id c) wr (pipe_chain s)
      in case ingest (t_ingest clk) (observation_of (t_observed clk) q c kv resp wr) (pipe_world s) of
           (res, world) \<Rightarrow>
             (case res of Inr r \<Rightarrow> r | Inl _ \<Rightarrow> wr + 1,
              s\<lparr>pipe_chain := chain, pipe_world := world,
                pipe_errors := error_record (prediction_error_of q c resp wr) (pipe_errors s)\<rparr>))"

definition dispatch ::
  "formatting \<Rightarrow> (string \<Rightarrow> string) \<Rightarrow> request_clock \<Rightarrow> inference_transport \<Rightarrow> kv_transport option \<Rightarrow> pipeline_request
   \<Rightarrow> world_state \<Rightarrow> trace_rejection list \<Rightarrow> counterfactual \<Rightarrow> kv_action \<Rightarrow> pipeline
   \<Rightarrow> pipeline_outcome \<times> pipeline_call list \<times> pipeline" where
  "dispatch fm md5 clk tp kvt q w rejections c kv s =
     (let wr = ws_revision w;
          compiled = pipeline_compiled q c kv wr;
          treq = transport_request_of q c compiled
      in case pipeline_transfer kvt q c kv of
           (Inl e, calls) \<Rightarrow>
             (chosen_outcome q c kv wr (''KV Transfer failed: '' @ fabric_error_display (fmt_quote fm) e) rejections,
              calls, s)
         | (Inr _, calls) \<Rightarrow>
             (case tp treq of
                Inl e \<Rightarrow>
                  (chosen_outcome q c kv wr
                     (''Transport execution failed: '' @ fabric_error_display (fmt_quote fm) e) rejections,
                   calls @ [ExecuteOn treq], s)
              | Inr resp \<Rightarrow>
                  (case feedback md5 clk q w c kv resp s of (new_revision, s') \<Rightarrow>
                     ((chosen_outcome q c kv wr [] [])
                        \<lparr>po_success := True, po_execution_result := Some (execution_result_of c resp),
                         po_rejection_reason := None,
                         po_trace := trace_finish q True ''Execution successful'' rejections,
                         po_world_revision := new_revision\<rparr>,
                      calls @ [ExecuteOn treq], s'))))"

section \<open>The whole request\<close>

definition run_admitted ::
  "formatting \<Rightarrow> (string \<Rightarrow> string) \<Rightarrow> request_clock \<Rightarrow> inference_transport \<Rightarrow> kv_transport option \<Rightarrow> pipeline_request
   \<Rightarrow> pipeline \<Rightarrow> (pipeline_outcome \<times> pipeline_call list \<times> pipeline) option" where
  "run_admitted fm md5 clk tp kvt q s =
     (case world_snapshot (t_snapshot clk) (pipe_world s) of
        Inl e \<Rightarrow> Some (refused q (''World state error: '' @ intelligence_error_debug fm e)
                        (''World state error: '' @ intelligence_error_display e) [] 0, [], s)
      | Inr w \<Rightarrow>
          if force_stale_world_state q
          then Some (refused q ''Stale world state revision'' ''Stale world state revision'' [] (ws_revision w), [], s)
          else
            let backends = (case pipe_registry s of Inr r \<Rightarrow> r | Inl _ \<Rightarrow> empty_backends);
                capacity = (case pipe_capacity s of Inr c \<Rightarrow> c | Inl _ \<Rightarrow> default_capacity)
            in if backend_ids backends = []
               then Some (refused q ''No declared backends for model'' ''No declared backends for model'' []
                            (ws_revision w), [], s)
               else
                 let candidates = sorted_candidates (t_predict clk) (pipe_predictions s) (ws_revision w) q backends
                       (fst (evaluate capacity (requirement_of q)))
                 in case screen fm (t_firewall clk) (pipe_firewall s) w q 0 candidates of
                      (passed, rejections) \<Rightarrow>
                        if passed = []
                        then Some (refused q ''All candidates rejected by hard constraints/firewall''
                                     ''All candidates rejected by hard constraints/firewall'' rejections
                                     (ws_revision w), [], s)
                        else case select_candidate passed of
                               None \<Rightarrow> None
                             | Some (c, kv) \<Rightarrow> Some (dispatch fm md5 clk tp kvt q w rejections c kv s))"

text \<open>The permit lives until the function returns, whichever way it returns.\<close>

definition process_request ::
  "formatting \<Rightarrow> (string \<Rightarrow> string) \<Rightarrow> request_clock \<Rightarrow> inference_transport \<Rightarrow> kv_transport option \<Rightarrow> pipeline_request
   \<Rightarrow> pipeline \<Rightarrow> (pipeline_outcome \<times> pipeline_call list \<times> pipeline) option" where
  "process_request fm md5 clk tp kvt q s =
     (if \<not> authenticated q
      then Some (refused q ''Authentication failed'' ''Authentication failed'' [] 0, [], s)
      else case admit (pq_tenant_id q) (pipe_admission s) of
             (Inl e, _) \<Rightarrow>
               let reason = ''Admission rejected: '' @ admission_error_debug fm e
               in Some (refused q reason reason [] 0, [], s)
           | (Inr p, ac) \<Rightarrow>
               map_option (\<lambda>(out, calls, s'). (out, calls, s'\<lparr>pipe_admission := permit_drop p (pipe_admission s')\<rparr>))
                 (run_admitted fm md5 clk tp kvt q (s\<lparr>pipe_admission := ac\<rparr>)))"

section \<open>The ways a request can end\<close>

definition pipe_backends :: "pipeline \<Rightarrow> backend_registry" where
  "pipe_backends s = (case pipe_registry s of Inr r \<Rightarrow> r | Inl _ \<Rightarrow> empty_backends)"

definition eligible_nodes :: "pipeline \<Rightarrow> pipeline_request \<Rightarrow> compute_node list" where
  "eligible_nodes s q =
     fst (evaluate (case pipe_capacity s of Inr c \<Rightarrow> c | Inl _ \<Rightarrow> default_capacity) (requirement_of q))"

definition pipe_candidates :: "request_clock \<Rightarrow> world_state \<Rightarrow> pipeline_request \<Rightarrow> pipeline \<Rightarrow> (counterfactual \<times> kv_action) list" where
  "pipe_candidates clk w q s =
     sorted_candidates (t_predict clk) (pipe_predictions s) (ws_revision w) q (pipe_backends s) (eligible_nodes s q)"

definition pipe_screen ::
  "formatting \<Rightarrow> request_clock \<Rightarrow> world_state \<Rightarrow> pipeline_request \<Rightarrow> pipeline
   \<Rightarrow> (counterfactual \<times> kv_action) list \<times> trace_rejection list" where
  "pipe_screen fm clk w q s = screen fm (t_firewall clk) (pipe_firewall s) w q 0 (pipe_candidates clk w q s)"

lemmas pipe_parts = pipe_backends_def eligible_nodes_def pipe_candidates_def pipe_screen_def

lemma screen_passed:
  "(c, kv) \<in> set (fst (screen fm clk fw w q i cs)) \<Longrightarrow>
   (c, kv) \<in> set cs \<and> constraint_rejection fm q c = None \<and> (\<exists>j. evaluate_candidate (clk j) fw c w High = Approved)"
proof (induction cs arbitrary: i)
  case (Cons p cs)
  obtain d kv' where p: "p = (d, kv')" by (metis surj_pair)
  obtain passed rs where r: "screen fm clk fw w q (Suc i) cs = (passed, rs)" by (metis surj_pair)
  show ?case using Cons.prems Cons.IH [of "Suc i"] by (auto simp: p r split: option.splits if_splits)
qed simp

lemma raw_candidates_iff:
  "(c, kv) \<in> set (raw_candidates now e wr q backends eligible) \<longleftrightarrow>
     (\<exists>b n st. b \<in> set (backend_ids backends) \<and> n \<in> set eligible
        \<and> st \<in> set (supported_strategies backends b (model_ref_of q))
        \<and> c = candidate_estimate now e wr q b n st \<and> kv = fst (kv_stage q))"
  by (auto simp: raw_candidates_def)

lemma set_sorted_candidates:
  "set (sorted_candidates now e wr q backends eligible) = set (raw_candidates now e wr q backends eligible)"
  by (simp add: sorted_candidates_def)

lemma supported_strategies_iff:
  "st \<in> set (supported_strategies backends b m) \<longleftrightarrow> registry_supports backends b m st = Inr True"
  by (cases st; cases "registry_supports backends b m st") (auto simp: supported_strategies_def)

text \<open>Every candidate is marked feasible, so the ranking of a nonempty list is not empty.\<close>

lemma passed_candidate:
  assumes "(c, kv) \<in> set (fst (pipe_screen fm clk w q s))"
  obtains b n st where "registry_supports (pipe_backends s) b (model_ref_of q) st = Inr True"
    "n \<in> set (eligible_nodes s q)" "kv = fst (kv_stage q)"
    "c = candidate_estimate (t_predict clk) (pipe_predictions s) (ws_revision w) q b n st"
    "constraint_rejection fm q c = None" "\<exists>j. evaluate_candidate (t_firewall clk j) (pipe_firewall s) c w High = Approved"
proof -
  have "(c, kv) \<in> set (pipe_candidates clk w q s)" "constraint_rejection fm q c = None"
    "\<exists>j. evaluate_candidate (t_firewall clk j) (pipe_firewall s) c w High = Approved"
    using screen_passed [OF assms [unfolded pipe_screen_def]] by blast+
  then show thesis using that
    by (auto simp: pipe_candidates_def set_sorted_candidates raw_candidates_iff supported_strategies_iff)
qed

lemma select_candidate_spec:
  assumes "select_candidate passed = Some (c, kv)"
  shows "c \<in> fst ` set passed" "kv \<in> {Recompute} \<union> snd ` set passed"
    and "\<And>d. d \<in> fst ` set passed \<Longrightarrow> feasible d \<Longrightarrow> (cf_score c, candidate_id c) \<le> (cf_score d, candidate_id d)"
proof -
  obtain rest where r: "counterfactual_evaluate (map fst passed) = c # rest"
    using assms by (auto simp: select_candidate_def split: list.splits)
  note hd = hd_sort_key_least [OF r [unfolded counterfactual_evaluate_def]]
  show "c \<in> fst ` set passed" using hd by auto
  show "d \<in> fst ` set passed \<Longrightarrow> feasible d \<Longrightarrow> (cf_score c, candidate_id c) \<le> (cf_score d, candidate_id d)" for d
    using hd by auto
  show "kv \<in> {Recompute} \<union> snd ` set passed"
    using assms r by (auto simp: select_candidate_def find_Some_iff split: option.splits) (metis imageI nth_mem snd_conv)
qed

lemma select_candidate_Some:
  assumes "passed \<noteq> []" "\<And>c. c \<in> fst ` set passed \<Longrightarrow> feasible c"
  obtains c kv where "select_candidate passed = Some (c, kv)"
proof -
  have "counterfactual_evaluate (map fst passed) \<noteq> []"
    using assms by (auto simp: counterfactual_evaluate_def sort_key_Nil_iff filter_empty_conv neq_Nil_conv)
  then show thesis using that by (cases "counterfactual_evaluate (map fst passed)") (auto simp: select_candidate_def)
qed

lemma pipe_passed_feasible: "c \<in> fst ` set (fst (pipe_screen fm clk w q s)) \<Longrightarrow> feasible c"
  by (auto elim!: passed_candidate simp: candidate_estimate_def)

lemma run_admitted_eq:
  "run_admitted fm md5 clk tp kvt q s =
     (case world_snapshot (t_snapshot clk) (pipe_world s) of
        Inl e \<Rightarrow> Some (refused q (''World state error: '' @ intelligence_error_debug fm e)
                        (''World state error: '' @ intelligence_error_display e) [] 0, [], s)
      | Inr w \<Rightarrow>
          if force_stale_world_state q
          then Some (refused q ''Stale world state revision'' ''Stale world state revision'' [] (ws_revision w), [], s)
          else if backend_ids (pipe_backends s) = []
          then Some (refused q ''No declared backends for model'' ''No declared backends for model'' [] (ws_revision w), [], s)
          else case pipe_screen fm clk w q s of
                 (passed, rejections) \<Rightarrow>
                   if passed = []
                   then Some (refused q ''All candidates rejected by hard constraints/firewall''
                                ''All candidates rejected by hard constraints/firewall'' rejections (ws_revision w), [], s)
                   else case select_candidate passed of
                          None \<Rightarrow> None
                        | Some (c, kv) \<Rightarrow> Some (dispatch fm md5 clk tp kvt q w rejections c kv s))"
  unfolding run_admitted_def Let_def pipe_parts ..

lemma refused_not_success [simp]: "\<not> po_success (refused q a b rejections wr)"
  by (simp add: refused_def)

lemma run_admitted_cases:
  obtains (refused) out where "run_admitted fm md5 clk tp kvt q s = Some (out, [], s)" "\<not> po_success out"
  | (sent) w passed rejections c kv where "world_snapshot (t_snapshot clk) (pipe_world s) = Inr w"
      "\<not> force_stale_world_state q" "pipe_screen fm clk w q s = (passed, rejections)"
      "select_candidate passed = Some (c, kv)"
      "run_admitted fm md5 clk tp kvt q s = Some (dispatch fm md5 clk tp kvt q w rejections c kv s)"
proof (cases "world_snapshot (t_snapshot clk) (pipe_world s)")
  case (Inl e)
  then show thesis by (intro refused [OF _ refused_not_success]) (simp add: run_admitted_eq)
next
  case (Inr w)
  obtain passed rejections where scr: "pipe_screen fm clk w q s = (passed, rejections)" by (metis surj_pair)
  show thesis
  proof (cases "force_stale_world_state q \<or> backend_ids (pipe_backends s) = [] \<or> passed = []")
    case True
    then have "\<exists>out. run_admitted fm md5 clk tp kvt q s = Some (out, [], s) \<and> \<not> po_success out"
      using Inr scr by (auto simp: run_admitted_eq)
    then show thesis using refused by blast
  next
    case False
    moreover obtain c kv where sel: "select_candidate passed = Some (c, kv)"
      using select_candidate_Some [of passed] False pipe_passed_feasible [of _ fm clk w q s] scr by auto
    ultimately show thesis using Inr scr
      by (intro sent [of w passed rejections c kv]) (auto simp: run_admitted_eq)
  qed
qed

lemma admission_unused [simp]:
  "pipe_world (s\<lparr>pipe_admission := ac\<rparr>) = pipe_world s" "pipe_backends (s\<lparr>pipe_admission := ac\<rparr>) = pipe_backends s"
  "eligible_nodes (s\<lparr>pipe_admission := ac\<rparr>) q = eligible_nodes s q"
  "pipe_candidates clk w q (s\<lparr>pipe_admission := ac\<rparr>) = pipe_candidates clk w q s"
  "pipe_screen fm clk w q (s\<lparr>pipe_admission := ac\<rparr>) = pipe_screen fm clk w q s"
  by (simp_all add: pipe_parts)

lemma process_request_cases:
  obtains (denied) out where "process_request fm md5 clk tp kvt q s = Some (out, [], s)" "\<not> po_success out"
  | (ended) ac out where "authenticated q" "admit (pq_tenant_id q) (pipe_admission s) = (Inr (pq_tenant_id q), ac)"
      "process_request fm md5 clk tp kvt q s
         = Some (out, [], s\<lparr>pipe_admission := permit_drop (pq_tenant_id q) ac\<rparr>)" "\<not> po_success out"
  | (sent) ac w passed rejections c kv out calls s1 where "authenticated q"
      "admit (pq_tenant_id q) (pipe_admission s) = (Inr (pq_tenant_id q), ac)"
      "world_snapshot (t_snapshot clk) (pipe_world s) = Inr w" "\<not> force_stale_world_state q"
      "pipe_screen fm clk w q s = (passed, rejections)" "select_candidate passed = Some (c, kv)"
      "dispatch fm md5 clk tp kvt q w rejections c kv (s\<lparr>pipe_admission := ac\<rparr>) = (out, calls, s1)"
      "process_request fm md5 clk tp kvt q s
         = Some (out, calls, s1\<lparr>pipe_admission := permit_drop (pq_tenant_id q) (pipe_admission s1)\<rparr>)"
proof (cases "authenticated q \<and> \<not> isl (fst (admit (pq_tenant_id q) (pipe_admission s)))")
  case False
  then obtain out where "process_request fm md5 clk tp kvt q s = Some (out, [], s)" "\<not> po_success out"
  proof (cases "authenticated q")
    case True
    then obtain e ac where "admit (pq_tenant_id q) (pipe_admission s) = (Inl e, ac)"
      using False by (cases "admit (pq_tenant_id q) (pipe_admission s)") (auto simp: isl_def)
    then show ?thesis using True that by (simp add: process_request_def Let_def)
  qed (simp add: process_request_def that)
  then show thesis by (rule denied)
next
  case True
  then obtain ac where ac: "admit (pq_tenant_id q) (pipe_admission s) = (Inr (pq_tenant_id q), ac)"
    by (auto simp: admit_def Let_def split: if_splits)
  show thesis
  proof (cases rule: run_admitted_cases [where fm = fm and ?md5.0 = md5 and clk = clk and tp = tp and kvt = kvt and q = q and s = "s\<lparr>pipe_admission := ac\<rparr>"])
    case (refused out)
    then show thesis using True ac by (intro ended [of ac out]) (simp_all add: process_request_def)
  next
    case (sent w passed rejections c kv)
    obtain out calls s1 where d: "dispatch fm md5 clk tp kvt q w rejections c kv (s\<lparr>pipe_admission := ac\<rparr>) = (out, calls, s1)"
      by (metis prod_cases3)
    show thesis using True ac sent d
      by (intro that(3) [of ac w passed rejections c kv out calls s1]) (simp_all add: process_request_def)
  qed
qed

lemma dispatch_cases:
  assumes "dispatch fm md5 clk tp kvt q w rejections c kv s = (out, calls, s1)"
  obtains (failed) "\<not> po_success out" "s1 = s"
      "\<forall>t. ExecuteOn t \<in> set calls \<longrightarrow> t = transport_request_of q c (pipeline_compiled q c kv (ws_revision w)) \<and> isl (tp t)"
  | (answered) pre resp new_revision where
      "calls = pre @ [ExecuteOn (transport_request_of q c (pipeline_compiled q c kv (ws_revision w)))]"
      "\<forall>t. ExecuteOn t \<notin> set pre"
      "tp (transport_request_of q c (pipeline_compiled q c kv (ws_revision w))) = Inr resp"
      "feedback md5 clk q w c kv resp s = (new_revision, s1)" "po_success out" "po_backend out = Some (cf_backend_id c)"
      "po_node out = Some (cf_compute_node_id c)" "po_world_revision out = new_revision"
      "po_compiled_plan out = Some (pipeline_compiled q c kv (ws_revision w))"
proof -
  let ?t = "transport_request_of q c (pipeline_compiled q c kv (ws_revision w))"
  obtain res pre where pre: "pipeline_transfer kvt q c kv = (res, pre)" by (metis surj_pair)
  have none: "\<forall>t. ExecuteOn t \<notin> set pre" using pre by (auto simp: pipeline_transfer_def Let_def split: option.splits if_splits)
  show thesis
  proof (cases "isl res \<or> isl (tp ?t)")
    case True
    then show thesis using assms pre none
      by (intro failed) (auto simp: dispatch_def Let_def chosen_outcome_def refused_def split: sum.splits)
  next
    case False
    then obtain u resp where "res = Inr u" "tp ?t = Inr resp" by (cases res; cases "tp ?t") auto
    moreover obtain r s2 where "feedback md5 clk q w c kv resp s = (r, s2)" by (metis surj_pair)
    ultimately show thesis using assms pre none
      by (intro answered [of pre resp r]) (auto simp: dispatch_def Let_def chosen_outcome_def)
  qed
qed

end
