(* ===== verification/PipelineProps.thy ===== *)
theory PipelineProps
  imports Pipeline
begin

text \<open>
  What the pipeline promises: an execution has passed every gate, a failed request changes nothing,
  permits are returned, the audit chain verifies; and what its feedback loop does not do.
\<close>

section \<open>Sequences of requests\<close>

inductive pipeline_reachable :: "(string \<Rightarrow> string) \<Rightarrow> pipeline \<Rightarrow> bool" for md5 where
  pipeline_start: "pipeline_new w reg cap kv = Some s \<Longrightarrow> pipeline_reachable md5 s"
| pipeline_request: "pipeline_reachable md5 s \<Longrightarrow> process_request fm md5 clk tp kvt q s = Some (out, calls, s')
    \<Longrightarrow> pipeline_reachable md5 s'"

definition idle :: "pipeline \<Rightarrow> bool" where
  "idle s \<longleftrightarrow> counts (ac_state (pipe_admission s)) {#}"

text \<open>
  The states in which a request can find the pipeline when others are in flight, with the permits they
  hold: others enter and leave, and between these steps may change everything but the admission.
\<close>

inductive pipeline_in_flight :: "pipeline \<Rightarrow> permit multiset \<Rightarrow> bool" where
  flight_new: "pipeline_new w reg cap kv = Some s \<Longrightarrow> pipeline_in_flight s {#}"
| flight_enter: "pipeline_in_flight s live \<Longrightarrow> admit t (pipe_admission s) = (Inr t, ac)
    \<Longrightarrow> pipeline_in_flight (s\<lparr>pipe_admission := ac\<rparr>) (add_mset t live)"
| flight_work: "pipeline_in_flight s live \<Longrightarrow> pipe_admission s' = pipe_admission s \<Longrightarrow> pipeline_in_flight s' live"
| flight_leave: "pipeline_in_flight s live \<Longrightarrow> t \<in># live
    \<Longrightarrow> pipeline_in_flight (s\<lparr>pipe_admission := permit_drop t (pipe_admission s)\<rparr>) (live - {#t#})"

lemma feedback_simps:
  assumes "feedback md5 clk q w c kv resp s = (r, s1)"
  shows "pipe_admission s1 = pipe_admission s" "pipe_predictions s1 = pipe_predictions s"
    "pipe_memory s1 = pipe_memory s" "pipe_registry s1 = pipe_registry s" "pipe_capacity s1 = pipe_capacity s"
    "pipe_chain s1 = chain_append md5 (t_audit clk) (pq_request_id q) (cf_backend_id c) (ws_revision w) (pipe_chain s)"
    "pipe_firewall s1 = pipe_firewall s"
  using assms by (auto simp: feedback_def Let_def split: prod.splits)

lemma dispatch_frame:
  assumes "dispatch fm md5 clk tp kvt q w rejections c kv s = (out, calls, s1)"
  shows "pipe_admission s1 = pipe_admission s" "pipe_predictions s1 = pipe_predictions s" "pipe_memory s1 = pipe_memory s"
    "pipe_firewall s1 = pipe_firewall s"
  by (cases rule: dispatch_cases [OF assms]; simp add: feedback_simps)+

lemma permit_returned:
  assumes "counts (ac_state (pipe_admission s)) live" "process_request fm md5 clk tp kvt q s = Some (out, calls, s')"
  shows "pipe_admission s' = pipe_admission s"
proof -
  note returned = admit_then_drop [OF assms(1)]
  show ?thesis
    by (cases rule: process_request_cases [where fm = fm and ?md5.0 = md5 and clk = clk and tp = tp and kvt = kvt and q = q and s = s])
      (use assms(2) returned dispatch_frame(1) in \<open>auto\<close>)
qed

lemma request_frame:
  assumes "process_request fm md5 clk tp kvt q s = Some (out, calls, s')"
  shows "pipe_predictions s' = pipe_predictions s" "pipe_memory s' = pipe_memory s" "pipe_firewall s' = pipe_firewall s"
  by (cases rule: process_request_cases [where fm = fm and ?md5.0 = md5 and clk = clk and tp = tp and kvt = kvt and q = q and s = s];
      use assms dispatch_frame(2,3,4) in auto)+

lemma reachable_firewall: "pipeline_reachable md5 s \<Longrightarrow> pipe_firewall s = pipeline_firewall"
  by (induction rule: pipeline_reachable.induct)
    (auto simp: pipeline_new_def dest: request_frame(3) split: sum.splits)

text \<open>The state after a request: either the same chain, or the chain with one more record.\<close>

lemma request_chain:
  assumes "process_request fm md5 clk tp kvt q s = Some (out, calls, s')"
  shows "pipe_chain s' = pipe_chain s
    \<or> (\<exists>now e a wr. pipe_chain s' = chain_append md5 now e a wr (pipe_chain s))"
proof (cases rule: process_request_cases [where fm = fm and ?md5.0 = md5 and clk = clk and tp = tp and kvt = kvt and q = q and s = s])
  case (sent ac w passed rejections c kv out1 calls1 s1)
  from sent(7) show ?thesis
    by (cases rule: dispatch_cases) (use sent(8) assms feedback_simps(6) in \<open>fastforce+\<close>)
qed (use assms in auto)

lemma idle_request:
  "idle s \<Longrightarrow> process_request fm md5 clk tp kvt q s = Some (out, calls, s') \<Longrightarrow> pipe_admission s' = pipe_admission s"
  unfolding idle_def by (rule permit_returned)

lemma admission_new_counts: "admission_new p = Inr c \<Longrightarrow> counts (ac_state c) {#}"
  using admission_run_inv [OF run_new] by blast

lemma reachable_inv:
  "pipeline_reachable md5 s \<Longrightarrow>
     chain_log.log_ok (pipe_chain s) \<and> verify_integrity md5 (pipe_chain s) = Inr () \<and> idle s
     \<and> trackers (pipe_predictions s) = []"
proof (induction rule: pipeline_reachable.induct)
  case (pipeline_start w reg cap kv s)
  then show ?case
    by (auto simp: pipeline_new_def idle_def admission_new_counts chain_log.log_ok_def chain_new_def verify_integrity_def
        engine_new_def split: sum.splits)
next
  case (pipeline_request s fm clk tp kvt q out calls s')
  have "chain_log.log_ok (pipe_chain s') \<and> verify_integrity md5 (pipe_chain s') = Inr ()"
    using request_chain [OF pipeline_request.hyps(2)] pipeline_request.IH verify_append
      chain_log.log_ok_push by (auto simp: chain_append_def)
  moreover have "idle s'" using idle_request [OF _ pipeline_request.hyps(2)] pipeline_request.IH by (simp add: idle_def)
  ultimately show ?case using request_frame(1) [OF pipeline_request.hyps(2)] pipeline_request.IH by simp
qed

lemma in_flight_inv:
  "pipeline_in_flight s live \<Longrightarrow> counts (ac_state (pipe_admission s)) live
     \<and> ac_policy (pipe_admission s) = \<lparr>global_in_flight = 1000, per_tenant_in_flight = 100\<rparr>"
proof (induction rule: pipeline_in_flight.induct)
  case (flight_new w reg cap kv s)
  then show ?case
    by (auto simp: pipeline_new_def admission_new_def counts_def split: sum.splits)
next
  case (flight_enter s live t ac)
  then have live: "counts (ac_state (pipe_admission s)) live" by simp
  then show ?case using admit_Inr(5,6) [OF flight_enter.hyps(2) live] flight_enter.IH by simp
next
  case (flight_leave s live t)
  then show ?case using drop_counts [of "pipe_admission s" live t] by simp
qed simp

section \<open>Without predictions\<close>

text \<open>
  Nothing in the pipeline feeds the prediction engine, so from a new pipeline on every prediction
  is unavailable: latency limits never reject, and all candidates have the same score.
\<close>

lemma no_prediction: "trackers e = [] \<Longrightarrow> predicted_value now e key wr = Unavailable"
  by (simp add: predicted_value_def engine_predict_def)

lemma latency_limits_unused [simp]:
  fixes q :: pipeline_request
  shows "model_ref_of (q\<lparr>pq_max_ttft_ms := a, pq_max_e2e_ms := b\<rparr>) = model_ref_of q"
    "requirement_of (q\<lparr>pq_max_ttft_ms := a, pq_max_e2e_ms := b\<rparr>) = requirement_of q"
    "kv_stage (q\<lparr>pq_max_ttft_ms := a, pq_max_e2e_ms := b\<rparr>) = kv_stage q"
    "authenticated (q\<lparr>pq_max_ttft_ms := a, pq_max_e2e_ms := b\<rparr>) = authenticated q"
    "refused (q\<lparr>pq_max_ttft_ms := a, pq_max_e2e_ms := b\<rparr>) = refused q"
    "candidate_estimate now e wr (q\<lparr>pq_max_ttft_ms := a, pq_max_e2e_ms := b\<rparr>) = candidate_estimate now e wr q"
    "pipeline_plan (q\<lparr>pq_max_ttft_ms := a, pq_max_e2e_ms := b\<rparr>) = pipeline_plan q"
    "pipeline_compiled (q\<lparr>pq_max_ttft_ms := a, pq_max_e2e_ms := b\<rparr>) = pipeline_compiled q"
    "transport_request_of (q\<lparr>pq_max_ttft_ms := a, pq_max_e2e_ms := b\<rparr>) = transport_request_of q"
    "pipeline_transfer kvt (q\<lparr>pq_max_ttft_ms := a, pq_max_e2e_ms := b\<rparr>) = pipeline_transfer kvt q"
    "trace_finish (q\<lparr>pq_max_ttft_ms := a, pq_max_e2e_ms := b\<rparr>) = trace_finish q"
    "observation_of t (q\<lparr>pq_max_ttft_ms := a, pq_max_e2e_ms := b\<rparr>) = observation_of t q"
    "prediction_error_of (q\<lparr>pq_max_ttft_ms := a, pq_max_e2e_ms := b\<rparr>) = prediction_error_of q"
  by (simp_all add: model_ref_of_def requirement_of_def kv_stage_def authenticated_def fun_eq_iff refused_def
      decision_id_def trace_finish_def candidate_estimate_def pipeline_plan_def pipeline_compiled_def
      transport_request_of_def pipeline_transfer_def observation_of_def prediction_error_of_def
      split: option.split)

lemma feedback_latency_limits [simp]:
  "feedback md5 clk (q\<lparr>pq_max_ttft_ms := a, pq_max_e2e_ms := b\<rparr>) = feedback md5 clk q"
  "chosen_outcome (q\<lparr>pq_max_ttft_ms := a, pq_max_e2e_ms := b\<rparr>) = chosen_outcome q"
  unfolding fun_eq_iff feedback_def chosen_outcome_def latency_limits_unused by simp_all

lemma dispatch_latency_limits [simp]:
  "dispatch fm md5 clk tp kvt (q\<lparr>pq_max_ttft_ms := a, pq_max_e2e_ms := b\<rparr>) = dispatch fm md5 clk tp kvt q"
  unfolding fun_eq_iff dispatch_def latency_limits_unused feedback_latency_limits by simp

lemma candidates_latency_limits [simp]:
  "sorted_candidates now e wr (q\<lparr>pq_max_ttft_ms := a, pq_max_e2e_ms := b\<rparr>) = sorted_candidates now e wr q"
  by (simp add: sorted_candidates_def raw_candidates_def fun_eq_iff)

lemma screen_latency_limits:
  "\<forall>(c, kv) \<in> set cs. predicted_ttft c = Unavailable \<and> predicted_e2e c = Unavailable \<Longrightarrow>
   screen fm clk fw w (q\<lparr>pq_max_ttft_ms := a, pq_max_e2e_ms := b\<rparr>) i cs = screen fm clk fw w q i cs"
proof (induction cs arbitrary: i)
  case (Cons p cs)
  then show ?case by (cases p) (auto simp: constraint_rejection_def some_and_def split: option.split)
qed simp

lemma unpredicted_candidates:
  assumes "trackers (pipe_predictions s) = []"
  shows "\<forall>(c, kv) \<in> set (pipe_candidates clk w q s). predicted_ttft c = Unavailable \<and> predicted_e2e c = Unavailable"
  using assms
  by (auto simp: pipe_candidates_def set_sorted_candidates raw_candidates_iff candidate_estimate_def no_prediction)

lemma same_score:
  assumes "trackers e = []"
  shows "cf_score (candidate_estimate now e wr q b n st) = cf_score (candidate_estimate now e wr q b' n' st')"
  using assms by (simp add: cf_score_def candidate_estimate_def no_prediction)

text \<open>Every candidate is approved as long as the world state is fresh, and within all limits but the cost.\<close>

lemma unpredicted_approved:
  assumes "trackers e = []"
  shows "evaluate_candidate t pipeline_firewall (candidate_estimate now e wr q b n st) w High = Approved
    \<longleftrightarrow> \<not> is_stale t (secs 300) w"
proof -
  let ?c = "candidate_estimate now e wr q b n st"
  have l: "list_all (\<lambda>w. is_finite w \<and> \<not> f_lt w f_zero) [f64_lit (3/10), f64_lit (2/10), f64_lit (15/100), f64_lit (1/10), f64_lit (5/100)]"
    "valid_f64_unit (f64_lit (1/2))" "valid_f64_unit (f64_lit (2/10))" "is_finite f_one" "\<not> f_lt f_one f_zero" by code_simp+
  have u: "utility_validate (fw_config pipeline_firewall) = Inr ()"
    using l by (simp add: utility_validate_def pipeline_firewall_def)
  have f: "f_lt f_one (f64_lit (1/2)) = False" "f_lt f_one (f64_lit (5/1000)) = False"
    "f_lt (f64_lit (2/10)) (f64_lit (1/100)) = False" by code_simp+
  have g: "min_quality (fw_config pipeline_firewall) = f64_lit (1/2)" "max_cost (fw_config pipeline_firewall) = f_one"
    "max_failure_probability (fw_config pipeline_firewall) = f64_lit (2/10)" "max_world_state_age pipeline_firewall = secs 300"
    by (simp_all add: pipeline_firewall_def)
  have c: "ov_value (predicted_ttft ?c) = None" "ov_value (predicted_e2e ?c) = None"
    "ov_value (predicted_tpot ?c) = None" "ov_value (predicted_cost ?c) = Some (f64_lit (5/1000))"
    "ov_value (predicted_failure_probability ?c) = Some (f64_lit (1/100))"
    "ov_value (quality_risk ?c) = Some f_one" "feasible ?c"
    using assms by (simp_all add: candidate_estimate_def no_prediction)
  show ?thesis
    unfolding evaluate_candidate_def Let_def u g c
    by (cases "is_stale t (secs 300) w")
      (simp_all only: c some_and_def none_or_def option.case f is_safe_for_optimization_def sum.disc if_False if_True simp_thms
        firewall_decision.distinct)
qed

definition too_cheap :: "pipeline_request \<Rightarrow> bool" where
  "too_cheap q \<longleftrightarrow> (\<exists>limit. pq_max_cost q = Some limit \<and> f_gt (f64_lit (5/1000)) limit)"

lemma unpredicted_constraint:
  assumes "trackers e = []"
  shows "constraint_rejection fm q (candidate_estimate now e wr q b n st) = None \<longleftrightarrow> \<not> too_cheap q"
proof -
  let ?c = "candidate_estimate now e wr q b n st"
  have c: "ov_value (predicted_ttft ?c) = None" "ov_value (predicted_e2e ?c) = None"
    "ov_value (predicted_cost ?c) = Some (f64_lit (5/1000))"
    using assms by (simp_all add: candidate_estimate_def no_prediction)
  show ?thesis
    unfolding constraint_rejection_def too_cheap_def c by (auto simp: some_and_def split: option.split)
qed

lemma screen_uniform:
  assumes "\<And>c kv. (c, kv) \<in> set cs \<Longrightarrow> (constraint_rejection fm q c = None) = ok
      \<and> (\<forall>i. (evaluate_candidate (clk i) fw c w High = Approved) = fresh i)"
  shows "fst (screen fm clk fw w q i cs) = (if ok then map snd (filter (\<lambda>(j, _). fresh j) (enumerate i cs)) else [])"
  using assms
proof (induction cs arbitrary: i)
  case (Cons p cs)
  obtain c kv where p: "p = (c, kv)" by (metis surj_pair)
  obtain passed rs where r: "screen fm clk fw w q (Suc i) cs = (passed, rs)" by (metis surj_pair)
  have "passed = (if ok then map snd (filter (\<lambda>(j, _). fresh j) (enumerate (Suc i) cs)) else [])"
    using Cons.IH [of "Suc i"] Cons.prems r by (metis fst_conv list.set_intros(2))
  moreover have "(constraint_rejection fm q c = None) = ok" "(evaluate_candidate (clk i) fw c w High = Approved) = fresh i"
    using Cons.prems [of c kv] p by simp_all
  ultimately show ?case using p r by (auto split: option.split)
qed simp

section \<open>A concrete pipeline\<close>

definition roomy_node :: compute_node where
  "roomy_node = demo_node\<lparr>total_memory_mb := 4000, available_memory_mb := 2000\<rparr>"

definition plain_request :: pipeline_request where
  "plain_request = pipeline_request_new ''r'' ''t'' ''m''"

definition steady_clock :: request_clock where
  "steady_clock = \<lparr>t_snapshot = 0, t_predict = (\<lambda>_. 0), t_firewall = (\<lambda>_. 0), t_audit = 0, t_observed = 0, t_ingest = 0\<rparr>"

definition plain_formatting :: formatting where
  "plain_formatting = \<lparr>fmt_nat = (\<lambda>_. []), fmt_f64 = (\<lambda>_. []), fmt_f64_debug = (\<lambda>_. []), fmt_quote = id\<rparr>"

definition demo_pipeline :: pipeline where
  "demo_pipeline = the (pipeline_new (world_manager_new 0 1000) (Inr demo_backends) (Inr (capacity_of [roomy_node]))
     default_kv_intelligence)"

definition fast_transport :: deterministic_transport where
  "fast_transport = \<lparr>dt_healthy = True, dt_latency_ms = 5, dt_capabilities = []\<rparr>"

abbreviation demo_process :: "pipeline_request \<Rightarrow> (pipeline_outcome \<times> pipeline_call list \<times> pipeline) option" where
  "demo_process q \<equiv> process_request plain_formatting id steady_clock (deterministic_execute fast_transport) None q demo_pipeline"

lemma demo_pipeline_new:
  "pipeline_new (world_manager_new 0 1000) (Inr demo_backends) (Inr (capacity_of [roomy_node])) default_kv_intelligence
     = Some demo_pipeline"
  by (simp add: demo_pipeline_def pipeline_new_def admission_new_def admission_policy_validate_def)

lemma demo_reachable: "pipeline_reachable md5 demo_pipeline"
  by (rule pipeline_start [OF demo_pipeline_new])

lemma demo_fields:
  "pipe_backends demo_pipeline = demo_backends" "pipe_world demo_pipeline = world_manager_new 0 1000"
  "pipe_firewall demo_pipeline = pipeline_firewall" "pipe_predictions demo_pipeline = engine_new (f64_lit (3/10)) 5"
  "pipe_capacity demo_pipeline = Inr (capacity_of [roomy_node])"
  "pipe_admission demo_pipeline = \<lparr>ac_policy = \<lparr>global_in_flight = 1000, per_tenant_in_flight = 100\<rparr>,
     ac_state = \<lparr>total_in_flight = 0, tenant_in_flight = []\<rparr>\<rparr>"
  by (simp_all add: demo_pipeline_def pipeline_new_def admission_new_def admission_policy_validate_def pipe_backends_def)

lemma demo_eligible: "eligible_nodes demo_pipeline (plain_request\<lparr>pq_request_id := i\<rparr>) = [roomy_node]"
proof -
  have "evaluate (capacity_of [roomy_node]) (requirement_of plain_request) = ([roomy_node], [])" by code_simp
  moreover have "requirement_of (plain_request\<lparr>pq_request_id := i\<rparr>) = requirement_of plain_request"
    by (simp add: requirement_of_def model_ref_of_def)
  ultimately show ?thesis by (simp only: eligible_nodes_def demo_fields sum.case fst_conv)
qed

lemma demo_strategies: "supported_strategies demo_backends ''b'' (model_new ''m'' ''1'') = [NoKv]"
  by (simp add: supported_strategies_def registry_supports_def demo_lookup)
     (simp add: descriptor_supports_def demo_descriptor_def)

lemma demo_backend_ids: "backend_ids demo_backends = [''b'']"
proof -
  have "descriptor_validate demo_descriptor = Inr ()" by code_simp
  then show ?thesis
    by (simp add: backend_ids_def backends_of_def backend_register_def empty_backends_def)
       (simp add: demo_descriptor_def mock_as_backend_def demo_mock_def)
qed

definition demo_candidate :: counterfactual where
  "demo_candidate = candidate_estimate (\<lambda>_. 0) (engine_new (f64_lit (3/10)) 5) 0 plain_request ''b'' roomy_node NoKv"

lemma demo_candidates:
  "pipe_candidates steady_clock (wm_state (world_manager_new 0 1000)) (plain_request\<lparr>pq_request_id := i\<rparr>) demo_pipeline
     = [(demo_candidate, Recompute)]"
proof -
  have "candidate_estimate now e wr (plain_request\<lparr>pq_request_id := i\<rparr>) = candidate_estimate now e wr plain_request"
    "kv_stage (plain_request\<lparr>pq_request_id := i\<rparr>) = (Recompute, ''NO_PREFIX'')"
    "model_ref_of (plain_request\<lparr>pq_request_id := i\<rparr>) = model_new ''m'' ''1''" for now e wr
    by (simp_all add: fun_eq_iff candidate_estimate_def kv_stage_def plain_request_def pipeline_request_new_def
        model_ref_of_def unwrap_or_def)
  then show ?thesis
    by (simp add: pipe_candidates_def sorted_candidates_def raw_candidates_def demo_fields demo_backend_ids demo_eligible
        demo_strategies demo_candidate_def steady_clock_def world_manager_new_def)
qed

lemma demo_approved:
  "evaluate_candidate 0 pipeline_firewall demo_candidate (wm_state (world_manager_new 0 1000)) High = Approved"
proof -
  have "is_stale 0 (secs 300) (wm_state (world_manager_new 0 1000)) = False"
    by (simp add: is_stale_def older_than_def world_manager_new_def)
  moreover have "trackers (engine_new (f64_lit (3/10)) 5) = []" by (simp add: engine_new_def)
  ultimately show ?thesis unfolding demo_candidate_def by (simp add: unpredicted_approved)
qed

lemma demo_passes:
  "pipe_screen plain_formatting steady_clock (wm_state (world_manager_new 0 1000)) (plain_request\<lparr>pq_request_id := i\<rparr>) demo_pipeline
     = ([(demo_candidate, Recompute)], [])"
proof -
  have c: "predicted_ttft demo_candidate = Unavailable" "predicted_e2e demo_candidate = Unavailable"
    "predicted_cost demo_candidate = Derived (f64_lit (5/1000))"
    by (simp_all add: demo_candidate_def candidate_estimate_def predicted_value_def engine_predict_def engine_new_def)
  have "\<not> f_gt (f64_lit (5/1000)) (f64_lit (5/100))" by code_simp
  then have "constraint_rejection plain_formatting (plain_request\<lparr>pq_request_id := i\<rparr>) demo_candidate = None"
    by (simp add: constraint_rejection_def c some_and_def plain_request_def pipeline_request_new_def)
  moreover have "evaluate_candidate 0 pipeline_firewall demo_candidate (wm_state (world_manager_new 0 1000)) High = Approved"
    by (rule demo_approved)
  moreover have "t_firewall steady_clock = (\<lambda>_. 0)" by (simp add: steady_clock_def)
  ultimately show ?thesis
    by (simp add: pipe_screen_def demo_candidates demo_fields)
qed

lemma demo_select: "select_candidate [(demo_candidate, Recompute)] = Some (demo_candidate, Recompute)"
proof -
  have "counterfactual_evaluate [demo_candidate] = [demo_candidate]"
    by (simp add: counterfactual_evaluate_def demo_candidate_def candidate_estimate_def)
  then show ?thesis by (simp add: select_candidate_def)
qed

lemma run_admitted_sent:
  assumes "world_snapshot (t_snapshot clk) (pipe_world s) = Inr w" "\<not> force_stale_world_state q"
    "backend_ids (pipe_backends s) \<noteq> []" "pipe_screen fm clk w q s = (passed, rejections)" "select_candidate passed = Some (c, kv)"
  shows "run_admitted fm md5 clk tp kvt q (s\<lparr>pipe_admission := ac\<rparr>)
    = Some (dispatch fm md5 clk tp kvt q w rejections c kv (s\<lparr>pipe_admission := ac\<rparr>))"
proof -
  have "passed \<noteq> []" using assms(5) by (auto simp: select_candidate_def counterfactual_evaluate_def)
  then show ?thesis using assms by (simp add: run_admitted_eq)
qed

lemma demo_run:
  "\<exists>out calls s'. demo_process (plain_request\<lparr>pq_request_id := i\<rparr>) = Some (out, calls, s') \<and> po_success out
     \<and> ExecuteOn (transport_request_of (plain_request\<lparr>pq_request_id := i\<rparr>) demo_candidate
          (pipeline_compiled (plain_request\<lparr>pq_request_id := i\<rparr>) demo_candidate Recompute 0)) \<in> set calls"
proof -
  let ?q = "plain_request\<lparr>pq_request_id := i\<rparr>"
  let ?w = "wm_state (world_manager_new 0 1000)"
  have auth: "authenticated ?q" by (simp add: authenticated_def plain_request_def pipeline_request_new_def)
  have "valid_identifier ''t''" by code_simp
  then have adm: "\<exists>ac. admit (pq_tenant_id ?q) (pipe_admission demo_pipeline) = (Inr (pq_tenant_id ?q), ac)"
    by (simp add: admit_def demo_fields get_or_def plain_request_def pipeline_request_new_def)
  have snap: "world_snapshot (t_snapshot steady_clock) (pipe_world demo_pipeline) = Inr ?w"
    by (simp add: world_snapshot_def is_stale_def older_than_def demo_fields world_manager_new_def steady_clock_def)
  have run: "run_admitted plain_formatting id steady_clock (deterministic_execute fast_transport) None ?q
      (demo_pipeline\<lparr>pipe_admission := ac\<rparr>)
    = Some (dispatch plain_formatting id steady_clock (deterministic_execute fast_transport) None ?q ?w []
        demo_candidate Recompute (demo_pipeline\<lparr>pipe_admission := ac\<rparr>))" for ac
    by (rule run_admitted_sent [OF _ _ _ demo_passes demo_select])
      (simp_all add: snap [unfolded demo_fields] demo_fields demo_backend_ids plain_request_def pipeline_request_new_def)
  obtain ac where ac: "admit (pq_tenant_id ?q) (pipe_admission demo_pipeline) = (Inr (pq_tenant_id ?q), ac)" using adm by blast
  obtain out calls s1 where d: "dispatch plain_formatting id steady_clock (deterministic_execute fast_transport) None ?q ?w []
        demo_candidate Recompute (demo_pipeline\<lparr>pipe_admission := ac\<rparr>) = (out, calls, s1)" by (metis prod_cases3)
  have "demo_process ?q = Some (out, calls, s1\<lparr>pipe_admission := permit_drop (pq_tenant_id ?q) (pipe_admission s1)\<rparr>)"
    using auth ac run [of ac] d by (simp add: process_request_def)
  moreover have "po_success out \<and> ExecuteOn (transport_request_of ?q demo_candidate
      (pipeline_compiled ?q demo_candidate Recompute 0)) \<in> set calls"
    using d by (auto simp: dispatch_def Let_def pipeline_transfer_def deterministic_execute_def fast_transport_def
        world_manager_new_def split: prod.splits)
  ultimately show ?thesis by blast
qed

section \<open>Properties\<close>

text \<open>
  A request always returns an outcome: the ranking of the candidates that passed is not empty,
  so taking its first element does not panic.
\<close>
theorem pipeline_never_panics:
  "\<exists>out calls s'. process_request fm md5 clk tp kvt q s = Some (out, calls, s')"
  by (cases rule: process_request_cases [where fm = fm and ?md5.0 = md5 and clk = clk and tp = tp and kvt = kvt and q = q and s = s])
    auto

text \<open>
  C6: Nothing is executed that did not pass every gate: an execution means that the request's key was
  not rejected (the pipeline rejects only an empty key and the key \<open>invalid\<close>, and accepts a request
  without one), that its tenant has a valid name and was below the limit of its own requests in flight
  as was the pipeline below the limit of all, that the world state was fresh, and that there is a
  backend that declares the model with the strategy, an eligible node, and a candidate within the
  request's limits that the firewall approved; and the transport is asked for exactly that candidate.
\<close>
theorem executions_passed_every_gate:
  assumes "process_request fm md5 clk tp kvt q s = Some (out, calls, s')" "ExecuteOn t \<in> set calls"
  shows "pq_api_key q \<notin> {Some ''invalid'', Some []} \<and> valid_identifier (pq_tenant_id q) \<and> \<not> force_stale_world_state q
    \<and> total_in_flight (ac_state (pipe_admission s)) < global_in_flight (ac_policy (pipe_admission s))
    \<and> get_or 0 (tenant_in_flight (ac_state (pipe_admission s))) (pq_tenant_id q)
        < per_tenant_in_flight (ac_policy (pipe_admission s))
    \<and> (\<exists>w n st kv. world_snapshot (t_snapshot clk) (pipe_world s) = Inr w
        \<and> registry_supports (pipe_backends s) (tq_backend_id t) (model_ref_of q) st = Inr True
        \<and> n \<in> set (eligible_nodes s q)
        \<and> (let c = candidate_estimate (t_predict clk) (pipe_predictions s) (ws_revision w) q (tq_backend_id t) n st
           in constraint_rejection fm q c = None
              \<and> (\<exists>i. evaluate_candidate (t_firewall clk i) (pipe_firewall s) c w High = Approved)
              \<and> t = transport_request_of q c (pipeline_compiled q c kv (ws_revision w))))"
proof (cases rule: process_request_cases [where fm = fm and ?md5.0 = md5 and clk = clk and tp = tp and kvt = kvt and q = q and s = s])
  case (sent ac w passed rejections c kv out1 calls1 s1)
  have "calls = calls1" using sent(8) assms(1) by simp
  with sent(7) assms(2) have t: "t = transport_request_of q c (pipeline_compiled q c kv (ws_revision w))"
    by (cases rule: dispatch_cases) auto
  have "pq_api_key q \<notin> {Some ''invalid'', Some []}" using sent(1) by (auto simp: authenticated_def)
  moreover have "valid_identifier (pq_tenant_id q)"
    "total_in_flight (ac_state (pipe_admission s)) < global_in_flight (ac_policy (pipe_admission s))"
    "get_or 0 (tenant_in_flight (ac_state (pipe_admission s))) (pq_tenant_id q) < per_tenant_in_flight (ac_policy (pipe_admission s))"
    using sent(2) by (auto simp: admit_def Let_def split: if_splits)
  moreover obtain kv' where "(c, kv') \<in> set (fst (pipe_screen fm clk w q s))"
    using select_candidate_spec(1) [OF sent(6)] sent(5) by auto
  ultimately show ?thesis using sent(3,4) t
    by (elim passed_candidate) (auto simp: Let_def transport_request_of_def candidate_estimate_def)
qed (use assms in auto)

theorem executions_passed_every_gate_witness:
  "\<exists>st. registry_supports demo_backends ''b'' (model_new ''m'' ''1'') st = Inr True"
proof -
  obtain out calls s' where r: "demo_process (plain_request\<lparr>pq_request_id := ''r''\<rparr>) = Some (out, calls, s')"
    "ExecuteOn (transport_request_of (plain_request\<lparr>pq_request_id := ''r''\<rparr>) demo_candidate
          (pipeline_compiled (plain_request\<lparr>pq_request_id := ''r''\<rparr>) demo_candidate Recompute 0)) \<in> set calls"
    using demo_run by blast
  from executions_passed_every_gate [OF r]
  show ?thesis by (auto simp: demo_fields transport_request_of_def demo_candidate_def candidate_estimate_def
        model_ref_of_def plain_request_def pipeline_request_new_def unwrap_or_def)
qed

text \<open>
  C24: A request that does not succeed changes nothing, also while others are in flight: in every state
  a pipeline can be in with any permits held by others, a request returns its own permit, and unless it
  succeeds the world state, the audit chain, the prediction errors and all else are as they were; and
  when all 1000 permits, or 100 of the request's tenant, are held, it is refused without any call.
\<close>
theorem failed_requests_change_nothing:
  assumes "pipeline_in_flight s live" "process_request fm md5 clk tp kvt q s = Some (out, calls, s')"
  shows "pipe_admission s' = pipe_admission s \<and> (\<not> po_success out \<longrightarrow> s' = s)
    \<and> (size live = 1000 \<or> count live (pq_tenant_id q) = 100 \<longrightarrow> \<not> po_success out \<and> calls = [])"
proof -
  note inv = in_flight_inv [OF assms(1)]
  have returned: "pipe_admission s' = pipe_admission s" using permit_returned [OF _ assms(2)] inv by blast
  have full: "admit (pq_tenant_id q) (pipe_admission s) \<noteq> (Inr (pq_tenant_id q), ac)"
    if "size live = 1000 \<or> count live (pq_tenant_id q) = 100" for ac
    using that inv admit_Inr(3,4) [of "pq_tenant_id q" "pipe_admission s" "pq_tenant_id q" ac live] by auto
  have "(\<not> po_success out \<longrightarrow> s' = s\<lparr>pipe_admission := pipe_admission s'\<rparr>)
    \<and> (size live = 1000 \<or> count live (pq_tenant_id q) = 100 \<longrightarrow> \<not> po_success out \<and> calls = [])"
  proof (cases rule: process_request_cases [where fm = fm and ?md5.0 = md5 and clk = clk and tp = tp and kvt = kvt and q = q and s = s])
    case (sent ac w passed rejections c kv out1 calls1 s1)
    from sent(7) show ?thesis by (cases rule: dispatch_cases) (use sent(2,8) assms(2) full [of ac] in auto)
  qed (use assms(2) in auto)
  then show ?thesis using returned by auto
qed

lemma failed_requests_change_nothing_witness:
  "\<exists>ac. admit ''t'' (pipe_admission demo_pipeline) = (Inr ''t'', ac)
     \<and> (\<exists>out. process_request plain_formatting id steady_clock (deterministic_execute fast_transport) None
          (plain_request\<lparr>pq_api_key := Some ''invalid''\<rparr>) (demo_pipeline\<lparr>pipe_admission := ac\<rparr>)
        = Some (out, [], demo_pipeline\<lparr>pipe_admission := ac\<rparr>))"
proof -
  let ?q = "plain_request\<lparr>pq_api_key := Some ''invalid''\<rparr>"
  have "valid_identifier ''t''" by code_simp
  then obtain ac where ac: "admit ''t'' (pipe_admission demo_pipeline) = (Inr ''t'', ac)"
    by (auto simp: admit_def demo_fields get_or_def)
  let ?s = "demo_pipeline\<lparr>pipe_admission := ac\<rparr>"
  have "pipeline_in_flight ?s {#''t''#}" by (rule flight_enter [OF flight_new [OF demo_pipeline_new] ac])
  moreover have p: "process_request plain_formatting id steady_clock (deterministic_execute fast_transport) None ?q ?s
      = Some (refused ?q ''Authentication failed'' ''Authentication failed'' [] 0, [], ?s)"
    by (simp add: process_request_def authenticated_def)
  ultimately have "?s = ?s" using failed_requests_change_nothing [OF _ p] by blast
  then show ?thesis using ac p by blast
qed

text \<open>
  C22: The limits and the firewall do not tell candidates apart: in any pipeline that requests can
  reach, a request whose cost limit is below the fixed estimate of 0.005 is left without candidates,
  and otherwise every candidate passes for which the world state is at most five minutes old when the
  firewall looks, whatever the request's limits on quality and latency and whatever was observed
  before.
\<close>
theorem screening_is_uniform:
  assumes "pipeline_reachable md5 s"
  shows "fst (pipe_screen fm clk w q s) =
    (if \<exists>limit. pq_max_cost q = Some limit \<and> f_gt (f64_lit (5/1000)) limit then []
     else map snd (filter (\<lambda>(i, _). \<not> is_stale (t_firewall clk i) (secs 300) w) (enumerate 0 (pipe_candidates clk w q s))))"
proof -
  have t: "trackers (pipe_predictions s) = []" using reachable_inv [OF assms] by blast
  have uniform: "(constraint_rejection fm q c = None) = (\<not> too_cheap q)
      \<and> (\<forall>i. (evaluate_candidate (t_firewall clk i) (pipe_firewall s) c w High = Approved)
               = (\<not> is_stale (t_firewall clk i) (secs 300) w))" if "(c, kv) \<in> set (pipe_candidates clk w q s)" for c kv
    using that unpredicted_approved [OF t] unpredicted_constraint [OF t] reachable_firewall [OF assms]
    by (auto simp: pipe_candidates_def set_sorted_candidates raw_candidates_iff)
  have "fst (pipe_screen fm clk w q s) = (if \<not> too_cheap q
      then map snd (filter (\<lambda>(i, _). \<not> is_stale (t_firewall clk i) (secs 300) w) (enumerate 0 (pipe_candidates clk w q s)))
      else [])"
    unfolding pipe_screen_def by (rule screen_uniform) (rule uniform)
  then show ?thesis unfolding too_cheap_def [symmetric] by (cases "too_cheap q") (simp_all only: if_True if_False simp_thms)
qed

lemma screening_is_uniform_witness:
  "fst (pipe_screen plain_formatting steady_clock (wm_state (world_manager_new 0 1000)) plain_request demo_pipeline)
     = [(demo_candidate, Recompute)]"
proof -
  have q: "plain_request\<lparr>pq_request_id := ''r''\<rparr> = plain_request" by (simp add: plain_request_def pipeline_request_new_def)
  have "\<not> f_gt (f64_lit (5/1000)) (f64_lit (5/100))" by code_simp
  then have "\<not> (\<exists>limit. pq_max_cost plain_request = Some limit \<and> f_gt (f64_lit (5/1000)) limit)"
    by (simp add: plain_request_def pipeline_request_new_def)
  moreover have "\<not> is_stale (t_firewall steady_clock 0) (secs 300) (wm_state (world_manager_new 0 1000))"
    by (simp add: steady_clock_def is_stale_def older_than_def world_manager_new_def)
  ultimately show ?thesis
    using screening_is_uniform [OF demo_reachable, of plain_formatting steady_clock _ plain_request] demo_candidates [of "''r''"]
    by (simp add: q)
qed

text \<open>
  Between requests of a pipeline no permit is held, the audit chain verifies, and the
  prediction engine has learned nothing: whatever is requested, and whatever the transports answer.
\<close>
theorem pipeline_invariant:
  assumes "pipeline_reachable md5 s"
  shows "total_in_flight (ac_state (pipe_admission s)) = 0 \<and> verify_integrity md5 (pipe_chain s) = Inr ()
    \<and> tracker_count (pipe_predictions s) = 0"
  using reachable_inv [OF assms] by (simp add: idle_def counts_def tracker_count_def)

theorem pipeline_invariant_witness: "verify_integrity id (pipe_chain demo_pipeline) = Inr ()"
  using pipeline_invariant [OF demo_reachable] by blast

text \<open>
  The latency limits of a request have no effect: as no prediction is ever available, any
  other limits on time to first token and on end-to-end latency give the same outcome.
\<close>
theorem latency_limits_have_no_effect:
  assumes "pipeline_reachable md5 s"
  shows "process_request fm md5 clk tp kvt (q\<lparr>pq_max_ttft_ms := a, pq_max_e2e_ms := b\<rparr>) s
    = process_request fm md5 clk tp kvt q s"
proof -
  have e: "eligible_nodes s (q\<lparr>pq_max_ttft_ms := a, pq_max_e2e_ms := b\<rparr>) = eligible_nodes s q" for s
    by (simp add: eligible_nodes_def)
  have "trackers (pipe_predictions s) = []" using reachable_inv [OF assms] by blast
  from unpredicted_candidates [OF this]
  have p: "pipe_screen fm clk w (q\<lparr>pq_max_ttft_ms := a, pq_max_e2e_ms := b\<rparr>) s = pipe_screen fm clk w q s" for w
    by (simp add: pipe_screen_def pipe_candidates_def e screen_latency_limits)
  have r: "run_admitted fm md5 clk tp kvt (q\<lparr>pq_max_ttft_ms := a, pq_max_e2e_ms := b\<rparr>) (s\<lparr>pipe_admission := ac\<rparr>)
      = run_admitted fm md5 clk tp kvt q (s\<lparr>pipe_admission := ac\<rparr>)" for ac
    unfolding run_admitted_eq admission_unused p dispatch_latency_limits latency_limits_unused by (simp split: sum.split)
  show ?thesis unfolding process_request_def latency_limits_unused r by simp
qed

theorem latency_limits_have_no_effect_witness:
  "demo_process (plain_request\<lparr>pq_max_ttft_ms := Some 0, pq_max_e2e_ms := Some 0\<rparr>) = demo_process plain_request"
  by (rule latency_limits_have_no_effect [OF demo_reachable])

text \<open>
  The choice among the candidates is alphabetical: without predictions all scores are equal,
  so every execution goes to the candidate with the least identifier of those that passed.
\<close>
theorem selection_is_alphabetical:
  assumes "pipeline_reachable md5 s" "process_request fm md5 clk tp kvt q s = Some (out, calls, s')"
    and "po_success out" "world_snapshot (t_snapshot clk) (pipe_world s) = Inr w"
    and "d \<in> fst ` set (fst (pipe_screen fm clk w q s))"
  shows "\<exists>c \<in> fst ` set (fst (pipe_screen fm clk w q s)).
    po_backend out = Some (cf_backend_id c) \<and> po_node out = Some (cf_compute_node_id c) \<and> candidate_id c \<le> candidate_id d"
proof (cases rule: process_request_cases [where fm = fm and ?md5.0 = md5 and clk = clk and tp = tp and kvt = kvt and q = q and s = s])
  case (sent ac w1 passed rejections c kv out1 calls1 s1)
  have w: "w1 = w" and out: "out1 = out" using sent(3,8) assms(2,4) by auto
  have c: "c \<in> fst ` set (fst (pipe_screen fm clk w q s))" using select_candidate_spec(1) [OF sent(6)] sent(5) w by simp
  have "trackers (pipe_predictions s) = []" using reachable_inv [OF assms(1)] by blast
  then have "cf_score c = cf_score d"
    using c assms(5) by (auto elim!: passed_candidate intro: same_score)
  moreover have "(cf_score c, candidate_id c) \<le> (cf_score d, candidate_id d)"
    using select_candidate_spec(3) [OF sent(6), of d] sent(5) w assms(5) pipe_passed_feasible by simp
  ultimately have "candidate_id c \<le> candidate_id d" by (simp add: less_eq_prod_def)
  moreover have "po_backend out = Some (cf_backend_id c) \<and> po_node out = Some (cf_compute_node_id c)"
    using sent(7) by (cases rule: dispatch_cases) (use assms(3) out in auto)
  ultimately show ?thesis using c by blast
qed (use assms in auto)

theorem selection_is_alphabetical_witness:
  "\<exists>out calls s'. demo_process plain_request = Some (out, calls, s') \<and> po_backend out = Some ''b''"
proof -
  obtain out calls s' where r: "demo_process (plain_request\<lparr>pq_request_id := ''r''\<rparr>) = Some (out, calls, s')" "po_success out"
    using demo_run by blast
  have q: "plain_request\<lparr>pq_request_id := ''r''\<rparr> = plain_request" by (simp add: plain_request_def pipeline_request_new_def)
  have w: "world_snapshot (t_snapshot steady_clock) (pipe_world demo_pipeline) = Inr (wm_state (world_manager_new 0 1000))"
    by (simp add: world_snapshot_def is_stale_def older_than_def demo_fields world_manager_new_def steady_clock_def)
  have "po_backend out = Some ''b''"
    using selection_is_alphabetical [OF demo_reachable r w, of demo_candidate] demo_passes [of "''r''"]
    by (simp add: demo_candidate_def candidate_estimate_def)
  then show ?thesis using r q by auto
qed

text \<open>
  A request whose identifier is not valid is executed, but its observation is refused; the
  outcome then reports a world revision that the world state does not have.
\<close>
theorem unobserved_execution_misreported:
  assumes "process_request fm md5 clk tp kvt q s = Some (out, calls, s')" "po_success out"
    and "\<not> valid_identifier (pq_request_id q)"
  shows "po_world_revision out = ws_revision (wm_state (pipe_world s)) + 1 \<and> pipe_world s' = pipe_world s"
proof (cases rule: process_request_cases [where fm = fm and ?md5.0 = md5 and clk = clk and tp = tp and kvt = kvt and q = q and s = s])
  case (sent ac w passed rejections c kv out1 calls1 s1)
  have w: "w = wm_state (pipe_world s)" using sent(3) by (auto simp: world_snapshot_def split: if_splits)
  have "fst (ingest now (observation_of now' q c kv resp wr) m) = Inl (InvalidObservation ''invalid request_id'')
      \<and> snd (ingest now (observation_of now' q c kv resp wr) m) = m" for now now' resp wr m
    using assms(3) by (simp add: ingest_def observation_validate_def observation_of_def)
  then have f: "feedback md5 clk q w c kv resp p = (r, p1) \<Longrightarrow> r = ws_revision w + 1 \<and> pipe_world p1 = pipe_world p" for resp p r p1
    by (auto simp: feedback_def Let_def split: prod.splits) (metis fst_conv snd_conv sum.case(1))+
  from sent(7) show ?thesis
    by (cases rule: dispatch_cases) (use sent(8) assms(1,2) f w in auto)
qed (use assms in auto)

theorem unobserved_execution_misreported_witness:
  "\<exists>out calls s'. demo_process (plain_request\<lparr>pq_request_id := []\<rparr>) = Some (out, calls, s') \<and> po_world_revision out = 1
     \<and> ws_revision (wm_state (pipe_world s')) = 0"
proof -
  obtain out calls s' where r: "demo_process (plain_request\<lparr>pq_request_id := []\<rparr>) = Some (out, calls, s')" "po_success out"
    using demo_run by blast
  have "\<not> valid_identifier []" by code_simp
  then show ?thesis using unobserved_execution_misreported [OF r] r(1)
    by (auto simp: demo_fields world_manager_new_def plain_request_def pipeline_request_new_def)
qed

text \<open>
  Success means that the transport answered: an outcome is successful exactly when an
  execution returned a response, whatever that response says of its own success.
\<close>
theorem success_means_answered:
  assumes "process_request fm md5 clk tp kvt q s = Some (out, calls, s')"
  shows "po_success out \<longleftrightarrow> (\<exists>t resp. ExecuteOn t \<in> set calls \<and> tp t = Inr resp)"
proof (cases rule: process_request_cases [where fm = fm and ?md5.0 = md5 and clk = clk and tp = tp and kvt = kvt and q = q and s = s])
  case (sent ac w passed rejections c kv out1 calls1 s1)
  from sent(7) show ?thesis by (cases rule: dispatch_cases) (use sent(8) assms in \<open>auto simp: isl_def\<close>)
qed (use assms in auto)

theorem success_means_answered_witness:
  "\<exists>out calls s'. demo_process plain_request = Some (out, calls, s') \<and> po_success out"
proof -
  have q: "plain_request\<lparr>pq_request_id := ''r''\<rparr> = plain_request" by (simp add: plain_request_def pipeline_request_new_def)
  obtain out calls s' where r: "demo_process plain_request = Some (out, calls, s')"
    "ExecuteOn (transport_request_of plain_request demo_candidate (pipeline_compiled plain_request demo_candidate Recompute 0)) \<in> set calls"
    using demo_run [of "''r''"] unfolding q by blast
  have "\<exists>resp. deterministic_execute fast_transport t = Inr resp" for t
    by (simp add: deterministic_execute_def fast_transport_def)
  then show ?thesis using success_means_answered [OF r(1)] r by blast
qed

end
