(* ===== verification/TokenBucket.thy ===== *)
theory TokenBucket
  imports F64
begin

text \<open>
  \<open>src/src/sidecar_security.rs\<close>: the token bucket, on the binary64 arithmetic of the code, with the
  limits it is configured with (\<open>RateLimitConfig\<close> of \<open>src/src/sidecar_config.rs\<close>).  The instant at
  which a method reads the clock is its argument.
\<close>

section \<open>Configuration\<close>

record rate_limit_config =
  rl_capacity :: u32
  refill_per_second :: u32

definition default_rate_limit :: rate_limit_config where
  "default_rate_limit = \<lparr>rl_capacity = 120, refill_per_second = 60\<rparr>"

definition rate_limit_ok :: "rate_limit_config \<Rightarrow> bool" where
  "rate_limit_ok c \<longleftrightarrow> \<not> (rl_capacity c = 0 \<or> refill_per_second c = 0)"

section \<open>Durations and seconds\<close>

definition as_secs_f64 :: "duration \<Rightarrow> f64" where
  "as_secs_f64 d = fadd (f64_of_nat (d div 1000000000)) (fdiv (f64_of_nat (d mod 1000000000)) (f64_of_nat 1000000000))"

text \<open>\<open>from_secs_f64\<close> rounds to the nearest nanosecond and panics outside its range: \<open>None\<close>.\<close>

fun duration_from_f64 :: "f64 \<Rightarrow> duration option" where
  "duration_from_f64 (Fin s m) =
     (if s \<and> m \<noteq> 0 then None
      else let n = round_half_even (m * 1000000000)
           in if n < 2 ^ 64 * 1000000000 then Some (nat n) else None)"
| "duration_from_f64 _ = None"

section \<open>The bucket\<close>

record token_bucket =
  tb_capacity :: f64
  tb_refill_per_second :: f64
  tokens :: f64
  last_refill :: instant

definition bucket_new :: "instant \<Rightarrow> rate_limit_config \<Rightarrow> token_bucket" where
  "bucket_new now c =
     \<lparr>tb_capacity = f64_of_nat (unat (rl_capacity c)), tb_refill_per_second = f64_of_nat (unat (refill_per_second c)),
      tokens = f64_of_nat (unat (rl_capacity c)), last_refill = now\<rparr>"

definition refill :: "instant \<Rightarrow> token_bucket \<Rightarrow> token_bucket" where
  "refill now b =
     (let elapsed = as_secs_f64 (now - last_refill b)
      in b\<lparr>tokens := fmin (fadd (tokens b) (fmul elapsed (tb_refill_per_second b))) (tb_capacity b),
           last_refill := now\<rparr>)"

text \<open>An error carries \<open>retry_after\<close>; \<open>None\<close> is the panic of the conversion.\<close>

definition try_acquire_at :: "instant \<Rightarrow> token_bucket \<Rightarrow> (duration + unit) option \<times> token_bucket" where
  "try_acquire_at now b0 =
     (let b = refill now b0
      in if f_ge (tokens b) f_one then (Some (Inr ()), b\<lparr>tokens := fsub (tokens b) f_one\<rparr>)
         else let missing = fsub f_one (tokens b);
                  wait_seconds = fdiv missing (tb_refill_per_second b)
              in (map_option Inl (duration_from_f64 (fmax wait_seconds (f64_lit (1/1000)))), b))"

text \<open>One attempt after the other, at the given instants, until one fails (the loop of a batch).\<close>

fun acquire_all :: "instant list \<Rightarrow> token_bucket \<Rightarrow> (duration + unit) option \<times> token_bucket" where
  "acquire_all [] b = (Some (Inr ()), b)"
| "acquire_all (now # ts) b =
     (case try_acquire_at now b of
        (Some (Inr _), b') \<Rightarrow> acquire_all ts b'
      | r \<Rightarrow> r)"

section \<open>The tokens stay within the capacity\<close>

definition bucket_ok :: "nat \<Rightarrow> nat \<Rightarrow> token_bucket \<Rightarrow> bool" where
  "bucket_ok c r b \<longleftrightarrow> 0 < r \<and> c < 2 ^ 32 \<and> r < 2 ^ 32 \<and> tb_capacity b = Fin False (of_nat c)
     \<and> tb_refill_per_second b = Fin False (of_nat r) \<and> fbounded (of_nat c) (tokens b)"

lemma small_nat_f64: "n < 2 ^ 32 \<Longrightarrow> f64_of_nat n = Fin False (of_nat n)"
  by (rule f64_of_nat_small) simp

lemma bucket_ok_new:
  assumes "rate_limit_ok c"
  shows "bucket_ok (unat (rl_capacity c)) (unat (refill_per_second c)) (bucket_new now c)"
proof -
  have "unat (rl_capacity c) < 2 ^ 32" "unat (refill_per_second c) < 2 ^ 32"
    using unsigned_less [of "rl_capacity c", where ?'a = nat] unsigned_less [of "refill_per_second c", where ?'a = nat]
    by simp_all
  then show ?thesis using assms
    by (simp add: bucket_ok_def bucket_new_def small_nat_f64 rate_limit_ok_def unat_gt_0 del: of_nat_unat)
qed

lemma fmin_capacity:
  assumes "is_nan x \<or> fnonneg x" "0 \<le> c"
  shows "fbounded c (fmin x (Fin False c))"
proof (cases x)
  case (Fin s m)
  then show ?thesis using assms by (auto simp: fmin_def f_lt_def signed_def)
next
  case (Inf s)
  then show ?thesis using assms by (auto simp: fmin_def f_lt_def)
qed (use assms in \<open>simp add: fmin_def\<close>)

lemma fnonneg_fdiv_lit: "fnonneg a \<Longrightarrow> 0 < c \<Longrightarrow> fnonneg (fdiv a (Fin False c))"
  by (cases a) auto

lemma fnonneg_as_secs: "fnonneg (as_secs_f64 d)"
  by (simp add: as_secs_f64_def f64_of_nat_small fnonneg_fdiv_lit)

lemma fmul_nonneg: "fnonneg a \<Longrightarrow> fnonneg b \<Longrightarrow> is_nan (fmul a b) \<or> fnonneg (fmul a b)"
  by (cases a; cases b) (auto simp: f_nan_def)

lemma fadd_nan: "is_nan b \<Longrightarrow> is_nan (fadd a b)"
  by (cases a; cases b) (auto simp: f_nan_def)

lemma refill_ok:
  assumes "bucket_ok c r b"
  shows "bucket_ok c r (refill now b)"
proof -
  have t: "fnonneg (tokens b)" using assms by (auto simp: bucket_ok_def intro: fbounded_fnonneg)
  let ?g = "fmul (as_secs_f64 (now - last_refill b)) (tb_refill_per_second b)"
  have "fnonneg (tb_refill_per_second b)" using assms by (simp add: bucket_ok_def)
  from fmul_nonneg [OF fnonneg_as_secs this] have "is_nan ?g \<or> fnonneg ?g" .
  then have "is_nan (fadd (tokens b) ?g) \<or> fnonneg (fadd (tokens b) ?g)"
    using t fadd_nan fadd_nonneg by blast
  then show ?thesis using assms fmin_capacity by (simp add: bucket_ok_def refill_def Let_def)
qed

lemma fsub_one:
  assumes "fbounded (of_nat c) t" "f_ge t f_one" "c < 2 ^ 32"
  shows "fbounded (of_nat c) (fsub t f_one)"
proof -
  obtain m where m: "t = Fin False m" "m \<le> of_nat c" using assms(1) by (rule fboundedE)
  then have "1 \<le> m" using assms(2) by (simp add: f_le_def signed_def)
  then have "fsub t f_one = (if m = 1 then Fin False 0 else mk_f64 False (m - 1))"
    using m by (auto simp: fsub_def signed_def Let_def)
  moreover have "fbounded (of_int (int c)) (mk_f64 False (m - 1))"
    using m assms(3) by (intro fbounded_mk) auto
  ultimately show ?thesis by simp
qed

text \<open>A refused attempt waits at least a millisecond and at most a second.\<close>

lemma wait_bounds:
  assumes "fbounded (of_nat c) t" "\<not> f_ge t f_one" "0 < r" "r < 2 ^ 32"
  obtains d where "duration_from_f64 (fmax (fdiv (fsub f_one t) (Fin False (of_nat r))) (f64_lit (1/1000))) = Some d"
    "1000000 \<le> d" "d \<le> 1000000000"
proof -
  obtain m where m: "t = Fin False m" "0 \<le> m" using assms(1) by (rule fboundedE)
  then have "m < 1" using assms(2) by (simp add: f_le_def signed_def)
  then have "fbounded 1 t" using m by simp
  then obtain w where w: "fsub f_one t = Fin False w" "0 \<le> w" "w \<le> 1"
    using fbounded_one_minus by (blast elim: fboundedE)
  have "w / of_nat r \<le> w / 1" using assms(3) w by (intro divide_left_mono) auto
  then have "fbounded (of_int 1) (mk_f64 False (w / of_nat r))" using w by (intro fbounded_mk) auto
  then obtain x where x: "fdiv (fsub f_one t) (Fin False (of_nat r)) = Fin False x" "0 \<le> x" "x \<le> 1"
    using w assms(3) by (auto elim!: fboundedE)
  define ms where "ms = rnd (1 / 1000)"
  have ms: "f64_lit (1/1000) = Fin False ms" "0 \<le> ms" "ms \<le> 1"
  proof -
    show "0 \<le> ms" "ms \<le> 1" by (simp_all add: ms_def rnd_unit)
    moreover have "(1 :: rat) \<le> max_mag" by (simp add: max_mag_def)
    ultimately have "ms \<le> max_mag" by linarith
    then show "f64_lit (1/1000) = Fin False ms" by (simp add: f64_lit_def mk_f64_def ms_def)
  qed
  have r0: "round_half_even (ms * 1000000000) = 1000000" unfolding ms_def by code_simp
  define y where "y = max x ms"
  have y: "fmax (Fin False x) (Fin False ms) = Fin False y"
    by (auto simp: fmax_def f_lt_def signed_def y_def max_def)
  have "ms * 1000000000 \<le> y * 1000000000" "y * 1000000000 \<le> of_int 1000000000"
    using x ms by (auto simp: y_def)
  from round_half_even_mono [OF this(1)] round_half_even_mono [OF this(2)]
  have "1000000 \<le> round_half_even (y * 1000000000)" "round_half_even (y * 1000000000) \<le> 1000000000"
    by (simp_all only: r0 round_half_even_of_int)
  then show thesis using that [of "nat (round_half_even (y * 1000000000))"] by (simp add: x(1) ms(1) y Let_def)
qed

lemma try_acquire_ok:
  assumes "bucket_ok c r b"
  shows "bucket_ok c r (snd (try_acquire_at now b))"
    and "case fst (try_acquire_at now b) of None \<Rightarrow> False | Some (Inl d) \<Rightarrow> 1000000 \<le> d \<and> d \<le> 1000000000 | Some (Inr _) \<Rightarrow> True"
proof -
  note ok = refill_ok [OF assms, of now]
  show "bucket_ok c r (snd (try_acquire_at now b))"
    using ok fsub_one by (auto simp: try_acquire_at_def Let_def bucket_ok_def)
  show "case fst (try_acquire_at now b) of None \<Rightarrow> False | Some (Inl d) \<Rightarrow> 1000000 \<le> d \<and> d \<le> 1000000000 | Some (Inr _) \<Rightarrow> True"
  proof (cases "f_ge (tokens (refill now b)) f_one")
    case False
    obtain d where "duration_from_f64 (fmax (fdiv (fsub f_one (tokens (refill now b))) (Fin False (of_nat r))) (f64_lit (1/1000))) = Some d"
      "1000000 \<le> d" "d \<le> 1000000000"
      using ok False by (auto simp: bucket_ok_def elim: wait_bounds)
    then show ?thesis using ok False by (simp add: try_acquire_at_def Let_def bucket_ok_def)
  qed (simp add: try_acquire_at_def Let_def)
qed

lemma acquire_all_ok:
  assumes "bucket_ok c r b"
  shows "bucket_ok c r (snd (acquire_all ts b))
    \<and> (case fst (acquire_all ts b) of None \<Rightarrow> False | Some (Inl d) \<Rightarrow> 1000000 \<le> d \<and> d \<le> 1000000000 | Some (Inr _) \<Rightarrow> True)"
  using assms
proof (induction ts arbitrary: b)
  case (Cons t ts)
  obtain res b' where step: "try_acquire_at t b = (res, b')" by fastforce
  note * = Cons.IH [of b'] try_acquire_ok [OF Cons.prems, of t, unfolded step]
  show ?case
  proof (cases res)
    case None
    then show ?thesis using * by simp
  next
    case (Some out)
    then show ?thesis using * by (cases out) (simp_all add: step)
  qed
qed simp

section \<open>A burst\<close>

lemma refill_same_instant:
  assumes "tokens b = Fin False (of_nat k)" "tb_capacity b = Fin False (of_nat c)" "k \<le> c" "c < 2 ^ 32"
    and "last_refill b = now" "tb_refill_per_second b = Fin False (of_nat r)"
  shows "refill now b = b"
proof -
  have "f64_of_nat 1000000000 = Fin False 1000000000" "f64_of_nat 0 = Fin False 0" by (simp_all add: f64_of_nat_small)
  then have "as_secs_f64 0 = f_zero" by (simp add: as_secs_f64_def signed_def)
  moreover have "fadd (Fin False (of_nat k)) f_zero = Fin False (of_nat k)"
    using f64_of_nat_small [of k] assms(3,4) by (auto simp: f64_of_nat_def signed_def Let_def)
  moreover have "fmin (Fin False (of_nat k)) (Fin False (of_nat c)) = Fin False (of_nat k)"
    using assms(3) by (auto simp: fmin_def f_lt_def signed_def)
  ultimately show ?thesis using assms by (simp add: refill_def)
qed

lemma acquire_same_instant:
  assumes "tokens b = Fin False (of_nat k)" "tb_capacity b = Fin False (of_nat c)" "k \<le> c" "c < 2 ^ 32"
    and "last_refill b = now" "tb_refill_per_second b = Fin False (of_nat r)"
  shows "k = 0 \<Longrightarrow> fst (try_acquire_at now b) \<noteq> Some (Inr ()) \<and> snd (try_acquire_at now b) = b"
    and "0 < k \<Longrightarrow> try_acquire_at now b = (Some (Inr ()), b\<lparr>tokens := Fin False (of_nat (k - 1))\<rparr>)"
proof -
  note same = refill_same_instant [OF assms]
  show "k = 0 \<Longrightarrow> fst (try_acquire_at now b) \<noteq> Some (Inr ()) \<and> snd (try_acquire_at now b) = b"
    using assms by (auto simp: try_acquire_at_def same f_le_def signed_def Let_def)
  assume "0 < k"
  moreover from this have "fsub (Fin False (of_nat k)) f_one = Fin False (of_nat (k - 1))"
    using f64_of_nat_small [of "k - 1"] assms(3,4)
    by (auto simp: fsub_def f64_of_nat_def signed_def Let_def of_nat_diff)
  ultimately show "try_acquire_at now b = (Some (Inr ()), b\<lparr>tokens := Fin False (of_nat (k - 1))\<rparr>)"
    using assms by (simp add: try_acquire_at_def same f_le_def signed_def)
qed

lemma burst:
  assumes "tokens b = Fin False (of_nat k)" "tb_capacity b = Fin False (of_nat c)" "k \<le> c" "c < 2 ^ 32"
    and "last_refill b = now" "tb_refill_per_second b = Fin False (of_nat r)"
  shows "(fst (acquire_all (replicate n now) b) = Some (Inr ()) \<longleftrightarrow> n \<le> k)
    \<and> snd (acquire_all (replicate n now) b) = b\<lparr>tokens := Fin False (of_nat (k - n))\<rparr>"
  using assms
proof (induction n arbitrary: b k)
  case (Suc n)
  show ?case
  proof (cases "k = 0")
    case True
    then show ?thesis using acquire_same_instant(1) [OF Suc.prems] Suc.prems(1)
      by (cases "try_acquire_at now b") (auto split: option.split sum.split)
  next
    case False
    let ?b = "b\<lparr>tokens := Fin False (of_nat (k - 1))\<rparr>"
    have "acquire_all (replicate (Suc n) now) b = acquire_all (replicate n now) ?b"
      using acquire_same_instant(2) [OF Suc.prems] False by simp
    then show ?thesis using Suc.IH [of ?b "k - 1"] Suc.prems False by auto
  qed
qed simp

section \<open>Properties\<close>

text \<open>
  C26: Under a valid configuration and any sequence of attempts, at any instants, the tokens stay
  between zero and the capacity, no attempt panics, and a refusal asks to wait between a
  millisecond and a second.
\<close>
theorem token_bucket_bounded:
  assumes "rate_limit_ok c"
  shows "let b = fold (\<lambda>t b. snd (try_acquire_at t b)) ts (bucket_new start c)
    in f_le f_zero (tokens b) \<and> f_le (tokens b) (tb_capacity b)
       \<and> (case fst (try_acquire_at now b) of
            None \<Rightarrow> False | Some (Inl d) \<Rightarrow> millis 1 \<le> d \<and> d \<le> secs 1 | Some (Inr _) \<Rightarrow> True)"
proof -
  have "bucket_ok n r (fold (\<lambda>t b. snd (try_acquire_at t b)) ts b)" if "bucket_ok n r b" for n r b
    using that by (induction ts arbitrary: b) (simp_all add: try_acquire_ok(1))
  from this [OF bucket_ok_new [OF assms]]
  have ok: "bucket_ok (unat (rl_capacity c)) (unat (refill_per_second c))
      (fold (\<lambda>t b. snd (try_acquire_at t b)) ts (bucket_new start c))" .
  then obtain m where "tokens (fold (\<lambda>t b. snd (try_acquire_at t b)) ts (bucket_new start c)) = Fin False m"
    "0 \<le> m" "m \<le> of_nat (unat (rl_capacity c))"
    "tb_capacity (fold (\<lambda>t b. snd (try_acquire_at t b)) ts (bucket_new start c)) = Fin False (of_nat (unat (rl_capacity c)))"
    by (auto simp only: bucket_ok_def elim!: fboundedE)
  moreover have "millis 1 = 1000000" "secs 1 = 1000000000" by simp_all
  ultimately show ?thesis using try_acquire_ok(2) [OF ok, of now]
    by (simp only: Let_def f_le_def is_nan.simps cmp_key.simps signed_def) (simp del: of_nat_unat)
qed

theorem token_bucket_bounded_witness:
  "f_le (tokens (snd (try_acquire_at 5 (bucket_new 0 default_rate_limit)))) (tb_capacity (snd (try_acquire_at 5 (bucket_new 0 default_rate_limit))))"
proof -
  have "rate_limit_ok default_rate_limit" by (simp add: rate_limit_ok_def default_rate_limit_def)
  from token_bucket_bounded [OF this, of "[5]" 0] show ?thesis by (simp add: Let_def)
qed

text \<open>
  A batch that asks for its tokens at one instant gets them exactly when it is no larger than
  the capacity; a larger batch is refused even by a full bucket, and leaves it empty.
\<close>
theorem batch_limited_by_capacity:
  assumes "rate_limit_ok c"
  shows "(fst (acquire_all (replicate n now) (bucket_new now c)) = Some (Inr ()) \<longleftrightarrow> n \<le> unat (rl_capacity c))
    \<and> tokens (snd (acquire_all (replicate n now) (bucket_new now c))) = Fin False (of_nat (unat (rl_capacity c) - n))"
proof -
  note ok = bucket_ok_new [OF assms, of now]
  have "tokens (bucket_new now c) = Fin False (of_nat (unat (rl_capacity c)))" "last_refill (bucket_new now c) = now"
    using ok by (simp_all add: bucket_ok_def bucket_new_def del: of_nat_unat)
  then show ?thesis using burst [of "bucket_new now c" "unat (rl_capacity c)" "unat (rl_capacity c)" now "unat (refill_per_second c)"] ok
    by (simp add: bucket_ok_def del: of_nat_unat)
qed

theorem batch_limited_by_capacity_witness:
  "fst (acquire_all (replicate 121 7) (bucket_new 7 default_rate_limit)) \<noteq> Some (Inr ())"
proof -
  have "rate_limit_ok default_rate_limit" "unat (rl_capacity default_rate_limit) = 120"
    by (simp_all add: rate_limit_ok_def default_rate_limit_def)
  then show ?thesis using batch_limited_by_capacity [of default_rate_limit 121 7] by simp
qed

end
