(* ===== verification/SidecarConfig.thy ===== *)
theory SidecarConfig
  imports Costs TokenBucket
begin

text \<open>
  \<open>src/src/sidecar_config.rs\<close>: the configuration of the sidecar, from a JSON file, the environment
  and the command line.  The environment, the file system, the JSON parser and the parser of socket
  addresses are arguments; the parsers of numbers of the standard library are modelled on ASCII
  text.
\<close>

section \<open>Text\<close>

definition is_digit :: "char \<Rightarrow> bool" where
  "is_digit c \<longleftrightarrow> 48 \<le> (of_char c :: nat) \<and> (of_char c :: nat) \<le> 57"

definition digit_value :: "char \<Rightarrow> nat" where
  "digit_value c = of_char c - 48"

definition digits_value :: "string \<Rightarrow> nat" where
  "digits_value s = foldl (\<lambda>n c. 10 * n + digit_value c) 0 s"

text \<open>\<open>str::parse\<close> for an unsigned type with values below \<open>bound\<close>: an optional plus, then digits.\<close>

definition parse_unsigned :: "nat \<Rightarrow> string \<Rightarrow> nat option" where
  "parse_unsigned bound s =
     (let digits = (case s of c # t \<Rightarrow> if c = CHR ''+'' then t else s | [] \<Rightarrow> [])
      in if digits \<noteq> [] \<and> list_all is_digit digits \<and> digits_value digits < bound
         then Some (digits_value digits) else None)"

definition parse_u32 :: "string \<Rightarrow> u32 option" where
  "parse_u32 s = map_option of_nat (parse_unsigned (2 ^ 32) s)"

definition parse_u64 :: "string \<Rightarrow> u64 option" where
  "parse_u64 s = map_option of_nat (parse_unsigned (2 ^ 64) s)"

definition to_lower :: "char \<Rightarrow> char" where
  "to_lower c = (let n = of_char c :: nat in if 65 \<le> n \<and> n \<le> 90 then char_of (n + 32) else c)"

definition parse_exponent :: "string \<Rightarrow> int option" where
  "parse_exponent s =
     (case s of
        [] \<Rightarrow> Some 0
      | c # t \<Rightarrow>
          if to_lower c \<noteq> CHR ''e'' then None
          else let (neg, digits) = (case t of
                     d # u \<Rightarrow> if d = CHR ''-'' then (True, u) else if d = CHR ''+'' then (False, u) else (False, t)
                   | [] \<Rightarrow> (False, []))
               in if digits \<noteq> [] \<and> list_all is_digit digits
                  then Some ((if neg then - 1 else 1) * int (digits_value digits)) else None)"

definition parse_decimal :: "string \<Rightarrow> rat option" where
  "parse_decimal s =
     (let whole = takeWhile is_digit s;
          tail = dropWhile is_digit s;
          (fraction, rest) = (case tail of
             c # t \<Rightarrow> if c = CHR ''.'' then (takeWhile is_digit t, dropWhile is_digit t) else ([], tail)
           | [] \<Rightarrow> ([], []))
      in if whole = [] \<and> fraction = [] then None
         else map_option (\<lambda>e. of_nat (digits_value (whole @ fraction)) * 10 powi (e - int (length fraction)))
                (parse_exponent rest))"

definition parse_f64 :: "string \<Rightarrow> f64 option" where
  "parse_f64 s =
     (let (neg, body) = (case s of
            c # t \<Rightarrow> if c = CHR ''-'' then (True, t) else if c = CHR ''+'' then (False, t) else (False, s)
          | [] \<Rightarrow> (False, []));
          word = map to_lower body
      in if word = ''inf'' \<or> word = ''infinity'' then Some (Inf neg)
         else if word = ''nan'' then Some (if neg then fneg f_nan else f_nan)
         else map_option (mk_f64 neg) (parse_decimal body))"

definition is_space :: "char \<Rightarrow> bool" where
  "is_space c \<longleftrightarrow> (let n = of_char c :: nat in n = 32 \<or> 9 \<le> n \<and> n \<le> 13)"

definition trim :: "string \<Rightarrow> string" where
  "trim s = rev (dropWhile is_space (rev (dropWhile is_space s)))"

definition trim_line_end :: "string \<Rightarrow> string" where
  "trim_line_end s = rev (dropWhile (\<lambda>c. c = CHR 0x0D \<or> c = CHR 0x0A) (rev s))"

fun split_on :: "char \<Rightarrow> string \<Rightarrow> string list" where
  "split_on sep [] = [[]]"
| "split_on sep (c # s) =
     (if c = sep then [] # split_on sep s
      else case split_on sep s of [] \<Rightarrow> [[c]] | w # ws \<Rightarrow> (c # w) # ws)"

section \<open>Configuration values\<close>

datatype deployment_mode = Development | Production

definition DEFAULT_ADDRESS :: string where "DEFAULT_ADDRESS = ''127.0.0.1:7878''"
definition DEFAULT_AUDIT_PATH :: string where "DEFAULT_AUDIT_PATH = ''sidecar-audit.jsonl''"
definition DEFAULT_DEMO_API_KEY :: string where "DEFAULT_DEMO_API_KEY = ''trust-router-demo-key''"
definition DEFAULT_TENANT :: string where "DEFAULT_TENANT = ''yc-demo''"

record 'addr sidecar_config =
  cfg_mode :: deployment_mode
  bind_address :: 'addr
  audit_path :: string
  cfg_api_key :: string
  allowed_tenants :: "string list"
  rate_limit :: rate_limit_config
  cfg_cost_model :: tenant_cost_model
  cfg_health_policy :: health_policy
  recovery_scan_interval :: duration

record raw_cost_model =
  rc_w_dollar :: f64
  rc_w_latency :: f64
  rc_w_risk :: f64
  rc_w_base :: f64
  rc_max_dollar :: f64
  rc_max_latency_ms :: u64
  rc_max_base :: f64

definition default_raw_cost :: raw_cost_model where
  "default_raw_cost =
     (let m = default_cost_model
      in \<lparr>rc_w_dollar = w_dollar (weights m), rc_w_latency = w_latency (weights m), rc_w_risk = w_risk (weights m),
          rc_w_base = w_base (weights m), rc_max_dollar = max_dollar (ceilings m),
          rc_max_latency_ms = max_latency_ms (ceilings m), rc_max_base = max_base (ceilings m)\<rparr>)"

definition into_model :: "raw_cost_model \<Rightarrow> tenant_cost_model" where
  "into_model r =
     \<lparr>weights = \<lparr>w_dollar = rc_w_dollar r, w_latency = rc_w_latency r, w_risk = rc_w_risk r, w_base = rc_w_base r\<rparr>,
      ceilings = \<lparr>max_dollar = rc_max_dollar r, max_latency_ms = rc_max_latency_ms r, max_base = rc_max_base r\<rparr>\<rparr>"

record raw_health_policy =
  rh_open_threshold :: u32
  rh_degraded_threshold :: u32
  rh_half_open_success_needed :: u32
  rh_degraded_success_needed :: u32
  rh_cooldown_ms :: u64

definition default_raw_health :: raw_health_policy where
  "default_raw_health =
     (let p = default_health_policy
      in \<lparr>rh_open_threshold = open_threshold p, rh_degraded_threshold = degraded_threshold p,
          rh_half_open_success_needed = half_open_success_needed p,
          rh_degraded_success_needed = degraded_success_needed p,
          rh_cooldown_ms = of_nat (cooldown p div 1000000)\<rparr>)"

definition into_policy :: "raw_health_policy \<Rightarrow> health_policy" where
  "into_policy r =
     \<lparr>open_threshold = rh_open_threshold r, degraded_threshold = rh_degraded_threshold r,
      half_open_success_needed = rh_half_open_success_needed r,
      degraded_success_needed = rh_degraded_success_needed r, cooldown = millis (unat (rh_cooldown_ms r))\<rparr>"

record raw_config =
  raw_mode :: deployment_mode
  raw_bind_address :: "string option"
  raw_audit_path :: "string option"
  raw_api_key :: "string option"
  raw_api_key_file :: "string option"
  raw_allowed_tenants :: "string list"
  raw_rate_limit :: rate_limit_config
  raw_cost :: raw_cost_model
  raw_health :: raw_health_policy
  raw_recovery_scan_interval_ms :: u64

definition default_raw_config :: raw_config where
  "default_raw_config =
     \<lparr>raw_mode = Development, raw_bind_address = None, raw_audit_path = None, raw_api_key = None,
      raw_api_key_file = None, raw_allowed_tenants = [], raw_rate_limit = default_rate_limit,
      raw_cost = default_raw_cost, raw_health = default_raw_health, raw_recovery_scan_interval_ms = 1000\<rparr>"

datatype ('io, 'js) config_error = ReadFile string 'io | ParseFile string 'js | ConfigInvalid string

fun config_error_display :: "('io \<Rightarrow> string) \<Rightarrow> ('js \<Rightarrow> string) \<Rightarrow> ('io, 'js) config_error \<Rightarrow> string" where
  "config_error_display show_io show_js (ReadFile path source) =
     ''cannot read config file '' @ path @ '': '' @ show_io source"
| "config_error_display show_io show_js (ParseFile path source) =
     ''cannot parse config file '' @ path @ '': '' @ show_js source"
| "config_error_display show_io show_js (ConfigInvalid message) = ''invalid sidecar configuration: '' @ message"

text \<open>\<open>Debug\<close> prints the fields with the key replaced; how the other values print is a parameter.\<close>

definition config_debug_fields ::
  "(deployment_mode \<Rightarrow> string) \<Rightarrow> ('addr \<Rightarrow> string) \<Rightarrow> (string \<Rightarrow> string) \<Rightarrow> (string list \<Rightarrow> string)
   \<Rightarrow> (rate_limit_config \<Rightarrow> string) \<Rightarrow> (tenant_cost_model \<Rightarrow> string) \<Rightarrow> (health_policy \<Rightarrow> string)
   \<Rightarrow> (duration \<Rightarrow> string) \<Rightarrow> 'addr sidecar_config \<Rightarrow> (string \<times> string) list" where
  "config_debug_fields sm sa ss st sr sc sh sd c =
     [(''mode'', sm (cfg_mode c)), (''bind_address'', sa (bind_address c)), (''audit_path'', ss (audit_path c)),
      (''api_key'', ss ''[redacted]''), (''allowed_tenants'', st (allowed_tenants c)),
      (''rate_limit'', sr (rate_limit c)), (''cost_model'', sc (cfg_cost_model c)),
      (''health_policy'', sh (cfg_health_policy c)), (''recovery_scan_interval'', sd (recovery_scan_interval c))]"

section \<open>Validation\<close>

type_synonym ('io, 'js, 'a) config_result = "('io, 'js) config_error + 'a"

definition rate_limit_validate :: "rate_limit_config \<Rightarrow> ('io, 'js, unit) config_result" where
  "rate_limit_validate c =
     (if rl_capacity c = 0 \<or> refill_per_second c = 0
      then Inl (ConfigInvalid ''rate_limit.capacity and rate_limit.refill_per_second must be greater than zero'')
      else Inr ())"

definition is_control :: "char \<Rightarrow> bool" where
  "is_control c \<longleftrightarrow> (let n = of_char c :: nat in n < 32 \<or> n = 127)"

definition validate_api_key :: "deployment_mode \<Rightarrow> string \<Rightarrow> ('io, 'js, unit) config_result" where
  "validate_api_key mode key =
     (if key = [] then Inl (ConfigInvalid ''API key cannot be empty'')
      else if length key > 512 \<or> list_ex is_control key
      then Inl (ConfigInvalid ''API key must be at most 512 printable characters'')
      else if mode = Production \<and> (key = DEFAULT_DEMO_API_KEY \<or> length key < 32)
      then Inl (ConfigInvalid ''production API key must be a non-demo secret of at least 32 characters'')
      else Inr ())"

definition parse_mode :: "string \<Rightarrow> ('io, 'js, deployment_mode) config_result" where
  "parse_mode v =
     (if v = ''development'' then Inr Development
      else if v = ''production'' then Inr Production
      else Inl (ConfigInvalid ''TRUST_ROUTER_MODE must be development or production''))"

definition split_tenants :: "string \<Rightarrow> ('io, 'js, string list) config_result" where
  "split_tenants v =
     (let tenants = filter (\<lambda>t. t \<noteq> []) (map trim (split_on (CHR '','') v))
      in if tenants = [] then Inl (ConfigInvalid ''TRUST_ROUTER_ALLOWED_TENANTS cannot be empty'') else Inr tenants)"

definition config_validate_identifier :: "string \<Rightarrow> string \<Rightarrow> ('io, 'js, unit) config_result" where
  "config_validate_identifier field v =
     (if v = [] \<or> length v > 128 then Inl (ConfigInvalid (field @ '' must be 1-128 characters''))
      else if \<not> list_all id_char v then Inl (ConfigInvalid (field @ '' contains invalid characters''))
      else Inr ())"

section \<open>Sources\<close>

record ('io, 'js, 'addr) sources =
  env_var :: "string \<Rightarrow> string option"
  env_var_os :: "string \<Rightarrow> string option"
  read_file :: "string \<Rightarrow> 'io + string"
  parse_json :: "string \<Rightarrow> 'js + raw_config"
  parse_addr :: "string \<Rightarrow> 'addr option"
  quoted :: "string \<Rightarrow> string"

definition override_with ::
  "(string \<Rightarrow> string option) \<Rightarrow> string \<Rightarrow> string \<Rightarrow> (string \<Rightarrow> 'a option) \<Rightarrow> ('a \<Rightarrow> raw_config \<Rightarrow> raw_config)
   \<Rightarrow> raw_config \<Rightarrow> ('io, 'js, raw_config) config_result" where
  "override_with env problem name parse set_field raw =
     (case env name of
        None \<Rightarrow> Inr raw
      | Some v \<Rightarrow> (case parse v of
            None \<Rightarrow> Inl (ConfigInvalid (name @ problem))
          | Some x \<Rightarrow> Inr (set_field x raw)))"

abbreviation override_u32 where
  "override_u32 env name \<equiv> override_with env '' must be an unsigned integer'' name parse_u32"

abbreviation override_u64 where
  "override_u64 env name \<equiv> override_with env '' must be an unsigned integer'' name parse_u64"

abbreviation override_f64 where
  "override_f64 env name \<equiv> override_with env '' must be a number'' name parse_f64"

abbreviation on_rate :: "(rate_limit_config \<Rightarrow> rate_limit_config) \<Rightarrow> raw_config \<Rightarrow> raw_config" where
  "on_rate f r \<equiv> r\<lparr>raw_rate_limit := f (raw_rate_limit r)\<rparr>"

abbreviation on_cost :: "(raw_cost_model \<Rightarrow> raw_cost_model) \<Rightarrow> raw_config \<Rightarrow> raw_config" where
  "on_cost f r \<equiv> r\<lparr>raw_cost := f (raw_cost r)\<rparr>"

abbreviation on_health :: "(raw_health_policy \<Rightarrow> raw_health_policy) \<Rightarrow> raw_config \<Rightarrow> raw_config" where
  "on_health f r \<equiv> r\<lparr>raw_health := f (raw_health r)\<rparr>"

definition and_then :: "'e + 'a \<Rightarrow> ('a \<Rightarrow> 'e + 'b) \<Rightarrow> 'e + 'b" where
  "and_then x f = (case x of Inl e \<Rightarrow> Inl e | Inr v \<Rightarrow> f v)"

definition env_text_overrides :: "(string \<Rightarrow> string option) \<Rightarrow> raw_config \<Rightarrow> ('io, 'js, raw_config) config_result" where
  "env_text_overrides env raw =
     and_then (case env ''TRUST_ROUTER_MODE'' of None \<Rightarrow> Inr raw
               | Some v \<Rightarrow> and_then (parse_mode v) (\<lambda>m. Inr (raw\<lparr>raw_mode := m\<rparr>))) (\<lambda>raw.
     let raw = (case env ''TRUST_ROUTER_BIND_ADDRESS'' of None \<Rightarrow> raw | Some v \<Rightarrow> raw\<lparr>raw_bind_address := Some v\<rparr>);
         raw = (case env ''TRUST_ROUTER_AUDIT_PATH'' of None \<Rightarrow> raw | Some v \<Rightarrow> raw\<lparr>raw_audit_path := Some v\<rparr>)
     in case env ''TRUST_ROUTER_ALLOWED_TENANTS'' of None \<Rightarrow> Inr raw
        | Some v \<Rightarrow> and_then (split_tenants v) (\<lambda>ts. Inr (raw\<lparr>raw_allowed_tenants := ts\<rparr>)))"

definition env_number_overrides ::
  "(string \<Rightarrow> string option) \<Rightarrow> (raw_config \<Rightarrow> ('io, 'js, raw_config) config_result) list" where
  "env_number_overrides env =
     [override_u32 env ''TRUST_ROUTER_RATE_LIMIT_CAPACITY'' (\<lambda>v. on_rate (\<lambda>r. r\<lparr>rl_capacity := v\<rparr>)),
      override_u32 env ''TRUST_ROUTER_RATE_LIMIT_REFILL_PER_SECOND'' (\<lambda>v. on_rate (\<lambda>r. r\<lparr>refill_per_second := v\<rparr>)),
      override_f64 env ''TRUST_ROUTER_W_DOLLAR'' (\<lambda>v. on_cost (\<lambda>r. r\<lparr>rc_w_dollar := v\<rparr>)),
      override_f64 env ''TRUST_ROUTER_W_LATENCY'' (\<lambda>v. on_cost (\<lambda>r. r\<lparr>rc_w_latency := v\<rparr>)),
      override_f64 env ''TRUST_ROUTER_W_RISK'' (\<lambda>v. on_cost (\<lambda>r. r\<lparr>rc_w_risk := v\<rparr>)),
      override_f64 env ''TRUST_ROUTER_W_BASE'' (\<lambda>v. on_cost (\<lambda>r. r\<lparr>rc_w_base := v\<rparr>)),
      override_f64 env ''TRUST_ROUTER_MAX_DOLLAR'' (\<lambda>v. on_cost (\<lambda>r. r\<lparr>rc_max_dollar := v\<rparr>)),
      override_u64 env ''TRUST_ROUTER_MAX_LATENCY_MS'' (\<lambda>v. on_cost (\<lambda>r. r\<lparr>rc_max_latency_ms := v\<rparr>)),
      override_f64 env ''TRUST_ROUTER_MAX_BASE'' (\<lambda>v. on_cost (\<lambda>r. r\<lparr>rc_max_base := v\<rparr>)),
      override_u32 env ''TRUST_ROUTER_OPEN_THRESHOLD'' (\<lambda>v. on_health (\<lambda>r. r\<lparr>rh_open_threshold := v\<rparr>)),
      override_u32 env ''TRUST_ROUTER_DEGRADED_THRESHOLD'' (\<lambda>v. on_health (\<lambda>r. r\<lparr>rh_degraded_threshold := v\<rparr>)),
      override_u32 env ''TRUST_ROUTER_HALF_OPEN_SUCCESS_NEEDED''
        (\<lambda>v. on_health (\<lambda>r. r\<lparr>rh_half_open_success_needed := v\<rparr>)),
      override_u32 env ''TRUST_ROUTER_DEGRADED_SUCCESS_NEEDED''
        (\<lambda>v. on_health (\<lambda>r. r\<lparr>rh_degraded_success_needed := v\<rparr>)),
      override_u64 env ''TRUST_ROUTER_COOLDOWN_MS'' (\<lambda>v. on_health (\<lambda>r. r\<lparr>rh_cooldown_ms := v\<rparr>)),
      override_u64 env ''TRUST_ROUTER_RECOVERY_SCAN_INTERVAL_MS'' (\<lambda>v r. r\<lparr>raw_recovery_scan_interval_ms := v\<rparr>)]"

definition env_overrides :: "(string \<Rightarrow> string option) \<Rightarrow> raw_config \<Rightarrow> ('io, 'js, raw_config) config_result" where
  "env_overrides env raw = foldl and_then (env_text_overrides env raw) (env_number_overrides env)"

definition or_else :: "'a option \<Rightarrow> 'a option \<Rightarrow> 'a option" where
  "or_else x y = (case x of None \<Rightarrow> y | Some _ \<Rightarrow> x)"

definition arg :: "nat \<Rightarrow> string list \<Rightarrow> string option" where
  "arg i args = (if i < length args then Some (args ! i) else None)"

definition bind_source :: "(string \<Rightarrow> string option) \<Rightarrow> raw_config \<Rightarrow> string list \<Rightarrow> string" where
  "bind_source env raw args =
     (case or_else (arg 1 args) (or_else (raw_bind_address raw) (map_option (\<lambda>port. ''0.0.0.0:'' @ port) (env ''PORT''))) of
        None \<Rightarrow> DEFAULT_ADDRESS | Some v \<Rightarrow> v)"

definition api_key_from_sources :: "('io, 'js, 'addr) sources \<Rightarrow> raw_config \<Rightarrow> ('io, 'js, string) config_result" where
  "api_key_from_sources src raw =
     (case env_var src ''TRUST_ROUTER_API_KEY'' of
        Some v \<Rightarrow> Inr v
      | None \<Rightarrow>
          (case or_else (env_var_os src ''TRUST_ROUTER_API_KEY_FILE'') (raw_api_key_file raw) of
             Some path \<Rightarrow>
               (case read_file src path of Inl e \<Rightarrow> Inl (ReadFile path e) | Inr v \<Rightarrow> Inr (trim_line_end v))
           | None \<Rightarrow>
               (case raw_api_key raw of
                  Some v \<Rightarrow> Inr v
                | None \<Rightarrow>
                    if raw_mode raw = Development then Inr DEFAULT_DEMO_API_KEY
                    else Inl (ConfigInvalid
                      ''production mode requires TRUST_ROUTER_API_KEY or TRUST_ROUTER_API_KEY_FILE''))))"

definition from_router_error :: "router_error + unit \<Rightarrow> ('io, 'js, unit) config_result" where
  "from_router_error r = (case r of Inl e \<Rightarrow> Inl (ConfigInvalid (router_error_display e)) | Inr _ \<Rightarrow> Inr ())"

definition allowed_or_default :: "raw_config \<Rightarrow> string list" where
  "allowed_or_default raw =
     (if raw_allowed_tenants raw = [] \<and> raw_mode raw = Development then [DEFAULT_TENANT] else raw_allowed_tenants raw)"

definition first_error :: "('a \<Rightarrow> 'e + unit) \<Rightarrow> 'a list \<Rightarrow> 'e + unit" where
  "first_error f xs = foldl (\<lambda>r x. and_then r (\<lambda>_. f x)) (Inr ()) xs"

definition from_raw ::
  "('io, 'js, 'addr) sources \<Rightarrow> raw_config \<Rightarrow> string list \<Rightarrow> ('io, 'js, 'addr sidecar_config) config_result" where
  "from_raw src raw0 args =
     and_then (env_overrides (env_var src) raw0) (\<lambda>raw.
     let source = bind_source (env_var src) raw args
     in and_then (case parse_addr src source of
                    None \<Rightarrow> Inl (ConfigInvalid (''bind_address must be a socket address, got '' @ quoted src source))
                  | Some a \<Rightarrow> Inr a) (\<lambda>address.
     let path = (case or_else (arg 2 args) (raw_audit_path raw) of None \<Rightarrow> DEFAULT_AUDIT_PATH | Some p \<Rightarrow> p)
     in and_then (api_key_from_sources src raw) (\<lambda>key.
     and_then (validate_api_key (raw_mode raw) key) (\<lambda>_.
     and_then (rate_limit_validate (raw_rate_limit raw)) (\<lambda>_.
     if raw_recovery_scan_interval_ms raw = 0
     then Inl (ConfigInvalid ''recovery_scan_interval_ms must be greater than zero'')
     else let tenants = allowed_or_default raw
     in if tenants = [] then Inl (ConfigInvalid ''allowed_tenants cannot be empty'')
     else and_then (first_error (config_validate_identifier ''allowed_tenants entry'') tenants) (\<lambda>_.
     let model = into_model (raw_cost raw)
     in and_then (from_router_error (cost_model_validate model)) (\<lambda>_.
     let policy = into_policy (raw_health raw)
     in and_then (from_router_error (health_policy_validate policy)) (\<lambda>_.
     Inr \<lparr>cfg_mode = raw_mode raw, bind_address = address, audit_path = path, cfg_api_key = key,
          allowed_tenants = tenants, rate_limit = raw_rate_limit raw, cfg_cost_model = model,
          cfg_health_policy = policy,
          recovery_scan_interval = millis (unat (raw_recovery_scan_interval_ms raw))\<rparr>))))))))"

definition load_config ::
  "('io, 'js, 'addr) sources \<Rightarrow> string list \<Rightarrow> ('io, 'js, 'addr sidecar_config) config_result" where
  "load_config src args =
     and_then (case env_var_os src ''TRUST_ROUTER_CONFIG'' of
                 None \<Rightarrow> Inr default_raw_config
               | Some path \<Rightarrow>
                   (case read_file src path of
                      Inl e \<Rightarrow> Inl (ReadFile path e)
                    | Inr text \<Rightarrow> (case parse_json src text of Inl e \<Rightarrow> Inl (ParseFile path e) | Inr raw \<Rightarrow> Inr raw)))
       (\<lambda>raw. from_raw src raw args)"

section \<open>A chain of checks\<close>

lemma and_then_Inr: "and_then x f = Inr y \<longleftrightarrow> (\<exists>v. x = Inr v \<and> f v = Inr y)"
  by (simp add: and_then_def split: sum.split)

lemma and_then_simps [simp]: "and_then (Inl e) f = Inl e" "and_then (Inr v) f = f v"
  by (simp_all add: and_then_def)

lemma foldl_and_then_Inl: "foldl (\<lambda>r x. and_then r (\<lambda>_. f x)) (Inl e) xs = Inl e"
  by (induction xs) simp_all

lemma first_error_Inr: "first_error f xs = Inr u \<longleftrightarrow> (\<forall>x \<in> set xs. f x = Inr ())"
proof (induction xs)
  case (Cons x xs)
  then show ?case by (cases "f x") (simp_all add: first_error_def foldl_and_then_Inl)
qed (simp add: first_error_def)

lemma first_error_simps [simp]:
  "first_error f [] = Inr ()" "first_error f (x # xs) = and_then (f x) (\<lambda>_. first_error f xs)"
proof -
  show "first_error f (x # xs) = and_then (f x) (\<lambda>_. first_error f xs)"
    by (cases "f x") (simp_all add: first_error_def foldl_and_then_Inl)
qed (simp add: first_error_def)

lemma config_validate_identifier_iff:
  "config_validate_identifier field v = Inr u \<longleftrightarrow> valid_identifier v"
  by (auto simp: config_validate_identifier_def valid_identifier_def)

lemma rate_limit_validate_iff: "rate_limit_validate c = Inr u \<longleftrightarrow> rate_limit_ok c"
  by (auto simp: rate_limit_validate_def rate_limit_ok_def)

lemma from_router_error_iff: "from_router_error r = Inr u \<longleftrightarrow> r = Inr ()"
  by (auto simp: from_router_error_def split: sum.split)

text \<open>What \<open>validate_api_key\<close> accepts.\<close>

definition acceptable_key :: "deployment_mode \<Rightarrow> string \<Rightarrow> bool" where
  "acceptable_key mode key \<longleftrightarrow> key \<noteq> [] \<and> length key \<le> 512 \<and> \<not> list_ex is_control key
     \<and> (mode = Production \<longrightarrow> key \<noteq> DEFAULT_DEMO_API_KEY \<and> 32 \<le> length key)"

lemma validate_api_key_iff: "validate_api_key mode key = Inr u \<longleftrightarrow> acceptable_key mode key"
  by (auto simp: validate_api_key_def acceptable_key_def)

text \<open>The invariant of a loaded configuration, and the raw values it was made from.\<close>

definition config_valid :: "'addr sidecar_config \<Rightarrow> bool" where
  "config_valid cfg \<longleftrightarrow> acceptable_key (cfg_mode cfg) (cfg_api_key cfg)
     \<and> allowed_tenants cfg \<noteq> [] \<and> (\<forall>t \<in> set (allowed_tenants cfg). valid_identifier t)
     \<and> rate_limit_ok (rate_limit cfg) \<and> 0 < recovery_scan_interval cfg
     \<and> cost_model_validate (cfg_cost_model cfg) = Inr ()
     \<and> health_policy_validate (cfg_health_policy cfg) = Inr ()"

lemma from_raw_valid:
  assumes "from_raw src raw args = Inr cfg"
  shows "config_valid cfg"
  using assms unfolding from_raw_def and_then_Inr Let_def
  by (auto simp: and_then_Inr first_error_Inr config_validate_identifier_iff rate_limit_validate_iff
      from_router_error_iff validate_api_key_iff config_valid_def unat_gt_0 split: if_splits)

lemma load_config_valid: "load_config src args = Inr cfg \<Longrightarrow> config_valid cfg"
  using from_raw_valid unfolding load_config_def and_then_Inr by blast

section \<open>Printing and parsing\<close>

definition digit_char :: "nat \<Rightarrow> char" where
  "digit_char d = char_of (48 + d)"

fun decimal :: "nat \<Rightarrow> string" where
  "decimal n = (if n < 10 then [digit_char n] else decimal (n div 10) @ [digit_char (n mod 10)])"

declare decimal.simps [simp del]

lemma digit_char: "d < 10 \<Longrightarrow> is_digit (digit_char d) \<and> digit_value (digit_char d) = d"
  by (simp add: digit_char_def is_digit_def digit_value_def)

lemma digits_value_snoc: "digits_value (s @ [c]) = 10 * digits_value s + digit_value c"
  by (simp add: digits_value_def)

lemma decimal_digits: "decimal n \<noteq> [] \<and> list_all is_digit (decimal n) \<and> digits_value (decimal n) = n"
proof (induction n rule: decimal.induct)
  case (1 n)
  show ?case
  proof (cases "n < 10")
    case True
    then show ?thesis using digit_char [OF True] by (simp add: decimal.simps [of n] digits_value_def)
  next
    case False
    then show ?thesis using 1 digit_char [of "n mod 10"]
      by (simp add: decimal.simps [of n] digits_value_snoc)
  qed
qed

lemma digit_not_plus: "is_digit c \<Longrightarrow> c \<noteq> CHR ''+''"
  by (auto simp: is_digit_def)

lemma parse_unsigned_decimal: "parse_unsigned b (decimal n) = (if n < b then Some n else None)"
proof (cases "decimal n")
  case (Cons c t)
  then have "c \<noteq> CHR ''+''" using decimal_digits [of n] digit_not_plus by auto
  then show ?thesis using decimal_digits [of n] Cons by (simp add: parse_unsigned_def)
qed (use decimal_digits [of n] in simp)

fun join_with :: "char \<Rightarrow> string list \<Rightarrow> string" where
  "join_with sep [] = []"
| "join_with sep [w] = w"
| "join_with sep (w # ws) = w @ sep # join_with sep ws"

lemma split_on_prefix: "sep \<notin> set w \<Longrightarrow> split_on sep (w @ sep # s) = w # split_on sep s"
  by (induction w) auto

lemma split_on_word: "sep \<notin> set w \<Longrightarrow> split_on sep w = [w]"
  by (induction w) auto

lemma split_on_join: "ws \<noteq> [] \<Longrightarrow> \<forall>w \<in> set ws. sep \<notin> set w \<Longrightarrow> split_on sep (join_with sep ws) = ws"
  by (induction sep ws rule: join_with.induct) (simp_all add: split_on_prefix split_on_word)

lemma trim_padded:
  assumes "\<forall>c \<in> set w. \<not> is_space c" "\<forall>c \<in> set p. is_space c" "\<forall>c \<in> set q. is_space c" "w \<noteq> []"
  shows "trim (p @ w @ q) = w"
proof -
  have "dropWhile is_space (w @ q) = w @ q" using assms(1,4) by (cases w) auto
  moreover have "dropWhile is_space (rev w) = rev w" using assms(1,4) by (cases w rule: rev_cases) auto
  moreover have "dropWhile is_space (rev q @ rev w) = dropWhile is_space (rev w)"
    using assms(3) by (intro dropWhile_append2) auto
  ultimately show ?thesis using assms(2) by (simp add: trim_def dropWhile_append2)
qed

lemma id_char_no_separator: "id_char c \<Longrightarrow> \<not> is_space c \<and> c \<noteq> CHR '',''"
  by (auto simp: id_char_def is_ascii_alphanumeric_def is_space_def Let_def)


section \<open>Properties\<close>

text \<open>
  C25: Whatever the file, the environment and the command line hold, a configuration that loads is
  valid: a printable key that in production is neither the demo key nor short, a non-empty list of
  well-formed tenants, positive rate limits and scan interval, and a cost model and a health policy
  that pass their own validation.
\<close>
theorem loaded_config_is_valid:
  assumes "load_config src args = Inr cfg"
  shows "config_valid cfg"
  using assms by (rule load_config_valid)

definition bare_sources :: "(unit, unit, unit) sources" where
  "bare_sources = \<lparr>env_var = (\<lambda>_. None), env_var_os = (\<lambda>_. None), read_file = (\<lambda>_. Inl ()),
     parse_json = (\<lambda>_. Inl ()), parse_addr = (\<lambda>_. Some ()), quoted = id\<rparr>"

lemma bare_overrides: "env_overrides (\<lambda>_. None) raw = (Inr raw :: (unit, unit, raw_config) config_result)"
  by (simp add: env_overrides_def env_text_overrides_def env_number_overrides_def override_with_def)

lemma default_models_validate:
  "cost_model_validate (into_model default_raw_cost) = Inr ()"
  "health_policy_validate (into_policy default_raw_health) = Inr ()"
proof -
  have "into_model default_raw_cost = default_cost_model" by (simp add: into_model_def default_raw_cost_def)
  moreover have "cost_model_validate default_cost_model = Inr ()" by code_simp
  ultimately show "cost_model_validate (into_model default_raw_cost) = Inr ()" by simp
  show "health_policy_validate (into_policy default_raw_health) = Inr ()"
    by (simp add: health_policy_validate_def into_policy_def default_raw_health_def default_health_policy_def
        OPEN_THRESHOLD_def DEGRADED_THRESHOLD_def HALF_OPEN_SUCCESS_NEEDED_def DEGRADED_SUCCESS_NEEDED_def DEFAULT_COOLDOWN_def)
qed

lemma bare_load:
  "\<exists>cfg. load_config bare_sources [] = Inr cfg \<and> cfg_api_key cfg = DEFAULT_DEMO_API_KEY
     \<and> allowed_tenants cfg = [DEFAULT_TENANT] \<and> cfg_cost_model cfg = default_cost_model"
proof -
  have "acceptable_key Development DEFAULT_DEMO_API_KEY" "valid_identifier DEFAULT_TENANT" "rate_limit_ok default_rate_limit"
    by code_simp+
  then have "validate_api_key Development DEFAULT_DEMO_API_KEY = (Inr () :: (unit, unit, unit) config_result)"
    "config_validate_identifier ''allowed_tenants entry'' DEFAULT_TENANT = (Inr () :: (unit, unit, unit) config_result)"
    "rate_limit_validate default_rate_limit = (Inr () :: (unit, unit, unit) config_result)"
    by (simp_all add: validate_api_key_iff config_validate_identifier_iff rate_limit_validate_iff)
  moreover have "into_model default_raw_cost = default_cost_model" by (simp add: into_model_def default_raw_cost_def)
  ultimately show ?thesis using default_models_validate
    by (simp add: load_config_def bare_sources_def from_raw_def bare_overrides default_raw_config_def
        api_key_from_sources_def or_else_def arg_def allowed_or_default_def from_router_error_def)
qed

theorem loaded_config_is_valid_witness:
  "\<exists>cfg. load_config bare_sources [] = Inr cfg \<and> config_valid cfg \<and> cfg_api_key cfg = DEFAULT_DEMO_API_KEY
     \<and> allowed_tenants cfg = [DEFAULT_TENANT]"
  using bare_load loaded_config_is_valid by blast

text \<open>
  The tenant list of the environment is read back: identifiers joined with commas, each with
  any blanks before and after it, split into exactly these identifiers, in order.
\<close>
theorem tenant_list_round_trip:
  assumes "entries \<noteq> []" "\<forall>(p, t, q) \<in> set entries. list_all is_space p \<and> valid_identifier t \<and> list_all is_space q"
  shows "split_tenants (join_with (CHR '','') (map (\<lambda>(p, t, q). p @ t @ q) entries)) = Inr (map (fst \<circ> snd) entries)"
proof -
  have entry: "CHR '','' \<notin> set (p @ t @ q)" "trim (p @ t @ q) = t" "t \<noteq> []" if "(p, t, q) \<in> set entries" for p t q
  proof -
    have id: "list_all is_space p" "list_all is_space q" "t \<noteq> []" "list_all id_char t"
      using assms(2) that by (auto simp: valid_identifier_def)
    then show "CHR '','' \<notin> set (p @ t @ q)" using id_char_no_separator by (auto simp: list_all_iff is_space_def)
    show "trim (p @ t @ q) = t" using id id_char_no_separator by (intro trim_padded) (auto simp: list_all_iff)
    show "t \<noteq> []" by (rule id(3))
  qed
  then have "split_on (CHR '','') (join_with (CHR '','') (map (\<lambda>(p, t, q). p @ t @ q) entries)) = map (\<lambda>(p, t, q). p @ t @ q) entries"
    using assms(1) by (intro split_on_join) auto
  moreover have "map trim (map (\<lambda>(p, t, q). p @ t @ q) entries) = map (fst \<circ> snd) entries"
    using entry(2) by (auto simp del: append_assoc)
  moreover have "filter (\<lambda>t. t \<noteq> []) (map (fst \<circ> snd) entries) = map (fst \<circ> snd) entries"
    using entry(3) by (auto simp: filter_id_conv)
  ultimately show ?thesis using assms(1) by (simp add: split_tenants_def Let_def del: map_map)
qed

theorem tenant_list_round_trip_witness:
  "split_tenants ''acme, beta-2 '' = Inr [''acme'', ''beta-2'']"
proof -
  have "valid_identifier ''acme''" "valid_identifier ''beta-2''" "list_all is_space '' ''" by code_simp+
  then show ?thesis using tenant_list_round_trip [of "[([], ''acme'', []), ('' '', ''beta-2'', '' '')]"] by simp
qed

text \<open>
  An unsigned value of the environment is read back from its decimal digits, and a number
  that does not fit the field is refused, not wrapped.
\<close>
theorem unsigned_override_round_trip:
  "override_with (\<lambda>x. if x = name then Some (decimal n) else None) problem name parse_u32 set_field raw
     = (if n < 2 ^ 32 then Inr (set_field (of_nat n) raw) else Inl (ConfigInvalid (name @ problem)))
   \<and> override_with (\<lambda>x. if x = name then Some (decimal n) else None) problem name parse_u64 set_field64 raw
     = (if n < 2 ^ 64 then Inr (set_field64 (of_nat n) raw) else Inl (ConfigInvalid (name @ problem)))"
  by (simp add: override_with_def parse_u32_def parse_u64_def parse_unsigned_decimal)

end
