(* ===== verification/SidecarMetrics.thy ===== *)
theory SidecarMetrics
  imports Planner SidecarConfig
begin

text \<open>
  The metrics of \<open>src/src/bin/trust-router-sidecar.rs\<close>: the counters kept in memory, globally and
  per tenant, the latency windows with their percentiles, and the instrument calls made for
  OpenTelemetry, whose SDK is outside the sources: it is the list of the calls it receives.
\<close>

section \<open>Nodes the sidecar knows\<close>

definition KNOWN_NODES :: "node_id list" where
  "KNOWN_NODES = [''start'', ''primary_search'', ''fallback_search'', ''summarize'', ''done'']"

definition node_health :: "router \<Rightarrow> tenant_id \<Rightarrow> (node_id, string) hmap" where
  "node_health r tid = map (\<lambda>n. (n, case node_state_of tid n r of
      None \<Rightarrow> ''Healthy'' | Some st \<Rightarrow> node_state_debug st)) KNOWN_NODES"

definition penalty_path_available :: "router \<Rightarrow> tenant_id \<Rightarrow> bool" where
  "penalty_path_available r tid = list_ex (\<lambda>n. case node_state_of tid n r of
      None \<Rightarrow> False | Some st \<Rightarrow> st \<in> {Degraded, HalfOpen}) KNOWN_NODES"

section \<open>Latencies\<close>

definition WINDOW_LIMIT :: nat where "WINDOW_LIMIT = 4096"

definition push_latency :: "duration \<Rightarrow> duration list \<Rightarrow> duration list" where
  "push_latency d xs = (if length xs = WINDOW_LIMIT then tl xs else xs) @ [d]"

interpretation latency_window: bounded_log push_latency id "\<lambda>_. WINDOW_LIMIT"
  by unfold_locales (simp_all add: push_latency_def)

definition as_micros :: "duration \<Rightarrow> nat" where
  "as_micros d = d div 1000"

text \<open>\<open>None\<close> is the panic of an index out of range.\<close>

definition percentile_us :: "duration list \<Rightarrow> f64 \<Rightarrow> nat option" where
  "percentile_us xs p =
     (if xs = [] then Some 0
      else let i = f64_to_nat (2 ^ 64 - 1) (fround (fdiv (fmul (f64_of_nat (length xs - 1)) p) (f64_lit 100)))
           in if i < length xs then Some (as_micros (xs ! i)) else None)"

record latency_percentiles =
  p50 :: nat
  p95 :: nat
  p99 :: nat

definition from_sorted :: "duration list \<Rightarrow> latency_percentiles option" where
  "from_sorted xs = (case (percentile_us xs (f64_lit 50), percentile_us xs (f64_lit 95), percentile_us xs (f64_lit 99)) of
      (Some a, Some b, Some c) \<Rightarrow> Some \<lparr>p50 = a, p95 = b, p99 = c\<rparr> | _ \<Rightarrow> None)"

definition percentiles :: "duration list \<Rightarrow> latency_percentiles option" where
  "percentiles window = from_sorted (sort window)"

definition rate :: "u64 \<Rightarrow> u64 \<Rightarrow> f64" where
  "rate n d = (if d = 0 then f_zero else fdiv (f64_of_nat (unat n)) (f64_of_nat (unat d)))"

definition saturating_minus :: "u64 \<Rightarrow> u64 \<Rightarrow> u64" where
  "saturating_minus a b = (if b \<le> a then a - b else 0)"

section \<open>Counters\<close>

record tenant_metrics =
  tm_total_routes :: u64
  tm_total_successful_routes :: u64
  tm_total_reroutes :: u64
  tm_total_escalations :: u64
  tm_false_escalations :: u64
  tm_cache_hits :: u64
  tm_cache_misses :: u64
  last_successful_path :: "node_id list option"
  tm_route_latencies :: "duration list"

definition default_tenant_metrics :: tenant_metrics where
  "default_tenant_metrics = \<lparr>tm_total_routes = 0, tm_total_successful_routes = 0, tm_total_reroutes = 0,
     tm_total_escalations = 0, tm_false_escalations = 0, tm_cache_hits = 0, tm_cache_misses = 0,
     last_successful_path = None, tm_route_latencies = []\<rparr>"

record metrics =
  mt_total_routes :: u64
  mt_total_successful_routes :: u64
  mt_total_reroutes :: u64
  mt_total_escalations :: u64
  mt_false_escalations :: u64
  mt_cache_hits :: u64
  mt_cache_misses :: u64
  per_tenant :: "(tenant_id, tenant_metrics) hmap"
  mt_route_latencies :: "duration list"
  mt_total_plans :: u64
  mt_successful_plans :: u64
  mt_recovery_plans :: u64
  mt_plan_latencies :: "duration list"

definition default_metrics :: metrics where
  "default_metrics = \<lparr>mt_total_routes = 0, mt_total_successful_routes = 0, mt_total_reroutes = 0,
     mt_total_escalations = 0, mt_false_escalations = 0, mt_cache_hits = 0, mt_cache_misses = 0,
     per_tenant = [], mt_route_latencies = [], mt_total_plans = 0, mt_successful_plans = 0,
     mt_recovery_plans = 0, mt_plan_latencies = []\<rparr>"

record route_metric_outcome =
  rerouted :: bool
  false_escalation :: bool

definition record_routed :: "route \<Rightarrow> metrics \<Rightarrow> tenant_metrics \<Rightarrow> route_metric_outcome \<times> metrics \<times> tenant_metrics" where
  "record_routed rt m t =
     (let m = m\<lparr>mt_total_successful_routes := mt_total_successful_routes m + 1\<rparr>;
          t = t\<lparr>tm_total_successful_routes := tm_total_successful_routes t + 1\<rparr>;
          (m, t) = (if cache_hit rt
             then (m\<lparr>mt_cache_hits := mt_cache_hits m + 1\<rparr>, t\<lparr>tm_cache_hits := tm_cache_hits t + 1\<rparr>)
             else (m\<lparr>mt_cache_misses := mt_cache_misses m + 1\<rparr>, t\<lparr>tm_cache_misses := tm_cache_misses t + 1\<rparr>));
          path_changed = (case last_successful_path t of None \<Rightarrow> False | Some path \<Rightarrow> path \<noteq> nodes rt);
          moved = (path_changed \<and> \<not> cache_hit rt);
          (m, t) = (if moved
             then (m\<lparr>mt_total_reroutes := mt_total_reroutes m + 1\<rparr>, t\<lparr>tm_total_reroutes := tm_total_reroutes t + 1\<rparr>)
             else (m, t))
      in (\<lparr>rerouted = moved, false_escalation = False\<rparr>, m, t\<lparr>last_successful_path := Some (nodes rt)\<rparr>))"

definition record_escalated :: "bool \<Rightarrow> metrics \<Rightarrow> tenant_metrics \<Rightarrow> route_metric_outcome \<times> metrics \<times> tenant_metrics" where
  "record_escalated needless m t =
     (let m = m\<lparr>mt_total_escalations := mt_total_escalations m + 1\<rparr>;
          t = t\<lparr>tm_total_escalations := tm_total_escalations t + 1\<rparr>;
          (m, t) = (if needless
             then (m\<lparr>mt_false_escalations := mt_false_escalations m + 1\<rparr>,
                   t\<lparr>tm_false_escalations := tm_false_escalations t + 1\<rparr>)
             else (m, t))
      in (\<lparr>rerouted = False, false_escalation = needless\<rparr>, m, t))"

definition record_decision ::
  "route_decision \<Rightarrow> bool \<Rightarrow> metrics \<Rightarrow> tenant_metrics \<Rightarrow> route_metric_outcome \<times> metrics \<times> tenant_metrics" where
  "record_decision decision needless m t =
     (case decision of Routed rt \<Rightarrow> record_routed rt m t | Escalate _ \<Rightarrow> record_escalated needless m t)"

definition metrics_record_route ::
  "tenant_id \<Rightarrow> route_decision \<Rightarrow> duration \<Rightarrow> router \<Rightarrow> metrics \<Rightarrow> route_metric_outcome \<times> metrics" where
  "metrics_record_route tid decision latency r m =
     (let m = m\<lparr>mt_total_routes := mt_total_routes m + 1, mt_route_latencies := push_latency latency (mt_route_latencies m)\<rparr>;
          t = get_or default_tenant_metrics (per_tenant m) tid;
          t = t\<lparr>tm_total_routes := tm_total_routes t + 1, tm_route_latencies := push_latency latency (tm_route_latencies t)\<rparr>;
          (outcome, m, t) = record_decision decision (penalty_path_available r tid) m t
      in (outcome, m\<lparr>per_tenant := AList.update tid t (per_tenant m)\<rparr>))"

definition record_plan :: "plan_outcome \<Rightarrow> duration \<Rightarrow> metrics \<Rightarrow> metrics" where
  "record_plan outcome latency m =
     (let m = m\<lparr>mt_total_plans := mt_total_plans m + 1, mt_plan_latencies := push_latency latency (mt_plan_latencies m)\<rparr>
      in case outcome of
           Execute _ \<Rightarrow> m\<lparr>mt_successful_plans := mt_successful_plans m + 1\<rparr>
         | Recover _ _ _ \<Rightarrow> m\<lparr>mt_recovery_plans := mt_recovery_plans m + 1\<rparr>)"

section \<open>Reports\<close>

record tenant_metrics_response =
  tr_total_routes :: u64
  tr_total_successful_routes :: u64
  tr_total_reroutes :: u64
  tr_total_escalations :: u64
  tr_escalation_rate :: f64
  tr_llm_calls_avoided :: u64
  tr_false_escalations :: u64
  tr_false_escalation_rate :: f64
  tr_cache_hits :: u64
  tr_cache_misses :: u64
  tr_cache_hit_ratio :: f64
  tr_node_health :: "(node_id, string) hmap"
  tr_route_latency_us :: latency_percentiles

record metrics_response = tenant_metrics_response +
  mr_total_plans :: u64
  mr_successful_plans :: u64
  mr_recovery_plans :: u64
  mr_plan_latency_us :: latency_percentiles
  mr_tenants :: "(tenant_id, tenant_metrics_response) hmap"

definition tenant_to_response :: "router \<Rightarrow> tenant_id \<Rightarrow> tenant_metrics \<Rightarrow> tenant_metrics_response option" where
  "tenant_to_response r tid t = map_option (\<lambda>lat.
     \<lparr>tr_total_routes = tm_total_routes t, tr_total_successful_routes = tm_total_successful_routes t,
      tr_total_reroutes = tm_total_reroutes t, tr_total_escalations = tm_total_escalations t,
      tr_escalation_rate = rate (tm_total_escalations t) (tm_total_routes t),
      tr_llm_calls_avoided = saturating_minus (tm_total_routes t) (tm_total_escalations t),
      tr_false_escalations = tm_false_escalations t,
      tr_false_escalation_rate = rate (tm_false_escalations t) (tm_total_routes t),
      tr_cache_hits = tm_cache_hits t, tr_cache_misses = tm_cache_misses t,
      tr_cache_hit_ratio = rate (tm_cache_hits t) (tm_cache_hits t + tm_cache_misses t),
      tr_node_health = node_health r tid, tr_route_latency_us = lat\<rparr>) (percentiles (tm_route_latencies t))"

fun all_some :: "'a option list \<Rightarrow> 'a list option" where
  "all_some [] = Some []"
| "all_some (None # xs) = None"
| "all_some (Some x # xs) = map_option (Cons x) (all_some xs)"

definition metrics_to_response :: "router \<Rightarrow> metrics \<Rightarrow> metrics_response option" where
  "metrics_to_response r m =
     (case (all_some (map (\<lambda>(tid, t). map_option (Pair tid) (tenant_to_response r tid t)) (per_tenant m)),
            percentiles (mt_route_latencies m), percentiles (mt_plan_latencies m)) of
        (Some reports, Some route_latency, Some plan_latency) \<Rightarrow> Some
          \<lparr>tr_total_routes = mt_total_routes m, tr_total_successful_routes = mt_total_successful_routes m,
           tr_total_reroutes = mt_total_reroutes m, tr_total_escalations = mt_total_escalations m,
           tr_escalation_rate = rate (mt_total_escalations m) (mt_total_routes m),
           tr_llm_calls_avoided = saturating_minus (mt_total_routes m) (mt_total_escalations m),
           tr_false_escalations = mt_false_escalations m,
           tr_false_escalation_rate = rate (mt_false_escalations m) (mt_total_routes m),
           tr_cache_hits = mt_cache_hits m, tr_cache_misses = mt_cache_misses m,
           tr_cache_hit_ratio = rate (mt_cache_hits m) (mt_cache_hits m + mt_cache_misses m),
           tr_node_health = node_health r DEFAULT_TENANT, tr_route_latency_us = route_latency,
           mr_total_plans = mt_total_plans m, mr_successful_plans = mt_successful_plans m,
           mr_recovery_plans = mt_recovery_plans m, mr_plan_latency_us = plan_latency, mr_tenants = reports\<rparr>
      | _ \<Rightarrow> None)"

section \<open>Exported instruments\<close>

datatype instrument = RouteTotal | RerouteTotal | EscalationTotal | FalseEscalationTotal | LlmCallsAvoided

datatype otel_call =
    CounterAdd instrument u64 "(string \<times> string) list"
  | LatencyRecord f64 "(string \<times> string) list"
  | NodeStateGauge u64 "(string \<times> string) list"

fun node_state_value :: "node_state \<Rightarrow> u64" where
  "node_state_value Healthy = 0"
| "node_state_value Degraded = 1"
| "node_state_value HalfOpen = 2"
| "node_state_value Open = 3"

definition otel_record_node_health :: "tenant_id \<Rightarrow> router \<Rightarrow> otel_call list" where
  "otel_record_node_health tid r = map (\<lambda>n.
     let st = (case node_state_of tid n r of None \<Rightarrow> Healthy | Some st \<Rightarrow> st)
     in NodeStateGauge (node_state_value st) [(''tenant'', tid), (''node'', n), (''state'', node_state_debug st)]) KNOWN_NODES"

definition otel_record_route :: "tenant_id \<Rightarrow> route_decision \<Rightarrow> duration \<Rightarrow> bool \<Rightarrow> bool \<Rightarrow> router \<Rightarrow> otel_call list" where
  "otel_record_route tid decision latency needless moved r =
     (let attrs = [(''tenant'', tid)]
      in [CounterAdd RouteTotal 1 attrs, LatencyRecord (f64_of_nat (as_micros latency)) attrs]
         @ (case decision of
              Routed _ \<Rightarrow> (if moved then [CounterAdd RerouteTotal 1 attrs] else []) @ [CounterAdd LlmCallsAvoided 1 attrs]
            | Escalate _ \<Rightarrow> CounterAdd EscalationTotal 1 attrs
                # (if needless then [CounterAdd FalseEscalationTotal 1 attrs] else []))
         @ otel_record_node_health tid r)"

definition otel_enabled :: "(string \<Rightarrow> string option) \<Rightarrow> bool" where
  "otel_enabled env = (case env ''TRUST_ROUTER_OTEL_STDOUT'' of
      None \<Rightarrow> False | Some v \<Rightarrow> v \<in> {''1'', ''true'', ''TRUE'', ''yes'', ''YES''})"

definition otel_interval :: "(string \<Rightarrow> string option) \<Rightarrow> duration" where
  "otel_interval env = (case env ''TRUST_ROUTER_OTEL_INTERVAL_MS'' of
      None \<Rightarrow> secs 60
    | Some v \<Rightarrow> (case parse_u64 v of None \<Rightarrow> secs 60 | Some ms \<Rightarrow> millis (unat ms)))"

text \<open>The calls made so far, or \<open>None\<close> when the export is off.\<close>

definition otel_from_env :: "(string \<Rightarrow> string option) \<Rightarrow> router \<Rightarrow> otel_call list option" where
  "otel_from_env env r = (if otel_enabled env then Some (otel_record_node_health DEFAULT_TENANT r) else None)"


section \<open>Percentiles\<close>

text \<open>For a whole percentage the index is the exact quotient, rounded twice.\<close>

definition percentile_rank :: "nat \<Rightarrow> nat \<Rightarrow> nat" where
  "percentile_rank n p = nat \<lfloor>rnd (of_nat (n * p) / 100) + 1/2\<rfloor>"

lemma percentile_rank_mono: "p \<le> q \<Longrightarrow> percentile_rank n p \<le> percentile_rank n q"
  unfolding percentile_rank_def
  by (intro nat_mono floor_mono add_right_mono rnd_mono divide_right_mono of_nat_mono) simp_all

lemma percentile_rank_le:
  assumes "p \<le> 100" "n \<le> 2 ^ 40"
  shows "percentile_rank n p \<le> n"
proof -
  have "of_nat (n * p) \<le> (of_nat (n * 100) :: rat)" using assms(1) by (intro of_nat_mono) simp
  then have "of_nat (n * p) / 100 \<le> (of_nat n :: rat)" by simp
  from rnd_mono [OF this] have "rnd (of_nat (n * p) / 100) \<le> of_nat n" using assms(2) by (simp add: rnd_of_nat)
  then have "\<lfloor>rnd (of_nat (n * p) / 100) + 1/2\<rfloor> \<le> \<lfloor>of_nat n + 1/2 :: rat\<rfloor>" by (intro floor_mono) simp
  also have "\<dots> = int n" by (simp add: floor_eq_iff)
  finally show ?thesis by (simp add: percentile_rank_def)
qed

lemma percentile_us_rank:
  assumes "xs \<noteq> []" "length xs \<le> 2 ^ 40" "p \<le> 100"
  shows "percentile_us xs (f64_lit (of_nat p)) = Some (as_micros (xs ! percentile_rank (length xs - 1) p))
    \<and> percentile_rank (length xs - 1) p < length xs"
proof -
  let ?n = "length xs - 1"
  have n: "?n \<le> 2 ^ 40" using assms(2) by simp
  have np: "?n * p \<le> 2 ^ 53" using mult_le_mono [OF n assms(3)] by simp
  have lit: "f64_lit (of_nat k) = Fin False (of_nat k)" if "k \<le> 100" for k
    using f64_lit_int [of "int k"] that by simp
  have mk: "mk_f64 False (of_nat k) = Fin False (of_nat k)" if "k \<le> 2 ^ 53" for k
    using f64_of_nat_small [OF that] by (simp add: f64_of_nat_def)
  have mul: "fmul (f64_of_nat ?n) (f64_lit (of_nat p)) = Fin False (of_nat (?n * p))"
    using mk [OF np] n assms(3) by (simp add: lit f64_of_nat_small)
  have "of_nat (?n * p) / 100 \<le> (of_nat ?n :: rat)"
    using of_nat_mono [of "?n * p" "?n * 100", where ?'a = rat] assms(3) by simp
  then have "fbounded (of_int (int ?n)) (mk_f64 False (of_nat (?n * p) / 100))"
    using n by (intro fbounded_mk) auto
  then have "mk_f64 False (of_nat (?n * p) / 100) = Fin False (rnd (of_nat (?n * p) / 100))"
    by (auto simp: mk_f64_def split: if_splits)
  then have div: "fdiv (Fin False (of_nat (?n * p))) (f64_lit 100) = Fin False (rnd (of_nat (?n * p) / 100))"
    using lit [of 100] by simp
  have le: "percentile_rank ?n p \<le> ?n" by (rule percentile_rank_le [OF assms(3) n])
  then have "percentile_rank ?n p \<le> 2 ^ 64 - 1" using n by simp
  then have "f64_to_nat (2 ^ 64 - 1) (fround (fdiv (fmul (f64_of_nat ?n) (f64_lit (of_nat p))) (f64_lit 100)))
      = percentile_rank ?n p"
    unfolding mul div percentile_rank_def by simp
  then show ?thesis using le assms(1) by (cases xs) (simp_all add: percentile_us_def Let_def)
qed

lemma from_sorted_ranks:
  assumes "xs \<noteq> []" "length xs \<le> 2 ^ 40"
  shows "from_sorted xs = Some \<lparr>p50 = as_micros (xs ! percentile_rank (length xs - 1) 50),
    p95 = as_micros (xs ! percentile_rank (length xs - 1) 95), p99 = as_micros (xs ! percentile_rank (length xs - 1) 99)\<rparr>"
  using percentile_us_rank [OF assms, of 50] percentile_us_rank [OF assms, of 95] percentile_us_rank [OF assms, of 99]
  by (simp add: from_sorted_def)

lemma percentiles_bounds:
  assumes "length w \<le> 2 ^ 40"
  obtains l where "percentiles w = Some l" "p50 l \<le> p95 l" "p95 l \<le> p99 l"
    "w = [] \<Longrightarrow> p99 l = 0" "w \<noteq> [] \<Longrightarrow> {p50 l, p95 l, p99 l} \<subseteq> as_micros ` set w"
proof (cases "w = []")
  case True
  then show ?thesis using that [of "\<lparr>p50 = 0, p95 = 0, p99 = 0\<rparr>"]
    by (simp add: percentiles_def from_sorted_def percentile_us_def)
next
  case False
  define s where "s = sort w"
  have s: "s \<noteq> []" "length s \<le> 2 ^ 40" "sorted s" "set s = set w" using assms False by (simp_all add: s_def sort_key_Nil_iff)
  let ?v = "\<lambda>p. s ! percentile_rank (length s - 1) p"
  have lt: "percentile_rank (length s - 1) p < length s" if "p \<le> 100" for p
    using percentile_us_rank [OF s(1,2) that] by simp
  have mono: "as_micros (?v p) \<le> as_micros (?v q)" if "p \<le> q" "q \<le> 100" for p q
    using sorted_nth_mono [OF s(3) percentile_rank_mono [OF that(1)] lt [OF that(2)]]
    by (simp add: as_micros_def div_le_mono)
  have mem: "?v p \<in> set w" if "p \<le> 100" for p using lt [OF that] s(4) nth_mem by blast
  show ?thesis
    using that [of "\<lparr>p50 = as_micros (?v 50), p95 = as_micros (?v 95), p99 = as_micros (?v 99)\<rparr>"]
      from_sorted_ranks [OF s(1,2)] mono [of 50 95] mono [of 95 99] mem [of 50] mem [of 95] mem [of 99] False
    by (simp add: percentiles_def s_def)
qed

lemma window_bounded: "length w \<le> WINDOW_LIMIT \<Longrightarrow> length (push_latency d w) \<le> WINDOW_LIMIT"
  by (auto simp: push_latency_def WINDOW_LIMIT_def)

section \<open>Accounting\<close>

lemma sum_update:
  fixes f :: "'v \<Rightarrow> 'a::ab_group_add"
  assumes "f d = 0"
  shows "sum_list (map (f \<circ> snd) (AList.update k v al)) = sum_list (map (f \<circ> snd) al) + f v - f (get_or d al k)"
  using assms by (induction al) (auto simp: get_or_def)

text \<open>A global counter is the sum of the counters of the tenants, and each decision counts once.\<close>

definition totals :: "(tenant_metrics \<Rightarrow> u64) \<Rightarrow> metrics \<Rightarrow> u64" where
  "totals f m = sum_list (map (f \<circ> snd) (per_tenant m))"

definition metrics_inv :: "metrics \<Rightarrow> bool" where
  "metrics_inv m \<longleftrightarrow>
     totals tm_total_routes m = mt_total_routes m
     \<and> totals tm_total_successful_routes m = mt_total_successful_routes m
     \<and> totals tm_total_reroutes m = mt_total_reroutes m
     \<and> totals tm_total_escalations m = mt_total_escalations m
     \<and> totals tm_false_escalations m = mt_false_escalations m
     \<and> totals tm_cache_hits m = mt_cache_hits m
     \<and> totals tm_cache_misses m = mt_cache_misses m
     \<and> mt_total_routes m = mt_total_successful_routes m + mt_total_escalations m
     \<and> mt_total_successful_routes m = mt_cache_hits m + mt_cache_misses m
     \<and> mt_total_plans m = mt_successful_plans m + mt_recovery_plans m
     \<and> length (mt_route_latencies m) \<le> WINDOW_LIMIT \<and> length (mt_plan_latencies m) \<le> WINDOW_LIMIT
     \<and> (\<forall>(tid, t) \<in> set (per_tenant m). length (tm_route_latencies t) \<le> WINDOW_LIMIT)"

lemma metrics_inv_default: "metrics_inv default_metrics"
  by (simp add: metrics_inv_def default_metrics_def totals_def)

lemma metrics_inv_plan:
  assumes "metrics_inv m"
  shows "metrics_inv (record_plan outcome latency m)"
proof -
  have "totals f (record_plan outcome latency m) = totals f m" for f
    by (cases outcome) (simp_all add: totals_def record_plan_def)
  moreover have "mt_total_plans (record_plan outcome latency m)
      = mt_successful_plans (record_plan outcome latency m) + mt_recovery_plans (record_plan outcome latency m)"
    using assms by (cases outcome) (simp_all add: metrics_inv_def record_plan_def)
  ultimately show ?thesis using assms
    by (cases outcome) (simp_all add: metrics_inv_def record_plan_def window_bounded)
qed

lemma zero_counters [simp]:
  "tm_total_routes default_tenant_metrics = 0" "tm_total_successful_routes default_tenant_metrics = 0"
  "tm_total_reroutes default_tenant_metrics = 0" "tm_total_escalations default_tenant_metrics = 0"
  "tm_false_escalations default_tenant_metrics = 0" "tm_cache_hits default_tenant_metrics = 0"
  "tm_cache_misses default_tenant_metrics = 0" "tm_route_latencies default_tenant_metrics = []"
  by (simp_all add: default_tenant_metrics_def)

lemma totals_update:
  "f default_tenant_metrics = 0 \<Longrightarrow> totals f (m\<lparr>per_tenant := AList.update tid t (per_tenant m')\<rparr>)
     = sum_list (map (f \<circ> snd) (per_tenant m')) + f t - f (get_or default_tenant_metrics (per_tenant m') tid)"
  unfolding totals_def by (simp add: sum_update)

lemma totals_step:
  assumes "f default_tenant_metrics = 0" "per_tenant m' = per_tenant m" "totals f m = c"
    and "c' - c = f t' - f (get_or default_tenant_metrics (per_tenant m) tid)"
  shows "totals f (m'\<lparr>per_tenant := AList.update tid t' (per_tenant m')\<rparr>) = c'"
  using assms by (simp add: totals_update) (simp add: totals_def algebra_simps)

lemma update_entry: "(k, v) \<in> set (AList.update k' v' al) \<Longrightarrow> (k, v) = (k', v') \<or> (k, v) \<in> set al"
  by (induction al) (auto split: if_splits)

text \<open>What one decision adds to counters that already count the call: the same to both levels.\<close>

definition counted :: "metrics \<Rightarrow> tenant_metrics \<Rightarrow> metrics \<Rightarrow> tenant_metrics \<Rightarrow> bool" where
  "counted m t m' t' \<longleftrightarrow>
     mt_total_routes m' = mt_total_routes m \<and> tm_total_routes t' = tm_total_routes t
     \<and> mt_total_successful_routes m' - mt_total_successful_routes m = tm_total_successful_routes t' - tm_total_successful_routes t
     \<and> mt_total_reroutes m' - mt_total_reroutes m = tm_total_reroutes t' - tm_total_reroutes t
     \<and> mt_total_escalations m' - mt_total_escalations m = tm_total_escalations t' - tm_total_escalations t
     \<and> mt_false_escalations m' - mt_false_escalations m = tm_false_escalations t' - tm_false_escalations t
     \<and> mt_cache_hits m' - mt_cache_hits m = tm_cache_hits t' - tm_cache_hits t
     \<and> mt_cache_misses m' - mt_cache_misses m = tm_cache_misses t' - tm_cache_misses t
     \<and> per_tenant m' = per_tenant m \<and> mt_route_latencies m' = mt_route_latencies m
     \<and> mt_plan_latencies m' = mt_plan_latencies m \<and> tm_route_latencies t' = tm_route_latencies t
     \<and> mt_total_plans m' = mt_total_plans m \<and> mt_successful_plans m' = mt_successful_plans m
     \<and> mt_recovery_plans m' = mt_recovery_plans m
     \<and> mt_total_successful_routes m' + mt_total_escalations m' = mt_total_successful_routes m + mt_total_escalations m + 1
     \<and> mt_cache_hits m' + mt_cache_misses m' - mt_total_successful_routes m'
         = mt_cache_hits m + mt_cache_misses m - mt_total_successful_routes m"

lemma record_routed_counted: "record_routed rt m t = (out, m', t') \<Longrightarrow> counted m t m' t'"
  unfolding record_routed_def Let_def counted_def by (auto split: if_splits)

lemma record_escalated_counted: "record_escalated needless m t = (out, m', t') \<Longrightarrow> counted m t m' t'"
  unfolding record_escalated_def Let_def counted_def by (auto split: if_splits)

lemma record_decision_counted: "record_decision decision needless m t = (out, m', t') \<Longrightarrow> counted m t m' t'"
  by (cases decision) (simp_all add: record_decision_def record_routed_counted record_escalated_counted)

lemma metrics_inv_route:
  assumes "metrics_inv m"
  shows "metrics_inv (snd (metrics_record_route tid decision latency r m))"
proof -
  define m0 where "m0 = m\<lparr>mt_total_routes := mt_total_routes m + 1, mt_route_latencies := push_latency latency (mt_route_latencies m)\<rparr>"
  define t0 where "t0 = get_or default_tenant_metrics (per_tenant m) tid"
  define t1 where "t1 = t0\<lparr>tm_total_routes := tm_total_routes t0 + 1, tm_route_latencies := push_latency latency (tm_route_latencies t0)\<rparr>"
  obtain out m' t' where step: "record_decision decision (penalty_path_available r tid) m0 t1 = (out, m', t')"
    by (metis surj_pair)
  let ?m' = "m'\<lparr>per_tenant := AList.update tid t' (per_tenant m')\<rparr>"
  have res: "snd (metrics_record_route tid decision latency r m) = ?m'"
    using step by (simp add: metrics_record_route_def Let_def m0_def t1_def t0_def)
  have m0: "mt_total_routes m0 = mt_total_routes m + 1" "mt_route_latencies m0 = push_latency latency (mt_route_latencies m)"
    "per_tenant m0 = per_tenant m" "mt_total_successful_routes m0 = mt_total_successful_routes m"
    "mt_total_reroutes m0 = mt_total_reroutes m" "mt_total_escalations m0 = mt_total_escalations m"
    "mt_false_escalations m0 = mt_false_escalations m" "mt_cache_hits m0 = mt_cache_hits m"
    "mt_cache_misses m0 = mt_cache_misses m" "mt_plan_latencies m0 = mt_plan_latencies m"
    "mt_total_plans m0 = mt_total_plans m" "mt_successful_plans m0 = mt_successful_plans m" "mt_recovery_plans m0 = mt_recovery_plans m"
    by (simp_all add: m0_def)
  have t1: "tm_total_routes t1 = tm_total_routes t0 + 1" "tm_route_latencies t1 = push_latency latency (tm_route_latencies t0)"
    "tm_total_successful_routes t1 = tm_total_successful_routes t0" "tm_total_reroutes t1 = tm_total_reroutes t0"
    "tm_total_escalations t1 = tm_total_escalations t0" "tm_false_escalations t1 = tm_false_escalations t0"
    "tm_cache_hits t1 = tm_cache_hits t0" "tm_cache_misses t1 = tm_cache_misses t0"
    by (simp_all add: t1_def)
  note c = record_decision_counted [OF step, unfolded counted_def m0 t1]
  have old: "totals tm_total_routes m = mt_total_routes m" "totals tm_total_successful_routes m = mt_total_successful_routes m"
    "totals tm_total_reroutes m = mt_total_reroutes m" "totals tm_total_escalations m = mt_total_escalations m"
    "totals tm_false_escalations m = mt_false_escalations m" "totals tm_cache_hits m = mt_cache_hits m"
    "totals tm_cache_misses m = mt_cache_misses m"
    "mt_total_routes m = mt_total_successful_routes m + mt_total_escalations m"
    "mt_total_successful_routes m = mt_cache_hits m + mt_cache_misses m"
    "mt_total_plans m = mt_successful_plans m + mt_recovery_plans m"
    "length (mt_route_latencies m) \<le> WINDOW_LIMIT" "length (mt_plan_latencies m) \<le> WINDOW_LIMIT"
    and windows: "\<forall>(tid, t) \<in> set (per_tenant m). length (tm_route_latencies t) \<le> WINDOW_LIMIT"
    using assms by (simp_all add: metrics_inv_def)
  have "length (tm_route_latencies t0) \<le> WINDOW_LIMIT"
    using windows by (auto simp: t0_def get_or_def split: option.split dest: map_of_SomeD)
  then have windows': "\<forall>(tid, t) \<in> set (AList.update tid t' (per_tenant m)). length (tm_route_latencies t) \<le> WINDOW_LIMIT"
    using windows c by (auto dest!: update_entry simp: window_bounded)
  have pt: "per_tenant m' = per_tenant m" using c by blast
  note new = totals_step [OF zero_counters(1) pt old(1)] totals_step [OF zero_counters(2) pt old(2)] totals_step [OF zero_counters(3) pt old(3)]
    totals_step [OF zero_counters(4) pt old(4)] totals_step [OF zero_counters(5) pt old(5)]
    totals_step [OF zero_counters(6) pt old(6)] totals_step [OF zero_counters(7) pt old(7)]
  have "mt_total_routes m' = mt_total_successful_routes m' + mt_total_escalations m'"
    "mt_total_successful_routes m' = mt_cache_hits m' + mt_cache_misses m'"
    using c old(8,9) by simp_all
  then show ?thesis unfolding res metrics_inv_def
    using c old(10-12) windows' by (intro conjI new) (simp_all add: window_bounded t0_def)
qed


text \<open>The metrics of a running sidecar: any sequence of recorded decisions and plans.\<close>

inductive metrics_reachable :: "metrics \<Rightarrow> bool" where
  metrics_new: "metrics_reachable default_metrics"
| metrics_route: "metrics_reachable m \<Longrightarrow> metrics_reachable (snd (metrics_record_route tid decision latency r m))"
| metrics_plan: "metrics_reachable m \<Longrightarrow> metrics_reachable (record_plan outcome latency m)"

lemma metrics_reachable_inv: "metrics_reachable m \<Longrightarrow> metrics_inv m"
  by (induction rule: metrics_reachable.induct) (simp_all add: metrics_inv_default metrics_inv_route metrics_inv_plan)

section \<open>The metrics as a count of the past\<close>

text \<open>What the sidecar has recorded, in order: decisions, with the router read for them, and plans.\<close>

datatype metric_event = SawRoute tenant_id route_decision duration router | SawPlan plan_outcome duration

fun note_event :: "metric_event \<Rightarrow> metrics \<Rightarrow> metrics" where
  "note_event (SawRoute tid decision latency r) m = snd (metrics_record_route tid decision latency r m)"
| "note_event (SawPlan outcome latency) m = record_plan outcome latency m"

definition metrics_after :: "metric_event list \<Rightarrow> metrics" where
  "metrics_after evs = fold note_event evs default_metrics"

definition decisions_of :: "tenant_id \<Rightarrow> metric_event list \<Rightarrow> (route_decision \<times> duration \<times> router) list" where
  "decisions_of tid evs = concat (map (\<lambda>ev. case ev of
      SawRoute t d l r \<Rightarrow> if t = tid then [(d, l, r)] else [] | SawPlan _ _ \<Rightarrow> []) evs)"

definition route_latencies_of :: "metric_event list \<Rightarrow> duration list" where
  "route_latencies_of evs = concat (map (\<lambda>ev. case ev of SawRoute _ _ l _ \<Rightarrow> [l] | SawPlan _ _ \<Rightarrow> []) evs)"

definition plans_of :: "metric_event list \<Rightarrow> (plan_outcome \<times> duration) list" where
  "plans_of evs = concat (map (\<lambda>ev. case ev of SawRoute _ _ _ _ \<Rightarrow> [] | SawPlan p l \<Rightarrow> [(p, l)]) evs)"

definition routes_of :: "(route_decision \<times> duration \<times> router) list \<Rightarrow> route list" where
  "routes_of ds = concat (map (\<lambda>(d, _, _). case d of Routed rt \<Rightarrow> [rt] | Escalate _ \<Rightarrow> []) ds)"

definition number :: "('a \<Rightarrow> bool) \<Rightarrow> 'a list \<Rightarrow> u64" where
  "number P xs = of_nat (length (filter P xs))"

definition newest :: "duration list \<Rightarrow> duration list" where
  "newest xs = drop (length xs - 4096) xs"

text \<open>How often a searched path differs from the path before it.\<close>

fun moves :: "route list \<Rightarrow> nat" where
  "moves (a # b # rs) = (if nodes a \<noteq> nodes b \<and> \<not> cache_hit b then 1 else 0) + moves (b # rs)"
| "moves _ = 0"

definition is_escalated :: "route_decision \<Rightarrow> bool" where
  "is_escalated d = (case d of Routed _ \<Rightarrow> False | Escalate _ \<Rightarrow> True)"

definition is_executed :: "plan_outcome \<Rightarrow> bool" where
  "is_executed p = (case p of Execute _ \<Rightarrow> True | Recover _ _ _ \<Rightarrow> False)"

text \<open>The account of a tenant: every field as a count over the tenant's decisions.\<close>

definition tenant_account :: "tenant_id \<Rightarrow> (route_decision \<times> duration \<times> router) list \<Rightarrow> tenant_metrics" where
  "tenant_account tid ds =
     (let rs = routes_of ds
      in \<lparr>tm_total_routes = of_nat (length ds),
          tm_total_successful_routes = of_nat (length rs),
          tm_total_reroutes = of_nat (moves rs),
          tm_total_escalations = number (\<lambda>(d, _, _). is_escalated d) ds,
          tm_false_escalations = number (\<lambda>(d, _, r). is_escalated d \<and> penalty_path_available r tid) ds,
          tm_cache_hits = number cache_hit rs,
          tm_cache_misses = number (\<lambda>rt. \<not> cache_hit rt) rs,
          last_successful_path = (if rs = [] then None else Some (nodes (last rs))),
          tm_route_latencies = newest (map (\<lambda>(_, l, _). l) ds)\<rparr>)"

lemma history_snoc [simp]:
  "metrics_after (evs @ [ev]) = note_event ev (metrics_after evs)"
  "decisions_of tid (evs @ [ev]) = decisions_of tid evs
     @ (case ev of SawRoute t d l r \<Rightarrow> if t = tid then [(d, l, r)] else [] | SawPlan _ _ \<Rightarrow> [])"
  "route_latencies_of (evs @ [ev]) = route_latencies_of evs @ (case ev of SawRoute _ _ l _ \<Rightarrow> [l] | SawPlan _ _ \<Rightarrow> [])"
  "plans_of (evs @ [ev]) = plans_of evs @ (case ev of SawRoute _ _ _ _ \<Rightarrow> [] | SawPlan p l \<Rightarrow> [(p, l)])"
  "routes_of (ds @ [(d, l, r)]) = routes_of ds @ (case d of Routed rt \<Rightarrow> [rt] | Escalate _ \<Rightarrow> [])"
  "number P (xs @ [x]) = number P xs + (if P x then 1 else 0)"
  by (simp_all add: metrics_after_def decisions_of_def route_latencies_of_def plans_of_def routes_of_def number_def)

lemma newest_snoc [simp]: "newest (xs @ [d]) = push_latency d (newest xs)"
proof (cases "length xs < 4096")
  case False
  then have "Suc (length xs) - 4096 = Suc (length xs - 4096)" by linarith
  then show ?thesis using False by (simp add: newest_def push_latency_def WINDOW_LIMIT_def drop_Suc tl_drop)
qed (simp add: newest_def push_latency_def WINDOW_LIMIT_def)

lemma moves_snoc [simp]:
  "moves (rs @ [b]) = moves rs + (if rs \<noteq> [] \<and> nodes (last rs) \<noteq> nodes b \<and> \<not> cache_hit b then 1 else 0)"
  by (induction rs rule: moves.induct) simp_all

lemma history_Nil [simp]:
  "metrics_after [] = default_metrics" "decisions_of tid [] = []" "route_latencies_of [] = []" "plans_of [] = []"
  "routes_of [] = []" "number P [] = 0" "newest [] = []" "tenant_account tid [] = default_tenant_metrics"
  by (simp_all add: metrics_after_def decisions_of_def route_latencies_of_def plans_of_def routes_of_def number_def
      newest_def tenant_account_def default_tenant_metrics_def)

lemma metrics_after_reachable: "metrics_reachable (metrics_after evs)"
proof (induction evs rule: rev_induct)
  case (snoc ev evs)
  then show ?case by (cases ev) (simp_all add: metrics_route metrics_plan)
qed (simp add: metrics_new)

text \<open>One decision, for the tenant and for the others.\<close>

lemma decision_account:
  "snd (snd (record_decision d (penalty_path_available r tid) m ((tenant_account tid ds)\<lparr>
      tm_total_routes := tm_total_routes (tenant_account tid ds) + 1,
      tm_route_latencies := push_latency l (tm_route_latencies (tenant_account tid ds))\<rparr>)))
   = tenant_account tid (ds @ [(d, l, r)])"
  by (cases d) (simp_all add: record_decision_def record_routed_def record_escalated_def tenant_account_def
      is_escalated_def Let_def)

lemma tenant_of_route:
  "map_of (per_tenant (snd (metrics_record_route tid d l r m))) tid' =
     (if tid' = tid
      then (let t = get_or default_tenant_metrics (per_tenant m) tid
            in Some (snd (snd (record_decision d (penalty_path_available r tid)
                 (m\<lparr>mt_total_routes := mt_total_routes m + 1, mt_route_latencies := push_latency l (mt_route_latencies m)\<rparr>)
                 (t\<lparr>tm_total_routes := tm_total_routes t + 1, tm_route_latencies := push_latency l (tm_route_latencies t)\<rparr>)))))
      else map_of (per_tenant m) tid')"
proof -
  obtain out m' t' where step: "record_decision d (penalty_path_available r tid)
      (m\<lparr>mt_total_routes := mt_total_routes m + 1, mt_route_latencies := push_latency l (mt_route_latencies m)\<rparr>)
      ((get_or default_tenant_metrics (per_tenant m) tid)\<lparr>
         tm_total_routes := tm_total_routes (get_or default_tenant_metrics (per_tenant m) tid) + 1,
         tm_route_latencies := push_latency l (tm_route_latencies (get_or default_tenant_metrics (per_tenant m) tid))\<rparr>)
      = (out, m', t')" by (metis surj_pair)
  from record_decision_counted [OF step] have "per_tenant m' = per_tenant m" by (simp add: counted_def)
  with step show ?thesis by (simp add: metrics_record_route_def Let_def map_laws)
qed

lemma tenant_accounted:
  "map_of (per_tenant (metrics_after evs)) tid =
     (if decisions_of tid evs = [] then None else Some (tenant_account tid (decisions_of tid evs)))"
proof (induction evs arbitrary: tid rule: rev_induct)
  case (snoc ev evs)
  have t: "get_or default_tenant_metrics (per_tenant (metrics_after evs)) t = tenant_account t (decisions_of t evs)" for t
    by (simp add: get_or_def snoc)
  show ?case
    by (cases ev) (simp_all add: snoc t tenant_of_route decision_account Let_def record_plan_def split: plan_outcome.split)
qed (simp add: default_metrics_def)

lemma global_of_route:
  "mt_total_routes (snd (metrics_record_route tid d l r m)) = mt_total_routes m + 1"
  "mt_route_latencies (snd (metrics_record_route tid d l r m)) = push_latency l (mt_route_latencies m)"
  "mt_plan_latencies (snd (metrics_record_route tid d l r m)) = mt_plan_latencies m"
  "mt_total_plans (snd (metrics_record_route tid d l r m)) = mt_total_plans m"
  "mt_successful_plans (snd (metrics_record_route tid d l r m)) = mt_successful_plans m"
  "mt_recovery_plans (snd (metrics_record_route tid d l r m)) = mt_recovery_plans m"
  by (cases d; simp add: metrics_record_route_def record_decision_def record_routed_def record_escalated_def Let_def)+

lemma global_accounted:
  "mt_total_routes (metrics_after evs) = of_nat (length (route_latencies_of evs))
   \<and> mt_route_latencies (metrics_after evs) = newest (route_latencies_of evs)
   \<and> mt_total_plans (metrics_after evs) = of_nat (length (plans_of evs))
   \<and> mt_successful_plans (metrics_after evs) = number (\<lambda>(p, _). is_executed p) (plans_of evs)
   \<and> mt_recovery_plans (metrics_after evs) = number (\<lambda>(p, _). \<not> is_executed p) (plans_of evs)
   \<and> mt_plan_latencies (metrics_after evs) = newest (map snd (plans_of evs))"
proof (induction evs rule: rev_induct)
  case (snoc ev evs)
  show ?case
  proof (cases ev)
    case (SawPlan p l)
    then show ?thesis using snoc by (cases p) (simp_all add: record_plan_def is_executed_def)
  qed (use snoc in \<open>simp add: global_of_route\<close>)
qed (simp add: default_metrics_def)

section \<open>Properties\<close>

text \<open>
  C27: The metrics account for the past: after any sequence of recorded decisions and plans a tenant has
  an entry exactly when one of its calls was recorded, and every field of it is the count over its own
  calls (each call once, as a hit, a miss or an escalation; a searched path that differs from the one
  before as a re-route; the newest 4096 latencies); all seven global counters are the sums over the
  tenants, the plans are counted by outcome, and the global windows hold the newest 4096 latencies.
  Counters are read modulo their width.
\<close>
theorem metrics_accounting:
  "map_of (per_tenant (metrics_after evs)) tid =
       (if decisions_of tid evs = [] then None else Some (tenant_account tid (decisions_of tid evs)))
   \<and> mt_total_routes (metrics_after evs) = totals tm_total_routes (metrics_after evs)
   \<and> mt_total_successful_routes (metrics_after evs) = totals tm_total_successful_routes (metrics_after evs)
   \<and> mt_total_reroutes (metrics_after evs) = totals tm_total_reroutes (metrics_after evs)
   \<and> mt_total_escalations (metrics_after evs) = totals tm_total_escalations (metrics_after evs)
   \<and> mt_false_escalations (metrics_after evs) = totals tm_false_escalations (metrics_after evs)
   \<and> mt_cache_hits (metrics_after evs) = totals tm_cache_hits (metrics_after evs)
   \<and> mt_cache_misses (metrics_after evs) = totals tm_cache_misses (metrics_after evs)
   \<and> mt_total_routes (metrics_after evs) = of_nat (length (route_latencies_of evs))
   \<and> mt_total_plans (metrics_after evs) = of_nat (length (plans_of evs))
   \<and> mt_successful_plans (metrics_after evs) = number (\<lambda>(p, _). is_executed p) (plans_of evs)
   \<and> mt_recovery_plans (metrics_after evs) = number (\<lambda>(p, _). \<not> is_executed p) (plans_of evs)
   \<and> mt_route_latencies (metrics_after evs) = newest (route_latencies_of evs)
   \<and> mt_plan_latencies (metrics_after evs) = newest (map snd (plans_of evs))"
  using tenant_accounted [of evs tid] global_accounted [of evs]
    metrics_reachable_inv [OF metrics_after_reachable [of evs]]
  by (simp add: metrics_inv_def)

lemma metrics_report:
  assumes "metrics_reachable m"
  shows "\<exists>resp. metrics_to_response r m = Some resp
    \<and> p50 (tr_route_latency_us resp) \<le> p95 (tr_route_latency_us resp)
    \<and> p95 (tr_route_latency_us resp) \<le> p99 (tr_route_latency_us resp)
    \<and> (if mt_route_latencies m = [] then p99 (tr_route_latency_us resp) = 0
       else {p50 (tr_route_latency_us resp), p95 (tr_route_latency_us resp), p99 (tr_route_latency_us resp)}
              \<subseteq> as_micros ` set (mt_route_latencies m))
    \<and> map fst (mr_tenants resp) = map fst (per_tenant m)"
proof -
  have w: "WINDOW_LIMIT \<le> 2 ^ 40" by (simp add: WINDOW_LIMIT_def)
  have inv: "length (mt_route_latencies m) \<le> WINDOW_LIMIT" "length (mt_plan_latencies m) \<le> WINDOW_LIMIT"
    "\<forall>(tid, t) \<in> set (per_tenant m). length (tm_route_latencies t) \<le> WINDOW_LIMIT"
    using metrics_reachable_inv [OF assms] by (simp_all add: metrics_inv_def)
  obtain l where l: "percentiles (mt_route_latencies m) = Some l" "p50 l \<le> p95 l" "p95 l \<le> p99 l"
    "mt_route_latencies m = [] \<Longrightarrow> p99 l = 0"
    "mt_route_latencies m \<noteq> [] \<Longrightarrow> {p50 l, p95 l, p99 l} \<subseteq> as_micros ` set (mt_route_latencies m)"
    using percentiles_bounds [OF order_trans [OF inv(1) w]] by metis
  obtain pl where pl: "percentiles (mt_plan_latencies m) = Some pl"
    using percentiles_bounds [OF order_trans [OF inv(2) w]] by metis
  have "\<exists>ts. all_some (map (\<lambda>(tid, t). map_option (Pair tid) (tenant_to_response r tid t)) xs) = Some ts \<and> map fst ts = map fst xs"
    if "\<forall>(tid, t) \<in> set xs. length (tm_route_latencies t) \<le> WINDOW_LIMIT" for xs
    using that
  proof (induction xs)
    case (Cons x xs)
    obtain tid t where x: "x = (tid, t)" by (cases x)
    have "length (tm_route_latencies t) \<le> WINDOW_LIMIT" using Cons.prems x by simp
    then obtain tl where "percentiles (tm_route_latencies t) = Some tl"
      using percentiles_bounds [OF order_trans [OF _ w]] by metis
    then show ?case using Cons x by (auto simp: tenant_to_response_def)
  qed simp
  then obtain ts where "all_some (map (\<lambda>(tid, t). map_option (Pair tid) (tenant_to_response r tid t)) (per_tenant m)) = Some ts"
    "map fst ts = map fst (per_tenant m)" using inv(3) by blast
  then show ?thesis using l pl by (simp add: metrics_to_response_def)
qed

lemma metrics_report_exists: "metrics_reachable m \<Longrightarrow> \<exists>resp. metrics_to_response r m = Some resp"
  using metrics_report by blast

text \<open>
  A metrics report is always produced (no percentile index is out of range), and its route
  percentiles are ordered samples of the window, in microseconds, or all zero when it is empty.
\<close>
theorem metrics_report_total:
  assumes "metrics_reachable m"
  shows "\<exists>resp. metrics_to_response r m = Some resp
    \<and> p50 (tr_route_latency_us resp) \<le> p95 (tr_route_latency_us resp)
    \<and> p95 (tr_route_latency_us resp) \<le> p99 (tr_route_latency_us resp)
    \<and> (if mt_route_latencies m = [] then p99 (tr_route_latency_us resp) = 0
       else {p50 (tr_route_latency_us resp), p95 (tr_route_latency_us resp), p99 (tr_route_latency_us resp)}
              \<subseteq> as_micros ` set (mt_route_latencies m))
    \<and> map fst (mr_tenants resp) = map fst (per_tenant m)"
  using metrics_report [OF assms] .

theorem metrics_report_total_witness: "\<exists>resp :: metrics_response. metrics_to_response router_new default_metrics = Some resp"
  using metrics_report_total [OF metrics_new] by blast

text \<open>
  The re-route counter does not look at what was asked: a routed miss counts as a re-route
  exactly when its path differs from the tenant's previous one, also when the two calls asked for
  different goals and no node's health changed in between.
\<close>
theorem reroutes_ignore_the_request:
  "rerouted (fst (metrics_record_route tid (Routed rt2) d2 r2 (snd (metrics_record_route tid (Routed rt1) d1 r1 m))))
     \<longleftrightarrow> nodes rt1 \<noteq> nodes rt2 \<and> \<not> cache_hit rt2"
proof -
  have last: "last_successful_path (get_or default_tenant_metrics (per_tenant (snd (metrics_record_route tid (Routed rt1) d1 r1 m))) tid)
      = Some (nodes rt1)"
    unfolding metrics_record_route_def record_decision_def record_routed_def Let_def
    by (simp add: get_or_update split: prod.split)
  show ?thesis
    unfolding metrics_record_route_def [of tid "Routed rt2"] record_decision_def record_routed_def Let_def
    using last by (simp split: prod.split)
qed

end
