(* ===== verification/Sidecar.thy ===== *)
theory Sidecar
  imports SidecarMetrics
begin

text \<open>
  The HTTP service of \<open>src/src/bin/trust-router-sidecar.rs\<close>: authentication, rate limiting, the
  handlers of its routes and the start-up.  The web framework, the clock, the file system and the
  JSON printer are outside the sources: a handler gets the parsed request with the text of its
  \<open>x-api-key\<close> header, and the record \<open>effects\<close> of what its calls to the outside give.  Other
  requests run concurrently; what they do to the router between a routing and the reading of the
  audit log is the function \<open>meanwhile\<close>, which is the identity for a request that runs alone.
\<close>

section \<open>Errors and responses\<close>

datatype sidecar_error =
  BadRequest string | Unauthorized | Forbidden | RateLimited nat | Internal string

datatype route_response =
    RoutedResponse "node_id list" f64 bool
  | EscalateResponse string "node_id list"

datatype plan_response =
    ExecuteResponse u8 "node_id list" f64 bool "node_id list"
  | RecoverResponse string "node_id list" "string list"

record error_body =
  err_code :: string
  err_message :: string
  err_request_id :: string

record batch_response =
  br_results :: "route_response list"
  br_total_routed :: nat
  br_total_escalated :: nat
  br_duration_us :: nat

datatype body =
    HealthResponse bool | OkResponse bool | ErrorResponse error_body | ForceHalfOpenResponse bool
  | RouteBody route_response | BatchBody batch_response | PlanBody plan_response | MetricsBody metrics_response

text \<open>The status, the headers the sidecar sets itself, and the body.\<close>

record http_response =
  rs_status :: nat
  rs_headers :: "(string, string) hmap"
  rs_body :: body

definition response_with_request_id :: "string \<Rightarrow> http_response \<Rightarrow> http_response" where
  "response_with_request_id rid resp =
     (let h = AList.update ''x-request-id'' rid (rs_headers resp)
      in resp\<lparr>rs_headers := AList.update ''x-content-type-options'' ''nosniff'' h\<rparr>)"

fun error_parts :: "sidecar_error \<Rightarrow> nat \<times> string \<times> string \<times> nat option" where
  "error_parts (BadRequest message) = (400, ''invalid_request'', message, None)"
| "error_parts Unauthorized = (401, ''unauthorized'', ''missing or invalid API key'', None)"
| "error_parts Forbidden = (403, ''tenant_not_authorized'', ''API key is not authorized for this tenant'', None)"
| "error_parts (RateLimited wait) = (429, ''rate_limited'', ''request rate limit exceeded'', Some wait)"
| "error_parts (Internal message) = (500, ''internal_error'', ''internal service error'', None)"

definition error_response :: "string \<Rightarrow> sidecar_error \<Rightarrow> http_response" where
  "error_response rid e =
     (let (status, code, message, retry_after) = error_parts e;
          resp = \<lparr>rs_status = status, rs_headers = [],
                  rs_body = ErrorResponse \<lparr>err_code = code, err_message = message, err_request_id = rid\<rparr>\<rparr>;
          resp = (case retry_after of None \<Rightarrow> resp
                  | Some wait \<Rightarrow> resp\<lparr>rs_headers := AList.update ''retry-after'' (decimal wait) (rs_headers resp)\<rparr>)
      in response_with_request_id rid resp)"

definition ok_response :: "string \<Rightarrow> body \<Rightarrow> http_response" where
  "ok_response rid b = response_with_request_id rid \<lparr>rs_status = 200, rs_headers = [], rs_body = b\<rparr>"

fun response_of_decision :: "route_decision \<Rightarrow> route_response" where
  "response_of_decision (Routed rt) = RoutedResponse (nodes rt) (total_cost rt) (cache_hit rt)"
| "response_of_decision (Escalate c) = EscalateResponse (escalation_reason_debug (ec_reason c)) (failed_or_blocked_nodes c)"

fun response_of_plan :: "plan_outcome \<Rightarrow> plan_response" where
  "response_of_plan (Execute p) = ExecuteResponse (ep_schema_version p) (ca_nodes (ep_candidate p))
     (ca_score (ep_candidate p)) (ss_cache_hit (ep_snapshot p)) (map es_node (ep_steps p))"
| "response_of_plan (Recover s c rp) =
     RecoverResponse (escalation_reason_debug (ec_reason c)) (failed_or_blocked_nodes c) (rp_steps rp)"

section \<open>Request data\<close>

definition sidecar_validate_identifier :: "string \<Rightarrow> string \<Rightarrow> sidecar_error + unit" where
  "sidecar_validate_identifier field v =
     (if v = [] \<or> length v > 128 then Inl (BadRequest (field @ '' must be 1-128 characters''))
      else if \<not> list_all id_char v then Inl (BadRequest (field @ '' contains invalid characters''))
      else Inr ())"

record route_query =
  rq_tenant :: tenant_id
  rq_start :: node_id
  rq_goal :: node_id

definition route_query_validate :: "route_query \<Rightarrow> sidecar_error + unit" where
  "route_query_validate q =
     and_then (sidecar_validate_identifier ''tenant'' (rq_tenant q)) (\<lambda>_.
     and_then (sidecar_validate_identifier ''start'' (rq_start q)) (\<lambda>_.
     sidecar_validate_identifier ''goal'' (rq_goal q)))"

record result_query =
  sq_tenant :: tenant_id
  sq_node :: node_id
  sq_success :: bool
  sq_latency_ms :: u64

definition result_query_validate :: "result_query \<Rightarrow> sidecar_error + unit" where
  "result_query_validate q =
     and_then (sidecar_validate_identifier ''tenant'' (sq_tenant q)) (\<lambda>_.
     and_then (sidecar_validate_identifier ''node'' (sq_node q)) (\<lambda>_.
     if sq_latency_ms q > 600000 then Inl (BadRequest ''latency_ms is too large'') else Inr ()))"

record force_query =
  fq_tenant :: tenant_id
  fq_node :: node_id

definition force_query_validate :: "force_query \<Rightarrow> sidecar_error + unit" where
  "force_query_validate q =
     and_then (sidecar_validate_identifier ''tenant'' (fq_tenant q)) (\<lambda>_.
     sidecar_validate_identifier ''node'' (fq_node q))"

section \<open>The API key\<close>

definition byte_at :: "string \<Rightarrow> nat \<Rightarrow> u8" where
  "byte_at s i = (if i < length s then of_char (s ! i) else 0)"

unbundle bit_operations_syntax

definition constant_time_eq :: "string \<Rightarrow> string \<Rightarrow> bool" where
  "constant_time_eq left right =
     (fold (\<lambda>i diff. diff OR unat (byte_at left i XOR byte_at right i)) [0..<max (length left) (length right)]
        (length left XOR length right) = 0)"


text \<open>The text of the \<open>x-api-key\<close> header, when there is one and it is text.\<close>

definition require_api_key :: "string option \<Rightarrow> string \<Rightarrow> sidecar_error + unit" where
  "require_api_key header expected =
     (case header of
        None \<Rightarrow> Inl Unauthorized
      | Some actual \<Rightarrow> if constant_time_eq actual expected then Inr () else Inl Unauthorized)"

section \<open>The state of the service\<close>

record app_state =
  app_router :: router
  audit_file :: string
  app_api_key :: string
  app_allowed_tenants :: "tenant_id set"
  rate_limiter :: token_bucket
  next_request_id :: u64
  app_metrics :: metrics
  app_otel :: "otel_call list option"

record effects =
  clock :: "nat \<Rightarrow> instant"
  elapsed :: "nat \<Rightarrow> duration"
  file_io :: io_calls
  json_text :: "json \<Rightarrow> string"
  io_text :: "io_error \<Rightarrow> string"
  meanwhile :: "nat \<Rightarrow> router \<Rightarrow> router"

definition hex_digit :: "nat \<Rightarrow> char" where
  "hex_digit d = char_of (if d < 10 then 48 + d else 87 + d)"

definition hex16 :: "u64 \<Rightarrow> string" where
  "hex16 w = map (\<lambda>i. hex_digit (unat w div 16 ^ (15 - i) mod 16)) [0..<16]"

definition request_id :: "app_state \<Rightarrow> string \<times> app_state" where
  "request_id st = (''tr-'' @ hex16 (next_request_id st), st\<lparr>next_request_id := next_request_id st + 1\<rparr>)"

definition retry_after_secs :: "duration \<Rightarrow> nat" where
  "retry_after_secs d = max (d div 1000000000) 1"

text \<open>\<open>None\<close> is a panic.\<close>

definition authorize_request ::
  "instant \<Rightarrow> string option \<Rightarrow> tenant_id option \<Rightarrow> app_state \<Rightarrow> (sidecar_error + unit) option \<times> app_state" where
  "authorize_request now header tid st =
     (case require_api_key header (app_api_key st) of
        Inl e \<Rightarrow> (Some (Inl e), st)
      | Inr _ \<Rightarrow>
          if (case tid of None \<Rightarrow> False | Some t \<Rightarrow> t \<notin> app_allowed_tenants st) then (Some (Inl Forbidden), st)
          else (let (res, b) = try_acquire_at now (rate_limiter st)
                in (map_option (case_sum (\<lambda>d. Inl (RateLimited (retry_after_secs d))) (\<lambda>_. Inr ())) res,
                    st\<lparr>rate_limiter := b\<rparr>)))"

section \<open>Routing and planning\<close>

definition persist_before_response ::
  "effects \<Rightarrow> audit_event \<Rightarrow> string \<Rightarrow> (sidecar_error + unit) \<times> string" where
  "persist_before_response eff event file =
     (case append_events_jsonl (json_text eff) (file_io eff) [event] file of
        (Inl e, file') \<Rightarrow> (Inl (Internal (''audit persistence failed: '' @ io_text eff e)), file')
      | (Inr _, file') \<Rightarrow> (Inr (), file'))"

definition otel_log :: "otel_call list \<Rightarrow> app_state \<Rightarrow> app_state" where
  "otel_log calls st = st\<lparr>app_otel := map_option (\<lambda>c. c @ calls) (app_otel st)\<rparr>"

text \<open>Counting a decision, in memory and in the export.\<close>

definition note_decision :: "tenant_id \<Rightarrow> route_decision \<Rightarrow> duration \<Rightarrow> app_state \<Rightarrow> app_state" where
  "note_decision tid d latency st =
     (let (outcome, m) = metrics_record_route tid d latency (app_router st) (app_metrics st)
      in otel_log (otel_record_route tid d latency (false_escalation outcome) (rerouted outcome) (app_router st))
           (st\<lparr>app_metrics := m\<rparr>))"

definition handle_route :: "effects \<Rightarrow> route_query \<Rightarrow> app_state \<Rightarrow> (sidecar_error + body) \<times> app_state" where
  "handle_route eff q st =
     (let (decision, r) = route_request (rq_tenant q) (rq_start q) (rq_goal q) (app_router st);
          st = st\<lparr>app_router := meanwhile eff 0 r\<rparr>
      in case last_audit_event (app_router st) of
           None \<Rightarrow> (Inl (Internal ''route did not create an audit event''), st)
         | Some event \<Rightarrow>
             (case persist_before_response eff event (audit_file st) of
                (Inl e, file) \<Rightarrow> (Inl e, st\<lparr>audit_file := file\<rparr>)
              | (Inr _, file) \<Rightarrow>
                  (Inr (RouteBody (response_of_decision decision)),
                   note_decision (rq_tenant q) decision (elapsed eff 0) (st\<lparr>audit_file := file\<rparr>))))"

definition handle_plan :: "effects \<Rightarrow> route_query \<Rightarrow> app_state \<Rightarrow> (sidecar_error + body) \<times> app_state" where
  "handle_plan eff q st =
     (let (res, r) = plan planner_new \<lparr>pr_tenant_id = rq_tenant q, pr_start = rq_start q, pr_goal = rq_goal q\<rparr> (app_router st);
          st = st\<lparr>app_router := meanwhile eff 0 r\<rparr>
      in case res of
           Inl e \<Rightarrow> (Inl (BadRequest (planning_error_display decimal e)), st)
         | Inr outcome \<Rightarrow>
             (case last_audit_event (app_router st) of
                None \<Rightarrow> (Inl (Internal ''planner did not create an audit event''), st)
              | Some event \<Rightarrow>
                  (case persist_before_response eff event (audit_file st) of
                     (Inl e, file) \<Rightarrow> (Inl e, st\<lparr>audit_file := file\<rparr>)
                   | (Inr _, file) \<Rightarrow>
                       (Inr (PlanBody (response_of_plan outcome)),
                        st\<lparr>audit_file := file, app_metrics := record_plan outcome (elapsed eff 0) (app_metrics st)\<rparr>))))"

section \<open>Handlers\<close>

definition respond :: "string \<Rightarrow> (sidecar_error + body) option \<Rightarrow> http_response option" where
  "respond rid res = map_option (case_sum (error_response rid) (ok_response rid)) res"

text \<open>\<open>query.validate().and_then(|_| authorize_request(..))\<close>, then the work of the handler.\<close>

definition guarded ::
  "sidecar_error + unit \<Rightarrow> instant \<Rightarrow> string option \<Rightarrow> tenant_id option
   \<Rightarrow> (app_state \<Rightarrow> (sidecar_error + body) option \<times> app_state) \<Rightarrow> app_state \<Rightarrow> http_response option \<times> app_state" where
  "guarded valid now header tid work st =
     (let (rid, st) = request_id st
      in case (case valid of Inl e \<Rightarrow> (Some (Inl e), st) | Inr _ \<Rightarrow> authorize_request now header tid st) of
           (None, st) \<Rightarrow> (None, st)
         | (Some (Inl e), st) \<Rightarrow> (Some (error_response rid e), st)
         | (Some (Inr _), st) \<Rightarrow> (let (res, st) = work st in (respond rid res, st)))"

definition healthz :: "app_state \<Rightarrow> http_response option \<times> app_state" where
  "healthz st = (Some \<lparr>rs_status = 200, rs_headers = [], rs_body = HealthResponse True\<rparr>, st)"

definition metrics_handler :: "effects \<Rightarrow> string option \<Rightarrow> app_state \<Rightarrow> http_response option \<times> app_state" where
  "metrics_handler eff header = guarded (Inr ()) (clock eff 0) header None
     (\<lambda>st. (map_option (Inr \<circ> MetricsBody) (metrics_to_response (app_router st) (app_metrics st)), st))"

definition route_handler :: "effects \<Rightarrow> string option \<Rightarrow> route_query \<Rightarrow> app_state \<Rightarrow> http_response option \<times> app_state" where
  "route_handler eff header q = guarded (route_query_validate q) (clock eff 0) header (Some (rq_tenant q))
     (\<lambda>st. map_prod Some id (handle_route eff q st))"

definition plan_handler :: "effects \<Rightarrow> string option \<Rightarrow> route_query \<Rightarrow> app_state \<Rightarrow> http_response option \<times> app_state" where
  "plan_handler eff header q = guarded (route_query_validate q) (clock eff 0) header (Some (rq_tenant q))
     (\<lambda>st. map_prod Some id (handle_plan eff q st))"

definition result_handler :: "effects \<Rightarrow> string option \<Rightarrow> result_query \<Rightarrow> app_state \<Rightarrow> http_response option \<times> app_state" where
  "result_handler eff header q = guarded (result_query_validate q) (clock eff 0) header (Some (sq_tenant q))
     (\<lambda>st. let st = st\<lparr>app_router := record_result (clock eff 1) (sq_tenant q) (sq_node q) (sq_success q)
                                        (sq_latency_ms q) (app_router st)\<rparr>
           in (Some (Inr (OkResponse True)), otel_log (otel_record_node_health (sq_tenant q) (app_router st)) st))"

definition force_half_open_handler :: "effects \<Rightarrow> string option \<Rightarrow> force_query \<Rightarrow> app_state \<Rightarrow> http_response option \<times> app_state" where
  "force_half_open_handler eff header q = guarded (force_query_validate q) (clock eff 0) header (Some (fq_tenant q))
     (\<lambda>st. let (changed, r) = force_half_open (fq_tenant q) (fq_node q) (app_router st);
               st = st\<lparr>app_router := r\<rparr>
           in (Some (Inr (ForceHalfOpenResponse changed)),
               if changed then otel_log (otel_record_node_health (fq_tenant q) r) st else st))"

section \<open>Batches\<close>

fun check_items :: "tenant_id set \<Rightarrow> route_query list \<Rightarrow> sidecar_error + unit" where
  "check_items allowed [] = Inr ()"
| "check_items allowed (item # items) =
     and_then (route_query_validate item)
       (\<lambda>_. if rq_tenant item \<notin> allowed then Inl Forbidden else check_items allowed items)"

record batch =
  bt_results :: "route_response list"
  bt_routed :: nat
  bt_escalated :: nat
  bt_events :: "audit_event list"

definition batch_item :: "effects \<Rightarrow> nat \<Rightarrow> route_query \<Rightarrow> batch \<times> app_state \<Rightarrow> batch \<times> app_state" where
  "batch_item eff i item acc =
     (let (b, st) = acc;
          (decision, r) = route_request (rq_tenant item) (rq_start item) (rq_goal item) (app_router st);
          st = st\<lparr>app_router := meanwhile eff i r\<rparr>;
          b = (case last_audit_event (app_router st) of None \<Rightarrow> b | Some ev \<Rightarrow> b\<lparr>bt_events := bt_events b @ [ev]\<rparr>);
          b = (case decision of
                 Routed _ \<Rightarrow> b\<lparr>bt_routed := bt_routed b + 1\<rparr>
               | Escalate _ \<Rightarrow> b\<lparr>bt_escalated := bt_escalated b + 1\<rparr>)
      in (b\<lparr>bt_results := bt_results b @ [response_of_decision decision]\<rparr>,
          note_decision (rq_tenant item) decision (elapsed eff i) st))"

fun batch_loop :: "effects \<Rightarrow> nat \<Rightarrow> route_query list \<Rightarrow> batch \<times> app_state \<Rightarrow> batch \<times> app_state" where
  "batch_loop eff i [] acc = acc"
| "batch_loop eff i (item # items) acc = batch_loop eff (Suc i) items (batch_item eff i item acc)"

definition run_batch :: "effects \<Rightarrow> route_query list \<Rightarrow> app_state \<Rightarrow> (sidecar_error + body) \<times> app_state" where
  "run_batch eff items st =
     (let (b, st) = batch_loop eff 0 items (\<lparr>bt_results = [], bt_routed = 0, bt_escalated = 0, bt_events = []\<rparr>, st)
      in case append_events_jsonl (json_text eff) (file_io eff) (bt_events b) (audit_file st) of
           (Inl e, file) \<Rightarrow>
             (Inl (Internal (''batch audit persistence failed: '' @ io_text eff e)), st\<lparr>audit_file := file\<rparr>)
         | (Inr _, file) \<Rightarrow>
             (Inr (BatchBody \<lparr>br_results = bt_results b, br_total_routed = bt_routed b,
                br_total_escalated = bt_escalated b, br_duration_us = as_micros (elapsed eff (length items))\<rparr>),
              st\<lparr>audit_file := file\<rparr>))"

definition batch_route_handler ::
  "effects \<Rightarrow> string option \<Rightarrow> route_query list \<Rightarrow> app_state \<Rightarrow> http_response option \<times> app_state" where
  "batch_route_handler eff header items st =
     (let (rid, st) = request_id st
      in if items = [] then (Some (error_response rid (BadRequest ''batch requests list must not be empty'')), st)
      else if length items > 1024
      then (Some (error_response rid (BadRequest ''batch size exceeds limit of 1024'')), st)
      else case require_api_key header (app_api_key st) of
        Inl e \<Rightarrow> (Some (error_response rid e), st)
      | Inr _ \<Rightarrow> (case check_items (app_allowed_tenants st) items of
            Inl e \<Rightarrow> (Some (error_response rid e), st)
          | Inr _ \<Rightarrow>
              (let (res, b) = acquire_all (map (clock eff) [0..<length items]) (rate_limiter st);
                   st = st\<lparr>rate_limiter := b\<rparr>
               in case res of
                    None \<Rightarrow> (None, st)
                  | Some (Inl d) \<Rightarrow> (Some (error_response rid (RateLimited (retry_after_secs d))), st)
                  | Some (Inr _) \<Rightarrow> (let (out, st) = run_batch eff items st in (respond rid (Some out), st)))))"

section \<open>The service\<close>

datatype request =
    Healthz
  | MetricsRequest "string option"
  | RouteRequest "string option" route_query
  | BatchRequest "string option" "route_query list"
  | PlanRequest "string option" route_query
  | ResultRequest "string option" result_query
  | ForceRequest "string option" force_query

fun serve :: "effects \<Rightarrow> request \<Rightarrow> app_state \<Rightarrow> http_response option \<times> app_state" where
  "serve eff Healthz st = healthz st"
| "serve eff (MetricsRequest h) st = metrics_handler eff h st"
| "serve eff (RouteRequest h q) st = route_handler eff h q st"
| "serve eff (BatchRequest h qs) st = batch_route_handler eff h qs st"
| "serve eff (PlanRequest h q) st = plan_handler eff h q st"
| "serve eff (ResultRequest h q) st = result_handler eff h q st"
| "serve eff (ForceRequest h q) st = force_half_open_handler eff h q st"

definition demo_tenant_edges :: "edge list" where
  "demo_tenant_edges =
     [edge_with_costs (f64_lit 1) (f64_lit (1/1000)) 120 (f64_lit (1/10)) (edge_new ''start'' ''primary_search''),
      edge_with_costs (f64_lit 1) (f64_lit (2/1000)) 320 (f64_lit (2/10)) (edge_new ''primary_search'' ''summarize''),
      edge_with_costs (f64_lit 10) (f64_lit (1/100)) 1000 (f64_lit 1) (edge_new ''start'' ''fallback_search''),
      edge_with_costs (f64_lit 5) (f64_lit (5/1000)) 800 (f64_lit (5/10)) (edge_new ''fallback_search'' ''summarize''),
      edge_with_costs (f64_lit 1) (f64_lit (1/1000)) 120 (f64_lit (1/10)) (edge_new ''summarize'' ''done'')]"

definition build_demo_router :: "'addr sidecar_config \<Rightarrow> router_error + router" where
  "build_demo_router cfg =
     (let r = add_tenant DEFAULT_TENANT router_new
      in case try_set_cost_model DEFAULT_TENANT (cfg_cost_model cfg) r of
           (Inl e, _) \<Rightarrow> Inl e
         | (Inr _, r) \<Rightarrow> (case try_set_health_policy DEFAULT_TENANT (cfg_health_policy cfg) r of
               (Inl e, _) \<Rightarrow> Inl e
             | (Inr _, r) \<Rightarrow> Inr (fold (add_edge DEFAULT_TENANT) demo_tenant_edges r)))"

definition start_sidecar ::
  "(string \<Rightarrow> string option) \<Rightarrow> instant \<Rightarrow> string \<Rightarrow> 'addr sidecar_config \<Rightarrow> router_error + app_state" where
  "start_sidecar env now file cfg =
     (case build_demo_router cfg of
        Inl e \<Rightarrow> Inl e
      | Inr r \<Rightarrow> Inr \<lparr>app_router = r, audit_file = file, app_api_key = cfg_api_key cfg,
          app_allowed_tenants = set (allowed_tenants cfg), rate_limiter = bucket_new now (rate_limit cfg),
          next_request_id = 1, app_metrics = default_metrics, app_otel = otel_from_env env r\<rparr>)"

end
