(* ===== verification/RouterLiveness.thy ===== *)
theory RouterLiveness
  imports RouterProps
begin

text \<open>
  Completeness of routing: whenever a usable path exists, a routing call returns one.  The search
  gives up only on infinite costs, so this needs that the rounded cost of a usable path is finite,
  which holds for cost models whose weights are not astronomically large.
\<close>

section \<open>The cost of a usable hop is finite\<close>

text \<open>The weights of the model add up to at most \<open>2 ^ 64\<close>; the default weights add up to one.\<close>

definition moderate_model :: "tenant_cost_model \<Rightarrow> bool" where
  "moderate_model m \<longleftrightarrow> cost_model_validate m = Inr () \<and> f_le (max_weight m) (Fin False (2 ^ 64))"

lemma default_model_moderate: "moderate_model default_cost_model"
  by code_simp

lemma node_penalty_bounded:
  assumes "health_ok h" "\<forall>t. map_of h (id_to_node g ! unat v) = Some t \<longrightarrow> ht_state t \<noteq> Open"
  shows "fbounded (2 ^ 66) (health_penalty h g v)"
proof (cases "map_of h (id_to_node g ! unat v)")
  case (Some t)
  then have "fbounded 1 (success_rate t)" "ht_state t \<noteq> Open"
    using assms health_ok_lookup [OF assms(1) Some] by (auto simp: ht_inv_def)
  then show ?thesis using penalty_finite [of t] Some by (simp add: health_penalty_def)
qed (simp add: health_penalty_def)

lemma bounded_sum:
  assumes "fge0 a" "f_le a (Fin False (2 ^ 64))" "fbounded (2 ^ 66) b"
  shows "fbounded (2 ^ 67) (fadd a b)"
proof -
  obtain y where b: "b = Fin False y" "0 \<le> y" "y \<le> 2 ^ 66" using assms(3) by (elim fboundedE)
  obtain s x where a: "a = Fin s x" "0 \<le> x" "x \<le> 2 ^ 64" "fge0 (Fin s x)"
    using assms(1,2) by (cases a) (auto simp: f_le_def signed_def split: if_splits)
  have "x + y \<le> 2 ^ 67" using a b by simp
  from fbounded_mk_pow [OF this] show ?thesis using a b by (simp add: fadd_fge0 del: fadd.simps)
qed

lemma usable_hop_cost:
  assumes "wf_graph g" "wf_cost_model m" "moderate_model m" "health_ok h"
    and "usable_hop h g a b" "map_of (node_to_id g) a = Some i"
  obtains j w where "map_of (node_to_id g) b = Some j" "(j, w) \<in> set (hops h m g i)" "fbounded (2 ^ 67) w"
proof -
  from assms(5,6) obtain e where e: "e \<in> set (adjacency g ! unat i)" "id_to_node g ! unat (ie_to e) = b"
      "ie_enabled e" "ie_is_valid e" and up: "\<forall>t. map_of h b = Some t \<longrightarrow> ht_state t \<noteq> Open"
    by (auto simp: usable_hop_def)
  have "unat i < length (id_to_node g)" using assms(1,6) by (simp add: wf_graph_lookup)
  then have "adjacency g ! unat i \<in> set (adjacency g)" using assms(1) by (simp add: wf_graph_def)
  with e(1) have ie: "wf_ie e" "unat (ie_to e) < length (id_to_node g)" using assms(1) by (auto simp: wf_graph_def)
  have "fge0 (ie_weight m e) \<and> f_le (ie_weight m e) (max_weight m)"
    using assms(2,3) ie(1) e(4) by (intro ie_weight_bounds) (simp_all add: moderate_model_def)
  then have w: "fge0 (ie_weight m e)" "f_le (ie_weight m e) (Fin False (2 ^ 64))"
    using assms(3) f_le_trans by (auto simp: moderate_model_def)
  let ?w = "fadd (ie_weight m e) (health_penalty h g (ie_to e))"
  have b: "fbounded (2 ^ 67) ?w" using w up e(2) by (intro bounded_sum node_penalty_bounded assms(4)) simp_all
  then have "edge_cost h m g e = Some ?w"
    using e(3,4) by (auto simp: edge_cost_def Let_def elim!: fboundedE)
  with e(1) have "(ie_to e, ?w) \<in> set (hops h m g i)"
    by (force simp: hops_def List.map_filter_def)
  moreover have "map_of (node_to_id g) b = Some (ie_to e)"
    using assms(1) e(2) ie(2) by (simp add: wf_graph_lookup)
  ultimately show thesis using that b by blast
qed

lemma rnd_multiple: "n \<le> 2 ^ 53 \<Longrightarrow> rnd (of_nat n * 2 ^ 67) = of_nat n * 2 ^ 67"
  using rnd_fixed [of "int n" 67] by (simp add: power_int_def)

lemma bounded_step:
  assumes "fbounded (of_nat k * 2 ^ 67) d" "fbounded (2 ^ 67) w" "Suc k \<le> 2 ^ 53"
  shows "fbounded (of_nat (Suc k) * 2 ^ 67) (fadd d w)"
proof -
  obtain x y where d: "d = Fin False x" "0 \<le> x" "x \<le> of_nat k * 2 ^ 67"
    and w: "w = Fin False y" "0 \<le> y" "y \<le> 2 ^ 67"
    using assms(1,2) by (elim fboundedE)
  have "x + y \<le> of_nat (Suc k) * 2 ^ 67" using d w by (simp add: distrib_right)
  then have le: "rnd (x + y) \<le> of_nat (Suc k) * 2 ^ 67"
    using rnd_mono rnd_multiple [OF assms(3)] by metis
  also have "\<dots> \<le> 2 ^ 53 * 2 ^ 67" using of_nat_mono [OF assms(3), where ?'a = rat] by simp
  also have "\<dots> \<le> max_mag" by (simp add: max_mag_def)
  finally show ?thesis using d w le by (simp add: fadd_fin_nonneg mk_f64_def del: fadd.simps)
qed

lemma usable_path_costed:
  assumes "wf_graph g" "wf_cost_model m" "moderate_model m" "health_ok h"
    and "map_of (node_to_id g) a = Some s"
  shows "successively (usable_hop h g) (a # p) \<Longrightarrow> length p \<le> 2 ^ 53 \<Longrightarrow>
    \<exists>q t d. costed_path (hops h m g) s q t d \<and> map_of (node_to_id g) (last (a # p)) = Some t
      \<and> fbounded (of_nat (length p) * 2 ^ 67) d"
proof (induction p rule: rev_induct)
  case Nil
  then show ?case using assms(5) cp_start [of "hops h m g" s] by force
next
  case (snoc b p)
  have hop: "usable_hop h g (last (a # p)) b" and pre: "successively (usable_hop h g) (a # p)"
    using snoc.prems(1) successively_append_iff [of "usable_hop h g" "a # p" "[b]"] by auto
  obtain q t d where q: "costed_path (hops h m g) s q t d" "map_of (node_to_id g) (last (a # p)) = Some t"
      "fbounded (of_nat (length p) * 2 ^ 67) d"
    using snoc.IH [OF pre] snoc.prems(2) by auto
  obtain j w where j: "map_of (node_to_id g) b = Some j" "(j, w) \<in> set (hops h m g t)" "fbounded (2 ^ 67) w"
    using usable_hop_cost [OF assms(1-4) hop q(2)] by blast
  have "fbounded (of_nat (length (p @ [b])) * 2 ^ 67) (fadd d w)"
    using bounded_step [OF q(3) j(3)] snoc.prems(2) by simp
  with cp_hop [OF q(1) j(2)] j(1) show ?case by auto
qed

section \<open>Completeness\<close>

definition simple_path :: "tenant_state \<Rightarrow> node_id \<Rightarrow> node_id \<Rightarrow> node_id list \<Rightarrow> bool" where
  "simple_path t start goal p \<longleftrightarrow> p \<noteq> [] \<and> hd p = start \<and> last p = goal \<and> distinct p
     \<and> successively (usable_hop (health t) (graph t)) p"

lemma usable_hop_known:
  "wf_graph g \<Longrightarrow> usable_hop h g a b \<Longrightarrow> a \<in> set (id_to_node g) \<and> b \<in> set (id_to_node g)"
proof -
  assume g: "wf_graph g" and "usable_hop h g a b"
  then obtain i e where i: "map_of (node_to_id g) a = Some i" "e \<in> set (adjacency g ! unat i)"
      "id_to_node g ! unat (ie_to e) = b" by (auto simp: usable_hop_def)
  then have a: "unat i < length (id_to_node g)" "id_to_node g ! unat i = a" using g by (simp_all add: wf_graph_lookup)
  then have "adjacency g ! unat i \<in> set (adjacency g)" using g by (simp add: wf_graph_def)
  then have "unat (ie_to e) < length (id_to_node g)" using g i(2) by (auto simp: wf_graph_def)
  with a i(3) show ?thesis by (metis nth_mem)
qed

lemma usable_path_nodes:
  "wf_graph g \<Longrightarrow> successively (usable_hop h g) p \<Longrightarrow> 2 \<le> length p \<Longrightarrow> set p \<subseteq> set (id_to_node g)"
proof (induction p rule: induct_list012)
  case (3 a b p)
  then show ?case using usable_hop_known [of g h a b] by (cases p) auto
qed simp_all

lemma known_node:
  assumes "wf_graph g" "n \<in> set (id_to_node g)"
  obtains i where "map_of (node_to_id g) n = Some i"
proof -
  obtain k where k: "k < length (id_to_node g)" "id_to_node g ! k = n" using assms(2) by (auto simp: in_set_conv_nth)
  then have "unat (of_nat k :: u32) = k" using assms(1) by (intro unat_of_nat_u32) (simp add: wf_graph_def)
  with k show thesis using that [of "of_nat k"] assms(1) by (simp add: wf_graph_lookup)
qed

lemma search_complete:
  assumes "tenant_inv t" "moderate_model (cost_model t)" "simple_path t start goal p"
  shows "shortest_path (health t) (cost_model t) (graph t) start goal \<noteq> None"
proof (cases "start = goal")
  case False
  let ?g = "graph t"
  have inv: "wf_graph ?g" "wf_cost_model (cost_model t)" "health_ok (health t)"
    using assms(1) by (simp_all add: tenant_inv_def)
  have p: "successively (usable_hop (health t) ?g) p" "distinct p" "p \<noteq> []" "hd p = start" "last p = goal"
    using assms(3) by (simp_all add: simple_path_def)
  then obtain q where q1: "p = start # q" by (cases p) auto
  have q2: "q \<noteq> []" using p(5) False q1 by auto
  note q = q1 q2
  have sub: "set p \<subseteq> set (id_to_node ?g)" using usable_path_nodes [OF inv(1) p(1)] q by (cases q) auto
  then have "length p \<le> length (id_to_node ?g)"
    using p(2) card_mono [OF _ sub] inv(1) by (simp add: distinct_card wf_graph_def)
  then have len: "length q \<le> 2 ^ 53" using inv(1) q(1) by (simp add: wf_graph_def)
  have "start \<in> set (id_to_node ?g)" using sub q(1) by simp
  then obtain s where s: "map_of (node_to_id ?g) start = Some s"
    using inv(1) known_node by blast
  obtain c u d where d: "costed_path (hops (health t) (cost_model t) ?g) s c u d"
      "map_of (node_to_id ?g) goal = Some u" "fbounded (of_nat (length q) * 2 ^ 67) d"
    using usable_path_costed [OF inv(1,2) assms(2) inv(3) s, of q] p(1,5) q len by auto
  then have "d \<noteq> f_inf" by (auto elim!: fboundedE)
  then show ?thesis
    using shortest_path_search(1) [OF inv s d(2) False] d(1)
    by (cases "shortest_path (health t) (cost_model t) ?g start goal") (auto simp: optimal_route_def)
qed (simp add: shortest_path_def)


text \<open>Both forms of a routing call decide the existence of a simple usable path.\<close>

lemma slow_complete:
  assumes "router_reachable r" "map_of (tenants r) tid = Some t" "moderate_model (cost_model t)"
    and "simple_path t start goal p"
  obtains rt where "fst (route_slow tid start goal r) = Routed rt"
proof -
  have "tenant_inv t" using router_inv_tenant [OF router_reachable_inv [OF assms(1)] assms(2)] .
  then have "shortest_path (health t) (cost_model t) (graph t) start goal \<noteq> None"
    using assms(3,4) by (rule search_complete)
  then show thesis
    using that assms(2) by (cases rule: route_slow_cases [where r = r and tid = tid and start = start and goal = goal]) auto
qed

lemma routed_simple:
  assumes "router_reachable r" "map_of (tenants r) tid = Some t" "fst (route_request tid start goal r) = Routed rt"
  shows "simple_path t start goal (nodes rt)"
proof -
  have "fst (route_slow tid start goal r) = Routed rt \<or> fst (route_fast tid start goal r) = Some (Routed rt)"
    using assms(3) by (auto simp: route_request_def split: prod.splits option.splits)
  from routed_paths_safe [OF assms(1) this] show ?thesis using assms(2) by (simp add: simple_path_def)
qed

lemma request_complete:
  assumes "router_reachable r" "map_of (tenants r) tid = Some t" "moderate_model (cost_model t)"
  shows "(\<exists>rt. fst (route_request tid start goal r) = Routed rt) \<longleftrightarrow> (\<exists>p. simple_path t start goal p)"
proof
  assume "\<exists>p. simple_path t start goal p"
  then obtain rt where slow: "fst (route_slow tid start goal r) = Routed rt"
    using slow_complete [OF assms] by blast
  show "\<exists>rt. fst (route_request tid start goal r) = Routed rt"
  proof (cases "fst (route_fast tid start goal r)")
    case None
    then show ?thesis using slow by (auto simp: route_request_def split: prod.split)
  next
    case (Some d)
    then have "route_fast tid start goal r = (Some d, snd (route_fast tid start goal r))" by (simp add: prod_eq_iff)
    then obtain c where "d = Routed (cached_route c)" by (rule route_fast_cases) blast
    then show ?thesis using Some by (auto simp: route_request_def split: prod.split)
  qed
qed (use routed_simple [OF assms(1,2)] in blast)

text \<open>
  C2: Routing is complete.  In every reachable state, for a tenant whose validated weights add up
  to at most \<open>2 ^ 64\<close> (the default ones add up to one), a routing call is answered with a route
  exactly when the tenant's present graph has a simple path of enabled, valid edges from start to
  goal that enters no open node: the router never escalates while a usable path exists.
\<close>
theorem routing_is_complete:
  assumes "router_reachable r" "map_of (tenants r) tid = Some t" "moderate_model (cost_model t)"
  shows "(\<exists>rt. fst (route_request tid start goal r) = Routed rt)
    \<longleftrightarrow> (\<exists>p. p \<noteq> [] \<and> hd p = start \<and> last p = goal \<and> distinct p
          \<and> successively (usable_hop (health t) (graph t)) p)"
  using request_complete [OF assms] by (simp add: simple_path_def)

lemma demo_hop: "usable_hop [] (graph_add_edge (edge_new ''a'' ''b'') empty_graph) ''a'' ''b''"
proof -
  let ?g = "graph_add_edge (edge_new ''a'' ''b'') empty_graph"
  have "map_of (node_to_id ?g) ''a'' = Some 0" "id_to_node ?g = [''a'', ''b'']"
    "adjacency ?g = [[index_edge 1 (edge_new ''a'' ''b'')], []]"
    by code_simp+
  moreover have "ie_enabled (index_edge 1 (edge_new ''a'' ''b''))" "ie_is_valid (index_edge 1 (edge_new ''a'' ''b''))"
    by code_simp+
  ultimately show ?thesis by (simp add: usable_hop_def index_edge_def)
qed

theorem routing_is_complete_witness:
  "\<exists>rt. fst (route_request ''t'' ''a'' ''b'' demo_router) = Routed rt"
proof -
  have "moderate_model (cost_model (default_tenant\<lparr>graph := graph_add_edge (edge_new ''a'' ''b'') empty_graph\<rparr>))"
    using default_model_moderate by (simp add: default_tenant_def)
  from routing_is_complete [OF demo_router_reachable demo_router_tenants this, of "''a''" "''b''"]
  show ?thesis using demo_hop exI [of _ "[''a'', ''b'']"] by (simp add: default_tenant_def)
qed

section \<open>Routers built by adding edges\<close>

lemma length_insert_node: "length (id_to_node (snd (get_or_insert_node n g))) \<le> length (id_to_node g) + 1"
  by (simp add: get_or_insert_node_def Let_def split: option.split)

lemma length_add_edge: "length (id_to_node (graph_add_edge e g)) \<le> length (id_to_node g) + 2"
proof -
  let ?g1 = "snd (get_or_insert_node (edge_from e) g)"
  have "id_to_node (graph_add_edge e g) = id_to_node (snd (get_or_insert_node (edge_to e) ?g1))"
    by (simp add: graph_add_edge_def Let_def case_prod_unfold)
  then show ?thesis using length_insert_node [of "edge_to e" ?g1] length_insert_node [of "edge_from e" g] by simp
qed

definition node_count :: "tenant_id \<Rightarrow> router \<Rightarrow> nat" where
  "node_count tid r = length (id_to_node (graph (tenant_or_default r tid)))"

lemma node_count_add_edge: "node_count tid (add_edge tid e r) \<le> node_count tid r + 2"
  using length_add_edge by (simp add: node_count_def add_edge_def Let_def tenant_or_default_def get_or_def
      tenants_put invalidate_all_cache_def)

lemma add_edges_reachable:
  "router_reachable r \<Longrightarrow> \<forall>e \<in> set es. wf_edge e \<Longrightarrow> node_count tid r + 2 * length es < 2 ^ 32 - 1
   \<Longrightarrow> router_reachable (fold (add_edge tid) es r)"
proof (induction es arbitrary: r)
  case (Cons e es)
  have "router_reachable (add_edge tid e r)"
    using Cons.prems by (intro reach_step [OF _ step_add_edge]) (simp_all add: node_count_def)
  then show ?case using Cons.IH [of "add_edge tid e r"] Cons.prems node_count_add_edge [of tid e r] by simp
qed simp

end
