(* ===== verification/SidecarProps.thy ===== *)
theory SidecarProps
  imports Sidecar RouterLiveness
begin

text \<open>
  What the HTTP service promises: only authorised requests touch the service, no request makes a
  handler panic, routes that are served are safe and recorded, and a batch does what its items
  would do one by one.
\<close>

section \<open>Comparing keys\<close>

unbundle bit_operations_syntax

lemma fold_or_zero:
  "fold (\<lambda>i diff. diff OR f i) xs a = (0::nat) \<longleftrightarrow> a = 0 \<and> (\<forall>i \<in> set xs. f i = 0)"
  by (induction xs arbitrary: a) (auto simp: or_eq_0_iff)

lemma xor_nat_zero: "a XOR b = 0 \<longleftrightarrow> a = (b :: nat)"
  by (auto simp: bit_eq_iff bit_xor_iff)

lemma xor_byte_zero: "a XOR b = 0 \<longleftrightarrow> a = (b :: u8)"
  by (auto simp: bit_eq_iff bit_xor_iff)


lemma byte_of_char_inject: "(of_char c :: u8) = of_char d \<longleftrightarrow> c = d"
proof -
  have u: "unat (of_char x :: u8) = of_char x" for x
    using of_nat_of_char [of x, where ?'a = u8] of_char_mod_256 [of x, where ?'a = nat]
    by (simp add: unat_of_nat flip: of_nat_of_char [where ?'a = u8])
  show ?thesis by (metis u of_char_eq_iff)
qed

lemma constant_time_eq_iff: "constant_time_eq left right \<longleftrightarrow> left = right"
proof -
  have "constant_time_eq left right \<longleftrightarrow> length left = length right
      \<and> (\<forall>i < max (length left) (length right). byte_at left i = byte_at right i)"
    by (simp add: constant_time_eq_def fold_or_zero xor_nat_zero xor_byte_zero unat_eq_zero Ball_def)
  also have "\<dots> \<longleftrightarrow> left = right"
    by (auto simp: byte_at_def byte_of_char_inject list_eq_iff_nth_eq)
  finally show ?thesis .
qed

text \<open>
  The comparison of API keys, which inspects every byte of the longer key, decides equality:
  padding the shorter key with zero bytes never makes two different keys equal.
\<close>
theorem constant_time_eq_is_equality: "constant_time_eq left right \<longleftrightarrow> left = right"
  by (rule constant_time_eq_iff)

section \<open>Refused requests\<close>

lemma require_api_key_cases:
  "require_api_key header k = (if header = Some k then Inr () else Inl Unauthorized)"
proof -
  have "constant_time_eq a k \<longleftrightarrow> a = k" for a
    by (simp add: constant_time_eq_iff)
  then show ?thesis by (auto simp: require_api_key_def split: option.split)
qed

text \<open>The errors that need no token.\<close>

definition refusal :: "sidecar_error \<Rightarrow> bool" where
  "refusal e \<longleftrightarrow> (\<exists>m. e = BadRequest m) \<or> e = Unauthorized \<or> e = Forbidden"

lemma refusal_simps [simp]:
  "refusal (BadRequest m)" "refusal Unauthorized" "refusal Forbidden" "\<not> refusal (RateLimited n)" "\<not> refusal (Internal m)"
  by (simp_all add: refusal_def)

lemma refusal_status: "refusal e \<Longrightarrow> rs_status (error_response rid e) \<in> {400, 401, 403}"
  by (cases e) (auto simp: error_response_def response_with_request_id_def Let_def)

lemma sidecar_validate_identifier_iff: "sidecar_validate_identifier field v = Inr () \<longleftrightarrow> valid_identifier v"
  by (auto simp: sidecar_validate_identifier_def valid_identifier_def)

lemma sidecar_validate_identifier_refusal: "sidecar_validate_identifier field v = Inl e \<Longrightarrow> refusal e"
  by (auto simp: sidecar_validate_identifier_def split: if_splits)

lemma and_then_Inl: "and_then x f = Inl e \<longleftrightarrow> x = Inl e \<or> (\<exists>v. x = Inr v \<and> f v = Inl e)"
  by (cases x) simp_all

lemma query_validate_refusal:
  "route_query_validate q = Inl e \<Longrightarrow> refusal e"
  "result_query_validate q' = Inl e \<Longrightarrow> refusal e"
  "force_query_validate q'' = Inl e \<Longrightarrow> refusal e"
  by (auto simp: route_query_validate_def result_query_validate_def force_query_validate_def and_then_Inl
      split: if_splits dest: sidecar_validate_identifier_refusal)

lemma query_validate_iff:
  "route_query_validate q = Inr () \<longleftrightarrow> valid_identifier (rq_tenant q) \<and> valid_identifier (rq_start q) \<and> valid_identifier (rq_goal q)"
  "result_query_validate q' = Inr () \<longleftrightarrow> valid_identifier (sq_tenant q') \<and> valid_identifier (sq_node q') \<and> sq_latency_ms q' \<le> 600000"
  "force_query_validate q'' = Inr () \<longleftrightarrow> valid_identifier (fq_tenant q'') \<and> valid_identifier (fq_node q'')"
  by (auto simp: route_query_validate_def result_query_validate_def force_query_validate_def and_then_Inr
      sidecar_validate_identifier_iff not_less)

lemma check_items_refusal: "check_items allowed items = Inl e \<Longrightarrow> refusal e"
  by (induction items) (auto simp: and_then_Inl split: if_splits dest: query_validate_refusal)

lemma check_items_iff:
  "check_items allowed items = Inr () \<longleftrightarrow> (\<forall>q \<in> set items. route_query_validate q = Inr () \<and> rq_tenant q \<in> allowed)"
  by (induction items) (auto simp: and_then_Inr)

text \<open>A request may act: its key is the configured one, its fields are well formed, and its tenants allowed.\<close>

fun authorized :: "app_state \<Rightarrow> request \<Rightarrow> bool" where
  "authorized st Healthz = True"
| "authorized st (MetricsRequest h) = (h = Some (app_api_key st))"
| "authorized st (RouteRequest h q) =
     (h = Some (app_api_key st) \<and> route_query_validate q = Inr () \<and> rq_tenant q \<in> app_allowed_tenants st)"
| "authorized st (BatchRequest h qs) =
     (h = Some (app_api_key st) \<and> qs \<noteq> [] \<and> length qs \<le> 1024
      \<and> (\<forall>q \<in> set qs. route_query_validate q = Inr () \<and> rq_tenant q \<in> app_allowed_tenants st))"
| "authorized st (PlanRequest h q) =
     (h = Some (app_api_key st) \<and> route_query_validate q = Inr () \<and> rq_tenant q \<in> app_allowed_tenants st)"
| "authorized st (ResultRequest h q) =
     (h = Some (app_api_key st) \<and> result_query_validate q = Inr () \<and> sq_tenant q \<in> app_allowed_tenants st)"
| "authorized st (ForceRequest h q) =
     (h = Some (app_api_key st) \<and> force_query_validate q = Inr () \<and> fq_tenant q \<in> app_allowed_tenants st)"

lemma request_id_fields [simp]:
  "app_api_key (snd (request_id st)) = app_api_key st"
  "app_allowed_tenants (snd (request_id st)) = app_allowed_tenants st"
  "rate_limiter (snd (request_id st)) = rate_limiter st" "app_router (snd (request_id st)) = app_router st"
  "audit_file (snd (request_id st)) = audit_file st" "app_metrics (snd (request_id st)) = app_metrics st"
  "app_otel (snd (request_id st)) = app_otel st"
  by (simp_all add: request_id_def)

definition refused_by :: "app_state \<Rightarrow> http_response option \<times> app_state \<Rightarrow> bool" where
  "refused_by st out \<longleftrightarrow>
     (\<exists>rid e. refusal e \<and> fst out = Some (error_response rid e)) \<and> snd out = snd (request_id st)"

lemma refused_byI: "refusal e \<Longrightarrow> refused_by st (Some (error_response rid e), snd (request_id st))"
  by (auto simp: refused_by_def)

lemma guarded_refused:
  assumes "\<And>e. valid = Inl e \<Longrightarrow> refusal e"
    and "valid \<noteq> Inr () \<or> header \<noteq> Some (app_api_key st) \<or> (\<exists>t. tid = Some t \<and> t \<notin> app_allowed_tenants st)"
  shows "refused_by st (guarded valid now header tid work st)"
proof (cases valid)
  case (Inl e)
  then show ?thesis using assms(1) by (simp add: guarded_def Let_def case_prod_unfold refused_byI)
next
  case (Inr u)
  define e where "e = (if header = Some (app_api_key st) then Forbidden else Unauthorized)"
  have "refusal e" "authorize_request now header tid (snd (request_id st)) = (Some (Inl e), snd (request_id st))"
    using assms(2) Inr by (auto simp: e_def authorize_request_def require_api_key_cases split: option.split)
  then show ?thesis using Inr by (simp add: guarded_def Let_def case_prod_unfold refused_byI)
qed

lemma batch_refused:
  assumes "\<not> authorized st (BatchRequest header items)"
  shows "refused_by st (batch_route_handler eff header items st)"
proof (cases "items = [] \<or> 1024 < length items \<or> header \<noteq> Some (app_api_key st)")
  case True
  then show ?thesis
    by (auto simp: batch_route_handler_def Let_def case_prod_unfold require_api_key_cases refused_byI)
next
  case False
  then have "check_items (app_allowed_tenants st) items \<noteq> Inr ()" using assms by (auto simp: check_items_iff)
  then obtain e where e: "check_items (app_allowed_tenants st) items = Inl e"
    by (cases "check_items (app_allowed_tenants st) items") auto
  then show ?thesis using False check_items_refusal [OF e]
    by (simp add: batch_route_handler_def Let_def case_prod_unfold require_api_key_cases refused_byI)
qed

lemma unauthorized_refused:
  assumes "\<not> authorized st req"
  shows "refused_by st (serve eff req st)"
  using assms
  by (cases req)
     (auto simp: metrics_handler_def route_handler_def plan_handler_def result_handler_def force_half_open_handler_def
       intro!: guarded_refused batch_refused dest: query_validate_refusal)

text \<open>
  C5: A request without the configured key, with a malformed field, or for a tenant that is not
  allowed is answered 400, 401 or 403 and has no effect: the router, the audit file, the metrics
  and the exported telemetry stay as they are, and it takes no token, so it cannot exhaust the
  rate limit of the authorised ones.
\<close>
theorem unauthorized_requests_are_inert:
  assumes "\<not> authorized st req"
  shows "(\<exists>resp. fst (serve eff req st) = Some resp \<and> rs_status resp \<in> {400, 401, 403})
    \<and> app_router (snd (serve eff req st)) = app_router st
    \<and> audit_file (snd (serve eff req st)) = audit_file st
    \<and> app_metrics (snd (serve eff req st)) = app_metrics st
    \<and> app_otel (snd (serve eff req st)) = app_otel st
    \<and> rate_limiter (snd (serve eff req st)) = rate_limiter st"
  using unauthorized_refused [OF assms, of eff] refusal_status by (auto simp: refused_by_def)


section \<open>The service invariant\<close>

definition service_inv :: "app_state \<Rightarrow> bool" where
  "service_inv st \<longleftrightarrow> router_reachable (app_router st) \<and> (\<exists>c r. bucket_ok c r (rate_limiter st))
     \<and> metrics_reachable (app_metrics st)"

text \<open>What other requests do meanwhile is a sequence of operations of the router.\<close>

definition fair :: "effects \<Rightarrow> bool" where
  "fair eff \<longleftrightarrow> (\<forall>i r. router_reachable r \<longrightarrow> router_reachable (meanwhile eff i r))"

lemma service_invI:
  "router_reachable (app_router st') \<Longrightarrow> metrics_reachable (app_metrics st') \<Longrightarrow> rate_limiter st' = rate_limiter st
   \<Longrightarrow> service_inv st \<Longrightarrow> service_inv st'"
  by (simp add: service_inv_def)

lemma service_inv_audit [simp]: "service_inv (st\<lparr>audit_file := file\<rparr>) \<longleftrightarrow> service_inv st"
  by (simp add: service_inv_def)

lemma route_request_reachable: "router_reachable r \<Longrightarrow> router_reachable (snd (route_request tid start goal r))"
  using reach_step [OF _ step_fast, of r tid start goal] reach_step [OF _ step_slow, of r tid start goal]
  by (auto simp: route_request_def split: prod.split option.split)

lemma plan_reachable: "router_reachable r \<Longrightarrow> router_reachable (snd (plan p q r))"
  using route_request_reachable [of r "pr_tenant_id q" "pr_start q" "pr_goal q"]
  by (auto simp: plan_def split: sum.split prod.split route_decision.split)

lemma fairD: "fair eff \<Longrightarrow> router_reachable r \<Longrightarrow> router_reachable (meanwhile eff i r)"
  by (simp add: fair_def)

lemma note_decision_fields [simp]:
  "app_router (note_decision tid d l st) = app_router st" "rate_limiter (note_decision tid d l st) = rate_limiter st"
  "audit_file (note_decision tid d l st) = audit_file st"
  "app_metrics (note_decision tid d l st) = snd (metrics_record_route tid d l (app_router st) (app_metrics st))"
  by (simp_all add: note_decision_def otel_log_def case_prod_unfold Let_def)

lemma handle_route_inv:
  assumes "service_inv st" "fair eff"
  shows "service_inv (snd (handle_route eff q st))"
proof -
  let ?rr = "route_request (rq_tenant q) (rq_start q) (rq_goal q) (app_router st)"
  have "router_reachable (meanwhile eff 0 (snd ?rr))"
    using assms by (simp add: fairD route_request_reachable service_inv_def)
  then show ?thesis using assms(1) metrics_route
    by (auto simp: handle_route_def Let_def service_inv_def split: prod.split option.split sum.split)
qed

lemma handle_plan_inv:
  assumes "service_inv st" "fair eff"
  shows "service_inv (snd (handle_plan eff q st))"
proof -
  let ?pl = "plan planner_new \<lparr>pr_tenant_id = rq_tenant q, pr_start = rq_start q, pr_goal = rq_goal q\<rparr> (app_router st)"
  have "router_reachable (meanwhile eff 0 (snd ?pl))"
    using assms by (simp add: fairD plan_reachable service_inv_def)
  then show ?thesis using assms(1) metrics_plan
    by (auto simp: handle_plan_def Let_def service_inv_def split: prod.split option.split sum.split)
qed

lemma batch_item_inv:
  assumes "service_inv (snd acc)" "fair eff"
  shows "service_inv (snd (batch_item eff i item acc))"
proof -
  obtain b st where acc: "acc = (b, st)" by fastforce
  have "router_reachable (meanwhile eff i (snd (route_request (rq_tenant item) (rq_start item) (rq_goal item) (app_router st))))"
    using assms by (simp add: acc fairD route_request_reachable service_inv_def)
  then show ?thesis using assms(1) metrics_route
    by (auto simp: batch_item_def Let_def acc service_inv_def split: prod.split)
qed

lemma batch_loop_inv: "service_inv (snd acc) \<Longrightarrow> fair eff \<Longrightarrow> service_inv (snd (batch_loop eff i items acc))"
  by (induction items arbitrary: i acc) (simp_all add: batch_item_inv)

lemma run_batch_inv:
  assumes "service_inv st" "fair eff"
  shows "service_inv (snd (run_batch eff items st))"
  using batch_loop_inv [of "(\<lparr>bt_results = [], bt_routed = 0, bt_escalated = 0, bt_events = []\<rparr>, st)" eff 0 items] assms
  by (auto simp: run_batch_def Let_def split: prod.split sum.split)


text \<open>What every answer of the service is.\<close>

definition proper :: "http_response option \<Rightarrow> bool" where
  "proper out \<longleftrightarrow> (\<exists>resp. out = Some resp \<and> rs_status resp \<in> {200, 400, 401, 403, 429, 500}
     \<and> (rs_status resp = 429 \<longrightarrow> map_of (rs_headers resp) ''retry-after'' = Some ''1''))"

definition mild :: "sidecar_error \<Rightarrow> bool" where
  "mild e \<longleftrightarrow> (\<forall>n. e = RateLimited n \<longrightarrow> n = 1)"

lemma decimal_one: "decimal 1 = ''1''"
  by code_simp

lemma proper_error: "mild e \<Longrightarrow> proper (Some (error_response rid e))"
  by (cases e) (simp_all add: proper_def mild_def error_response_def response_with_request_id_def Let_def
      map_laws decimal_one [simplified])

lemma proper_ok: "proper (Some (ok_response rid b))"
  by (simp add: proper_def ok_response_def response_with_request_id_def Let_def)

lemma refusal_mild: "refusal e \<Longrightarrow> mild e"
  by (auto simp: refusal_def mild_def)

lemma retry_after_one: "d \<le> 1000000000 \<Longrightarrow> retry_after_secs d = 1"
  using div_le_mono [of d 1000000000 1000000000] by (simp add: retry_after_secs_def max_def)

lemma authorize_ok:
  assumes "service_inv st"
  shows "service_inv (snd (authorize_request now header tid st))
    \<and> (\<exists>res. fst (authorize_request now header tid st) = Some res \<and> (\<forall>e. res = Inl e \<longrightarrow> mild e))"
proof -
  obtain c r where b: "bucket_ok c r (rate_limiter st)" using assms by (auto simp: service_inv_def)
  obtain res b' where step: "try_acquire_at now (rate_limiter st) = (res, b')" by fastforce
  note ok = try_acquire_ok [OF b, of now, unfolded step]
  have "\<exists>out. res = Some out \<and> (\<forall>d. out = Inl d \<longrightarrow> retry_after_secs d = 1)"
    using ok(2) by (auto simp: retry_after_one split: option.splits sum.splits)
  then obtain out where out: "res = Some out" "\<forall>d. out = Inl d \<longrightarrow> retry_after_secs d = 1" by blast
  have "service_inv (st\<lparr>rate_limiter := b'\<rparr>)" using assms ok(1) by (auto simp: service_inv_def)
  then show ?thesis
    using assms out by (cases out)
      (auto simp: authorize_request_def step mild_def require_api_key_cases split: option.split)
qed

lemma service_inv_request_id [simp]: "service_inv (snd (request_id st)) \<longleftrightarrow> service_inv st"
  by (simp add: service_inv_def)

lemma guarded_ok:
  assumes "service_inv st" "\<And>e. valid = Inl e \<Longrightarrow> refusal e"
    and work: "\<And>st. service_inv st \<Longrightarrow> service_inv (snd (work st))
      \<and> (\<exists>res. fst (work st) = Some res \<and> (\<forall>e. res = Inl e \<longrightarrow> mild e))"
  shows "service_inv (snd (guarded valid now header tid work st)) \<and> proper (fst (guarded valid now header tid work st))"
proof (cases valid)
  case (Inl e)
  then show ?thesis using assms(1,2) by (simp add: guarded_def Let_def case_prod_unfold proper_error refusal_mild)
next
  case (Inr u)
  let ?st = "snd (request_id st)"
  obtain res st' where a: "authorize_request now header tid ?st = (Some res, st')" "service_inv st'" "\<forall>e. res = Inl e \<longrightarrow> mild e"
    using authorize_ok [of ?st now header tid] assms(1) by (cases "authorize_request now header tid ?st") auto
  obtain out st'' where w: "work st' = (Some out, st'')" "service_inv st''" "\<forall>e. out = Inl e \<longrightarrow> mild e"
    using work [OF a(2)] by (cases "work st'") auto
  have "proper (respond rid (Some out))" for rid
    using w(3) by (cases out) (simp_all add: respond_def proper_error proper_ok)
  then show ?thesis using a w Inr
    by (cases res) (simp_all add: guarded_def Let_def case_prod_unfold proper_error)
qed

lemma persist_error: "persist_before_response eff ev file = (Inl e, file') \<Longrightarrow> mild e"
  by (auto simp: persist_before_response_def mild_def split: sum.splits prod.splits)

lemma handle_mild:
  "fst (handle_route eff q st) = Inl e \<Longrightarrow> mild e" "fst (handle_plan eff q st) = Inl e \<Longrightarrow> mild e"
  "fst (run_batch eff items st) = Inl e \<Longrightarrow> mild e"
  by (auto simp: handle_route_def handle_plan_def run_batch_def mild_def Let_def
      split: prod.splits option.splits sum.splits dest: persist_error [unfolded mild_def])


lemma batch_ok:
  assumes "service_inv st" "fair eff"
  shows "service_inv (snd (batch_route_handler eff header items st))
    \<and> proper (fst (batch_route_handler eff header items st))"
proof (cases "authorized st (BatchRequest header items)")
  case False
  then have "refused_by st (batch_route_handler eff header items st)" by (rule batch_refused)
  then show ?thesis using assms(1) by (auto simp: refused_by_def proper_error refusal_mild)
next
  case True
  let ?st = "snd (request_id st)"
  obtain c r where b: "bucket_ok c r (rate_limiter st)" using assms(1) by (auto simp: service_inv_def)
  obtain res b' where step: "acquire_all (map (clock eff) [0..<length items]) (rate_limiter st) = (res, b')" by fastforce
  note tokens = acquire_all_ok [OF b, of "map (clock eff) [0..<length items]", unfolded step fst_conv snd_conv]
  have inv: "service_inv (?st\<lparr>rate_limiter := b'\<rparr>)" using assms(1) tokens by (auto simp: service_inv_def)
  obtain out st' where run: "run_batch eff items (?st\<lparr>rate_limiter := b'\<rparr>) = (out, st')" by fastforce
  have "service_inv st'" using run_batch_inv [OF inv assms(2), of items] run by simp
  moreover have "proper (respond rid (Some out))" for rid
    using handle_mild(3) [of eff items "?st\<lparr>rate_limiter := b'\<rparr>"] run by (cases out) (simp_all add: respond_def proper_error proper_ok)
  moreover have "check_items (app_allowed_tenants st) items = Inr ()" using True by (simp add: check_items_iff)
  ultimately show ?thesis
    using True tokens inv by (cases res)
      (auto simp: batch_route_handler_def Let_def case_prod_unfold require_api_key_cases step run proper_error mild_def
        retry_after_one split: sum.split)
qed

lemma serve_ok:
  assumes inv: "service_inv st" and fair: "fair eff"
  shows "service_inv (snd (serve eff req st)) \<and> proper (fst (serve eff req st))"
proof (cases req)
  case Healthz
  then show ?thesis using inv by (simp add: healthz_def proper_def)
next
  case (MetricsRequest h)
  have "\<exists>resp. metrics_to_response (app_router st) (app_metrics st) = Some resp" if "service_inv st" for st
    using metrics_report_exists that by (simp add: service_inv_def)
  then show ?thesis
    unfolding MetricsRequest serve.simps metrics_handler_def
    by (intro guarded_ok inv) (auto, fastforce)
next
  case (RouteRequest h q)
  show ?thesis unfolding RouteRequest serve.simps route_handler_def
    using handle_route_inv [OF _ fair] handle_mild(1) query_validate_refusal(1) by (intro guarded_ok inv) auto
next
  case (BatchRequest h qs)
  then show ?thesis using batch_ok [OF inv fair] by simp
next
  case (PlanRequest h q)
  show ?thesis unfolding PlanRequest serve.simps plan_handler_def
    using handle_plan_inv [OF _ fair] handle_mild(2) query_validate_refusal(1) by (intro guarded_ok inv) auto
next
  case (ResultRequest h q)
  have "router_reachable (record_result now tid n ok l r)" if "router_reachable r" for now tid n ok l r
    using that by (rule reach_step) (rule step_result)
  then show ?thesis unfolding ResultRequest serve.simps result_handler_def
    using query_validate_refusal(2) by (intro guarded_ok inv) (auto simp: Let_def service_inv_def otel_log_def)
next
  case (ForceRequest h q)
  have "router_reachable (snd (force_half_open tid n r))" if "router_reachable r" for tid n r
    using that by (rule reach_step) (rule step_force)
  then show ?thesis unfolding ForceRequest serve.simps force_half_open_handler_def
    using query_validate_refusal(3) by (intro guarded_ok inv) (auto simp: case_prod_unfold Let_def service_inv_def otel_log_def)
qed


section \<open>Start-up\<close>

lemma demo_tenant_edges_wf: "\<forall>e \<in> set demo_tenant_edges. wf_edge e"
  by (simp add: demo_tenant_edges_def edge_with_costs_def edge_new_def wf_edge_def f64_lit_def)

lemma node_count_setup:
  "node_count tid (add_tenant tid r) = node_count tid r"
  "node_count tid (snd (try_set_cost_model tid m r)) = node_count tid r"
  "node_count tid (snd (try_set_health_policy tid p r)) = node_count tid r"
  by (simp_all add: node_count_def add_tenant_def try_set_cost_model_def try_set_health_policy_def
      tenant_or_default_def get_or_def tenants_put invalidate_all_cache_def split: sum.split)

lemma build_demo_router_ok:
  assumes "config_valid cfg" "wf_cost_model (cfg_cost_model cfg)"
  shows "\<exists>r. build_demo_router cfg = Inr r \<and> router_reachable r"
proof -
  let ?r1 = "add_tenant DEFAULT_TENANT router_new"
  have v: "cost_model_validate (cfg_cost_model cfg) = Inr ()" "health_policy_validate (cfg_health_policy cfg) = Inr ()"
    using assms(1) by (simp_all add: config_valid_def)
  obtain r2 where r2: "try_set_cost_model DEFAULT_TENANT (cfg_cost_model cfg) ?r1 = (Inr (), r2)"
    using v(1) by (simp add: try_set_cost_model_def)
  obtain r3 where r3: "try_set_health_policy DEFAULT_TENANT (cfg_health_policy cfg) r2 = (Inr (), r3)"
    using v(2) by (simp add: try_set_health_policy_def)
  have b: "build_demo_router cfg = Inr (fold (add_edge DEFAULT_TENANT) demo_tenant_edges r3)"
    by (simp add: build_demo_router_def r2 r3)
  have "router_reachable ?r1" by (rule reach_step [OF reach_new step_add_tenant])
  then have "router_reachable r2"
    using reach_step [OF _ step_cost_model [OF assms(2)]] r2 by (metis set_cost_model_def snd_conv)
  then have "router_reachable r3" using reach_step [OF _ step_health_policy] r3 by (metis snd_conv)
  moreover have "node_count DEFAULT_TENANT r3 = node_count DEFAULT_TENANT router_new"
    using node_count_setup r2 r3 by (metis snd_conv)
  then have "node_count DEFAULT_TENANT r3 = 0"
    by (simp add: node_count_def tenant_or_default_def get_or_def router_new_def default_tenant_def empty_graph_def)
  ultimately have "router_reachable (fold (add_edge DEFAULT_TENANT) demo_tenant_edges r3)"
    by (intro add_edges_reachable demo_tenant_edges_wf) (simp_all add: demo_tenant_edges_def)
  then show ?thesis using b by blast
qed

lemma start_sidecar_ok:
  assumes "config_valid cfg" "wf_cost_model (cfg_cost_model cfg)"
  shows "\<exists>st. start_sidecar env now file cfg = Inr st \<and> service_inv st \<and> app_api_key st = cfg_api_key cfg
    \<and> app_allowed_tenants st = set (allowed_tenants cfg) \<and> audit_file st = file"
proof -
  obtain r where r: "build_demo_router cfg = Inr r" "router_reachable r" using build_demo_router_ok [OF assms] by blast
  have "rate_limit_ok (rate_limit cfg)" using assms(1) by (simp add: config_valid_def)
  from bucket_ok_new [OF this, of now] r metrics_new show ?thesis
    by (auto simp: start_sidecar_def service_inv_def simp del: of_nat_unat)
qed

text \<open>
  The states of a running service: after its start, requests are served and the recovery loop
  probes, in any order.  The bound address plays no part; it is taken as text.
\<close>

inductive service_reachable :: "app_state \<Rightarrow> bool" where
  service_start: "config_valid (cfg :: string sidecar_config) \<Longrightarrow> wf_cost_model (cfg_cost_model cfg)
    \<Longrightarrow> start_sidecar env now file cfg = Inr st \<Longrightarrow> service_reachable st"
| service_request: "service_reachable st \<Longrightarrow> fair eff \<Longrightarrow> service_reachable (snd (serve eff req st))"
| service_probe: "service_reachable st
    \<Longrightarrow> service_reachable (st\<lparr>app_router := snd (run_recovery_probe_once cd now (app_router st))\<rparr>)"

lemma service_reachable_inv: "service_reachable st \<Longrightarrow> service_inv st"
proof (induction rule: service_reachable.induct)
  case (service_start cfg env now content st)
  then show ?case using start_sidecar_ok [of cfg env now content] by auto
next
  case (service_request st eff req)
  then show ?case using serve_ok by blast
next
  case (service_probe st cd now)
  then show ?case using reach_step [OF _ step_probe, of "app_router st" cd now] by (simp add: service_inv_def)
qed


section \<open>What is written before a response\<close>




lemma persist_ok:
  "io_succeeds (file_io eff) \<Longrightarrow> persist_before_response eff ev content = (Inr (), content @ jsonl (json_text eff) [ev])"
  by (simp add: persist_before_response_def append_events_ok)

text \<open>The event of a decision.\<close>

fun event_of :: "tenant_id \<Rightarrow> node_id \<Rightarrow> node_id \<Rightarrow> route_decision \<Rightarrow> audit_event" where
  "event_of tid start goal (Routed rt) = Reroute tid start goal (nodes rt) (total_cost rt) (cache_hit rt)"
| "event_of tid start goal (Escalate c) = ExplicitEscalation c"

lemma last_event_of_route:
  assumes "router_reachable r"
  shows "last_audit_event (snd (route_request tid start goal r)) = Some (event_of tid start goal (fst (route_request tid start goal r)))"
  using route_request_audited [OF assms, of tid start goal] by (cases "fst (route_request tid start goal r)") auto

definition undisturbed :: "effects \<Rightarrow> bool" where
  "undisturbed eff \<longleftrightarrow> meanwhile eff = (\<lambda>i r. r)"

lemma undisturbed_fair: "undisturbed eff \<Longrightarrow> fair eff"
  by (simp add: undisturbed_def fair_def)




section \<open>A batch and its items\<close>

text \<open>
  The items of a batch as requests of their own, one after the other, with the same operations of
  others after each routing call.
\<close>

fun run_singles :: "effects \<Rightarrow> nat \<Rightarrow> route_query list \<Rightarrow> app_state \<Rightarrow> (sidecar_error + body) list \<times> app_state" where
  "run_singles eff i [] st = ([], st)"
| "run_singles eff i (q # qs) st =
     (let (res, st1) = handle_route (eff\<lparr>elapsed := \<lambda>_. elapsed eff i, meanwhile := \<lambda>_. meanwhile eff i\<rparr>) q st;
          (rs, st2) = run_singles eff (Suc i) qs st1
      in (res # rs, st2))"

fun is_routed :: "route_response \<Rightarrow> bool" where
  "is_routed (RoutedResponse p c h) = True"
| "is_routed (EscalateResponse r ns) = False"

lemma jsonl_Cons: "jsonl f (ev # evs) = jsonl f [ev] @ jsonl f evs"
  by (simp add: jsonl_def)

lemma note_decision_audit:
  "note_decision tid d l (st\<lparr>audit_file := file\<rparr>) = (note_decision tid d l st)\<lparr>audit_file := file\<rparr>"
  by (simp add: note_decision_def otel_log_def Let_def case_prod_unfold)

text \<open>What other requests do does not empty the trail.\<close>

definition keeps_trail :: "effects \<Rightarrow> bool" where
  "keeps_trail eff \<longleftrightarrow> (\<forall>i r. last_audit_event r \<noteq> None \<longrightarrow> last_audit_event (meanwhile eff i r) \<noteq> None)"

lemma batch_loop_singles:
  assumes "fair eff \<and> keeps_trail eff" "io_succeeds (file_io eff)" "router_reachable (app_router st)"
  shows "\<exists>rs evs st'. batch_loop eff i items (b, st)
        = (b\<lparr>bt_results := bt_results b @ rs, bt_routed := bt_routed b + length (filter is_routed rs),
            bt_escalated := bt_escalated b + length (filter (\<lambda>x. \<not> is_routed x) rs), bt_events := bt_events b @ evs\<rparr>, st')
      \<and> run_singles eff i items (st\<lparr>audit_file := content\<rparr>)
        = (map (Inr \<circ> RouteBody) rs, st'\<lparr>audit_file := content @ jsonl (json_text eff) evs\<rparr>)
      \<and> audit_file st' = audit_file st \<and> length rs = length items"
  using assms(3)
proof (induction items arbitrary: i b st content)
  case Nil
  show ?case by (intro exI [of _ "[]"] exI [of _ st]) (simp add: jsonl_def)
next
  case (Cons q qs)
  obtain d r where rr: "route_request (rq_tenant q) (rq_start q) (rq_goal q) (app_router st) = (d, r)" by fastforce
  have "last_audit_event r \<noteq> None"
    using last_event_of_route [OF Cons.prems, of "rq_tenant q" "rq_start q" "rq_goal q"] rr by simp
  then obtain ev where last: "last_audit_event (meanwhile eff i r) = Some ev"
    using assms(1) by (fastforce simp: keeps_trail_def)
  define st1 where "st1 = note_decision (rq_tenant q) d (elapsed eff i) (st\<lparr>app_router := meanwhile eff i r\<rparr>)"
  define b1 where "b1 = b\<lparr>bt_results := bt_results b @ [response_of_decision d],
    bt_routed := bt_routed b + (if is_routed (response_of_decision d) then 1 else 0),
    bt_escalated := bt_escalated b + (if is_routed (response_of_decision d) then 0 else 1), bt_events := bt_events b @ [ev]\<rparr>"
  have item: "batch_item eff i q (b, st) = (b1, st1)"
    using rr last by (cases d) (simp_all add: batch_item_def b1_def st1_def)
  let ?eff = "eff\<lparr>elapsed := \<lambda>_. elapsed eff i, meanwhile := \<lambda>_. meanwhile eff i\<rparr>"
  have single: "handle_route ?eff q (st\<lparr>audit_file := content\<rparr>)
      = (Inr (RouteBody (response_of_decision d)), st1\<lparr>audit_file := content @ jsonl (json_text eff) [ev]\<rparr>)"
    using rr last assms(2) persist_ok [of ?eff ev content]
      note_decision_audit [where st = "st\<lparr>app_router := meanwhile eff i r\<rparr>"]
    by (simp add: handle_route_def st1_def)
  have "router_reachable (app_router st1)"
    using route_request_reachable [OF Cons.prems, of "rq_tenant q" "rq_start q" "rq_goal q"] rr assms(1)
    by (simp add: st1_def fair_def)
  from Cons.IH [OF this, of "Suc i" b1 "content @ jsonl (json_text eff) [ev]"]
  obtain rs evs st' where ih: "batch_loop eff (Suc i) qs (b1, st1)
        = (b1\<lparr>bt_results := bt_results b1 @ rs, bt_routed := bt_routed b1 + length (filter is_routed rs),
            bt_escalated := bt_escalated b1 + length (filter (\<lambda>x. \<not> is_routed x) rs), bt_events := bt_events b1 @ evs\<rparr>, st')"
      "run_singles eff (Suc i) qs (st1\<lparr>audit_file := content @ jsonl (json_text eff) [ev]\<rparr>)
        = (map (Inr \<circ> RouteBody) rs, st'\<lparr>audit_file := (content @ jsonl (json_text eff) [ev]) @ jsonl (json_text eff) evs\<rparr>)"
      "audit_file st' = audit_file st1" "length rs = length qs"
    by blast
  show ?case
    using ih by (intro exI [of _ "response_of_decision d # rs"] exI [of _ "ev # evs"] exI [of _ st'])
      (simp add: item single jsonl_Cons [of _ ev evs], simp add: b1_def st1_def)
qed


section \<open>Properties of the service\<close>

definition demo_config :: "string sidecar_config" where
  "demo_config = \<lparr>cfg_mode = Development, bind_address = DEFAULT_ADDRESS, audit_path = DEFAULT_AUDIT_PATH,
     cfg_api_key = DEFAULT_DEMO_API_KEY, allowed_tenants = [DEFAULT_TENANT], rate_limit = default_rate_limit,
     cfg_cost_model = default_cost_model, cfg_health_policy = default_health_policy, recovery_scan_interval = 1\<rparr>"

lemma demo_config_valid: "config_valid demo_config" "wf_cost_model (cfg_cost_model demo_config)"
proof -
  have "acceptable_key Development DEFAULT_DEMO_API_KEY" "valid_identifier DEFAULT_TENANT"
    "rate_limit_ok default_rate_limit" "cost_model_validate default_cost_model = Inr ()"
    by code_simp+
  moreover have "health_policy_validate default_health_policy = Inr ()"
    by (simp add: health_policy_validate_def default_health_policy_def OPEN_THRESHOLD_def DEGRADED_THRESHOLD_def
        HALF_OPEN_SUCCESS_NEEDED_def DEGRADED_SUCCESS_NEEDED_def DEFAULT_COOLDOWN_def)
  ultimately show "config_valid demo_config" by (simp add: config_valid_def demo_config_def)
  show "wf_cost_model (cfg_cost_model demo_config)" by (simp add: demo_config_def default_cost_model_wf)
qed

definition calm :: effects where
  "calm = \<lparr>clock = (\<lambda>_. 0), elapsed = (\<lambda>_. 0), file_io = io_fine, json_text = (\<lambda>_. ''x''), io_text = (\<lambda>_. []),
     meanwhile = (\<lambda>_ r. r)\<rparr>"

lemma calm_effects: "undisturbed calm" "fair calm" "io_succeeds (file_io calm)"
  by (simp_all add: undisturbed_def fair_def calm_def io_succeeds_def io_fine_def)

text \<open>
  A service whose configuration loaded starts: the cost model and the health policy are
  accepted, the demo graph is built, and the first state has the configured key and tenants.
\<close>
theorem valid_configuration_starts:
  assumes "load_config src args = Inr cfg" "wf_cost_model (cfg_cost_model cfg)"
  shows "\<exists>st. start_sidecar env now content cfg = Inr st \<and> router_reachable (app_router st)
    \<and> app_api_key st = cfg_api_key cfg \<and> app_allowed_tenants st = set (allowed_tenants cfg)"
proof -
  from start_sidecar_ok [OF load_config_valid [OF assms(1)] assms(2), of env now content] show ?thesis by (auto simp: service_inv_def)
qed

theorem valid_configuration_starts_witness:
  "\<exists>cfg st. load_config bare_sources [] = Inr cfg \<and> start_sidecar (\<lambda>_. None) 0 [] cfg = Inr st
     \<and> app_allowed_tenants st = {DEFAULT_TENANT}"
proof -
  obtain cfg where cfg: "load_config bare_sources [] = Inr cfg" "allowed_tenants cfg = [DEFAULT_TENANT]"
    "cfg_cost_model cfg = default_cost_model" using bare_load by blast
  then have "wf_cost_model (cfg_cost_model cfg)" by (simp add: default_cost_model_wf)
  from valid_configuration_starts [OF cfg(1) this, of "\<lambda>_. None" 0 "[]"] cfg show ?thesis by auto
qed

text \<open>
  C14: Every request to a running service is answered (no handler panics: no clock reading, wait or
  percentile is out of range), with one of six statuses; and a rate-limited client is always told
  to retry after one second, whatever the limits are.
\<close>
theorem every_request_is_answered:
  assumes "service_reachable st" "fair eff"
  shows "\<exists>resp. fst (serve eff req st) = Some resp \<and> rs_status resp \<in> {200, 400, 401, 403, 429, 500}
    \<and> (rs_status resp = 429 \<longrightarrow> map_of (rs_headers resp) ''retry-after'' = Some ''1'')"
  using serve_ok [OF service_reachable_inv [OF assms(1)] assms(2), of req] by (simp add: proper_def)

theorem every_request_is_answered_witness:
  "\<exists>st resp. start_sidecar (\<lambda>_. None) 0 [] demo_config = Inr st
     \<and> fst (serve calm (RouteRequest None \<lparr>rq_tenant = ''t'', rq_start = ''a'', rq_goal = ''b''\<rparr>) st) = Some resp"
proof -
  obtain st where st: "start_sidecar (\<lambda>_. None) 0 [] demo_config = Inr st"
    using start_sidecar_ok [OF demo_config_valid] by blast
  then have "service_reachable st" by (rule service_start [OF demo_config_valid])
  then show ?thesis using every_request_is_answered [OF _ calm_effects(2)] st by blast
qed




definition trivial_query :: route_query where
  "trivial_query = \<lparr>rq_tenant = DEFAULT_TENANT, rq_start = ''done'', rq_goal = ''done''\<rparr>"




definition quiet_batch :: "route_query list" where
  "quiet_batch = [trivial_query, \<lparr>rq_tenant = ''other'', rq_start = ''a'', rq_goal = ''b''\<rparr>]"

text \<open>
  C7: A batch is the sequence of its items: with a working audit file, a batch call gives the results
  that single \<open>/route\<close> calls for the items in order would give, counts them, and leaves the same state
  as these calls: router, metrics, telemetry and audit file.  Other requests may work on the router
  after each routing call, the same in both runs.
\<close>
theorem batch_equals_single_routes:
  assumes "router_reachable (app_router st)" "fair eff" "keeps_trail eff" "io_succeeds (file_io eff)"
  shows "\<exists>rs. fst (run_singles eff 0 items st) = map (Inr \<circ> RouteBody) rs
    \<and> run_batch eff items st = (Inr (BatchBody \<lparr>br_results = rs, br_total_routed = length (filter is_routed rs),
          br_total_escalated = length (filter (\<lambda>x. \<not> is_routed x) rs),
          br_duration_us = as_micros (elapsed eff (length items))\<rparr>), snd (run_singles eff 0 items st))"
proof -
  let ?b = "\<lparr>bt_results = [], bt_routed = 0, bt_escalated = 0, bt_events = []\<rparr> :: batch"
  obtain rs evs st' where l: "batch_loop eff 0 items (?b, st)
        = (?b\<lparr>bt_results := rs, bt_routed := length (filter is_routed rs),
            bt_escalated := length (filter (\<lambda>x. \<not> is_routed x) rs), bt_events := evs\<rparr>, st')"
      "run_singles eff 0 items st = (map (Inr \<circ> RouteBody) rs, st'\<lparr>audit_file := audit_file st @ jsonl (json_text eff) evs\<rparr>)"
      "audit_file st' = audit_file st"
    using batch_loop_singles [OF conjI [OF assms(2,3)] assms(4,1), of 0 items ?b "audit_file st"] by auto
  then show ?thesis using append_events_ok [OF assms(4)] by (intro exI [of _ rs]) (simp add: run_batch_def)
qed

definition busy :: effects where
  "busy = calm\<lparr>meanwhile := \<lambda>i. record_result i ''yc-demo'' ''primary_search'' False 5\<rparr>"

lemma busy_effects: "fair busy" "keeps_trail busy" "io_succeeds (file_io busy)"
proof -
  show "fair busy" by (auto simp: busy_def fair_def intro: reach_step [OF _ step_result])
  show "io_succeeds (file_io busy)" by (simp add: busy_def calm_def io_succeeds_def io_fine_def)
  show "keeps_trail busy"
    by (simp add: keeps_trail_def busy_def record_result_def push_event_def last_audit_event_def last_event_def audit_push_def
        Let_def case_prod_unfold)
qed

theorem batch_equals_single_routes_witness:
  "\<exists>st. start_sidecar (\<lambda>_. None) 0 [] demo_config = Inr st
     \<and> snd (run_batch busy quiet_batch st) = snd (run_singles busy 0 quiet_batch st)"
proof -
  obtain st where st: "start_sidecar (\<lambda>_. None) 0 [] demo_config = Inr st" "router_reachable (app_router st)"
    using start_sidecar_ok [OF demo_config_valid, of "\<lambda>_. None" 0 "[]"] by (auto simp: service_inv_def)
  from batch_equals_single_routes [OF st(2) busy_effects, of quiet_batch] st(1) show ?thesis by auto
qed

text \<open>
  The audit line of a route may be another request's: \<open>/route\<close> writes the newest event of the
  shared trail, so when a second routing call runs in between, the line on disk is the second
  call's, and this call's own decision, although answered 200, is not in the file.
\<close>
theorem audit_line_may_be_anothers:
  assumes "router_reachable (app_router st)" "io_succeeds (file_io eff)"
    and "meanwhile eff 0 = (\<lambda>r. snd (route_request tid start goal r))"
  shows "\<exists>decision r other. route_request (rq_tenant q) (rq_start q) (rq_goal q) (app_router st) = (decision, r)
    \<and> fst (route_request tid start goal r) = other
    \<and> fst (handle_route eff q st) = Inr (RouteBody (response_of_decision decision))
    \<and> audit_file (snd (handle_route eff q st)) = audit_file st @ jsonl (json_text eff) [event_of tid start goal other]"
proof -
  obtain d r where rr: "route_request (rq_tenant q) (rq_start q) (rq_goal q) (app_router st) = (d, r)" by fastforce
  have "router_reachable r"
    using route_request_reachable [OF assms(1), of "rq_tenant q" "rq_start q" "rq_goal q"] rr by simp
  from last_event_of_route [OF this, of tid start goal] show ?thesis
    using assms(2,3) rr by (simp add: handle_route_def persist_ok)
qed

definition blank_state :: app_state where
  "blank_state = \<lparr>app_router = router_new, audit_file = [], app_api_key = ''k'', app_allowed_tenants = {},
     rate_limiter = bucket_new 0 default_rate_limit, next_request_id = 1, app_metrics = default_metrics, app_otel = None\<rparr>"

theorem audit_line_may_be_anothers_witness:
  "audit_file (snd (handle_route (calm\<lparr>meanwhile := \<lambda>i r. snd (route_request ''u'' ''c'' ''d'' r)\<rparr>) trivial_query blank_state))
     = jsonl (json_text calm) [ExplicitEscalation \<lparr>ec_tenant_id = ''u'', ec_start = ''c'', ec_goal = ''d'',
         ec_reason = TenantNotFound, failed_or_blocked_nodes = []\<rparr>]"
proof -
  let ?eff = "calm\<lparr>meanwhile := \<lambda>i r. snd (route_request ''u'' ''c'' ''d'' r)\<rparr>"
  have no_tenant: "fst (route_request ''u'' ''c'' ''d'' r) = Escalate \<lparr>ec_tenant_id = ''u'', ec_start = ''c'', ec_goal = ''d'',
         ec_reason = TenantNotFound, failed_or_blocked_nodes = []\<rparr>" if "tenants r = []" for r
    using that by (simp add: route_request_def route_fast_def route_slow_def Let_def)
  have "tenants (snd (route_request tid s g router_new)) = []" for tid s g
    by (simp add: route_request_def route_fast_def route_slow_def router_new_def push_event_def Let_def)
  then have other: "fst (route_request ''u'' ''c'' ''d'' r) = Escalate \<lparr>ec_tenant_id = ''u'', ec_start = ''c'', ec_goal = ''d'',
         ec_reason = TenantNotFound, failed_or_blocked_nodes = []\<rparr>"
    if "route_request tid s g router_new = (d, r)" for tid s g d r
    using that no_tenant by (metis snd_conv)
  have "router_reachable (app_router blank_state)" "io_succeeds (file_io ?eff)"
    by (simp_all add: blank_state_def reach_new calm_def io_succeeds_def io_fine_def)
  from audit_line_may_be_anothers [OF this, of "''u''" "''c''" "''d''" trivial_query] other
  show ?thesis by (auto simp: blank_state_def calm_def)
qed

theorem unauthorized_requests_are_inert_witness:
  "audit_file (snd (serve calm (RouteRequest None trivial_query) blank_state)) = []
   \<and> rate_limiter (snd (serve calm (RouteRequest None trivial_query) blank_state)) = bucket_new 0 default_rate_limit"
proof -
  have "\<not> authorized blank_state (RouteRequest None trivial_query)" by simp
  from unauthorized_requests_are_inert [OF this, of calm] show ?thesis by (simp add: blank_state_def)
qed

end
