(* ===== verification/Drivers.thy ===== *)
theory Drivers
  imports RouterLiveness SidecarMetrics
begin

text \<open>
  What the programs under \<open>src/src/bin/\<close> that drive a router share: routers built from a list of
  edges, nodes failed until they open, the layered tool network of the load and soak tests, and
  their failure injector.  The programs themselves are in the theories that import this one.
\<close>

section \<open>Routers built from a list of edges\<close>

definition built_router :: "tenant_id \<Rightarrow> edge list \<Rightarrow> router" where
  "built_router tid es = fold (add_edge tid) es (add_tenant tid router_new)"

text \<open>An enabled and valid edge from \<open>a\<close> to \<open>b\<close>, in a graph and in a list of edges.\<close>

definition linked :: "tool_graph \<Rightarrow> node_id \<Rightarrow> node_id \<Rightarrow> bool" where
  "linked g a b \<longleftrightarrow> (\<exists>i e. map_of (node_to_id g) a = Some i \<and> e \<in> set (adjacency g ! unat i)
     \<and> id_to_node g ! unat (ie_to e) = b \<and> ie_enabled e \<and> ie_is_valid e)"

definition edge_among :: "edge list \<Rightarrow> node_id \<Rightarrow> node_id \<Rightarrow> bool" where
  "edge_among es a b \<longleftrightarrow>
     (\<exists>e \<in> set es. edge_from e = a \<and> edge_to e = b \<and> enabled e \<and> ie_is_valid (index_edge 0 e))"

lemma edge_among_image:
  "\<forall>e \<in> set es. enabled e \<and> ie_is_valid (index_edge 0 e) \<Longrightarrow>
   edge_among es a b \<longleftrightarrow> (a, b) \<in> (\<lambda>e. (edge_from e, edge_to e)) ` set es"
  by (auto simp: edge_among_def)

lemma usable_hop_linked:
  "usable_hop h g a b \<longleftrightarrow> linked g a b \<and> (\<forall>t. map_of h b = Some t \<longrightarrow> ht_state t \<noteq> Open)"
  by (auto simp: usable_hop_def linked_def)

lemma linked_insert:
  assumes g: "wf_graph g" "length (id_to_node g) + 1 < 2 ^ 32 - 1"
    and ins: "get_or_insert_node name g = (i, g')"
  shows "linked g' a b \<longleftrightarrow> linked g a b"
proof (cases "map_of (node_to_id g) name")
  case None
  let ?n = "length (id_to_node g)"
  have g': "g' = g\<lparr>node_to_id := AList.update name i (node_to_id g), id_to_node := id_to_node g @ [name],
      adjacency := adjacency g @ [[]]\<rparr>" and i: "i = of_nat ?n"
    using ins None by (auto simp: get_or_insert_node_def Let_def)
  have ui: "unat i = ?n" using g(2) i by (simp add: unat_of_nat_u32)
  have adj: "length (adjacency g) = ?n" using g(1) by (simp add: wf_graph_def)
  have old: "unat j < ?n" if "map_of (node_to_id g) c = Some j" for c j
    using g(1) that by (simp add: wf_graph_lookup)
  have tgt: "unat (ie_to e) < ?n" if "e \<in> set (adjacency g ! unat j)" "unat j < ?n" for e j
    using g(1) that nth_mem [of "unat j" "adjacency g"] by (auto simp: wf_graph_def)
  show ?thesis
  proof (cases "a = name")
    case True
    then show ?thesis using None ui adj by (auto simp: linked_def g' map_laws nth_append)
  next
    case False
    then show ?thesis using old tgt adj by (auto simp: linked_def g' map_laws nth_append) blast+
  qed
qed (use ins in \<open>auto simp: get_or_insert_node_def\<close>)

lemma linked_add_edge:
  assumes "wf_graph g" "length (id_to_node g) + 2 < 2 ^ 32 - 1"
  shows "linked (graph_add_edge e g) a b \<longleftrightarrow> linked g a b \<or>
    (edge_from e = a \<and> edge_to e = b \<and> enabled e \<and> ie_is_valid (index_edge 0 e))"
proof -
  obtain f g1 where 1: "get_or_insert_node (edge_from e) g = (f, g1)" by (cases "get_or_insert_node (edge_from e) g")
  obtain t g2 where 2: "get_or_insert_node (edge_to e) g1 = (t, g2)" by (cases "get_or_insert_node (edge_to e) g1")
  have l0: "length (id_to_node g) + 1 < 2 ^ 32 - 1" using assms(2) by linarith
  note g1 = get_or_insert_node_wf [OF assms(1) l0 1]
  have l1: "length (id_to_node g1) + 1 < 2 ^ 32 - 1" using assms(2) g1(4) by linarith
  note g2 = get_or_insert_node_wf [OF g1(1) l1 2]
  have from_id: "map_of (node_to_id g2) (edge_from e) = Some f"
    using wf_graph_lookup [OF g1(1), of "edge_from e" f] g1(2,3) by (intro g2(6)) simp
  have f: "unat f < length (adjacency g2)" using from_id g2(1) by (simp add: wf_graph_lookup) (simp add: wf_graph_def)
  have only: "c = edge_from e" if "map_of (node_to_id g2) c = Some f" for c
    using that from_id g2(1) by (simp add: wf_graph_lookup)
  have row: "unat f = unat i \<longleftrightarrow> f = i" for i by (rule word_unat_eq_iff [symmetric])
  let ?x = "index_edge t e"
  have x: "ie_to ?x = t" "ie_enabled ?x = enabled e" "ie_is_valid ?x = ie_is_valid (index_edge 0 e)"
    by (simp_all add: index_edge_def ie_is_valid_def)
  have new: "graph_add_edge e g = g2\<lparr>adjacency := (adjacency g2)[unat f := adjacency g2 ! unat f @ [?x]]\<rparr>"
    by (simp add: graph_add_edge_def Let_def 1 2 index_edge_def)
  have rows: "y \<in> set ((adjacency g2)[unat f := adjacency g2 ! unat f @ [?x]] ! unat i)
      \<longleftrightarrow> y \<in> set (adjacency g2 ! unat i) \<or> (i = f \<and> y = ?x)" for y i
    using f by (cases "i = f") (auto simp: nth_list_update row)
  have owner: "map_of (node_to_id g2) a = Some f \<longleftrightarrow> edge_from e = a" using only [of a] from_id by blast
  have "linked (graph_add_edge e g) a b \<longleftrightarrow> linked g2 a b \<or> (map_of (node_to_id g2) a = Some f
      \<and> id_to_node g2 ! unat t = b \<and> enabled e \<and> ie_is_valid (index_edge 0 e))"
    by (simp add: linked_def new rows conj_disj_distribL conj_disj_distribR ex_disj_distrib)
       (simp add: x)
  then have "linked (graph_add_edge e g) a b \<longleftrightarrow> linked g2 a b \<or> (edge_from e = a
      \<and> id_to_node g2 ! unat t = b \<and> enabled e \<and> ie_is_valid (index_edge 0 e))"
    by (simp only: owner)
  then show ?thesis using linked_insert [OF assms(1) l0 1] linked_insert [OF g1(1) l1 2] g2(3) by simp
qed

lemma linked_fold:
  "wf_graph g \<Longrightarrow> length (id_to_node g) + 2 * length es < 2 ^ 32 - 1 \<Longrightarrow> \<forall>e \<in> set es. wf_edge e \<Longrightarrow>
   linked (fold graph_add_edge es g) a b \<longleftrightarrow> linked g a b \<or> edge_among es a b"
proof (induction es arbitrary: g)
  case (Cons e es)
  have l: "length (id_to_node g) + 2 < 2 ^ 32 - 1" using Cons.prems(2) by simp
  have "wf_graph (graph_add_edge e g)" using graph_add_edge_wf [OF Cons.prems(1) l] Cons.prems(3) by simp
  moreover have "length (id_to_node (graph_add_edge e g)) + 2 * length es < 2 ^ 32 - 1"
    using graph_add_edge_size [OF Cons.prems(1) l, of e] Cons.prems(2) by simp
  ultimately show ?case
    using Cons.IH [of "graph_add_edge e g"] Cons.prems(3) linked_add_edge [OF Cons.prems(1) l, of e a b]
    by (auto simp: edge_among_def)
qed (simp add: edge_among_def)

lemma linked_graph_of:
  "\<forall>e \<in> set es. wf_edge e \<Longrightarrow> 2 * length es < 2 ^ 32 - 1 \<Longrightarrow> linked (graph_of es) a b \<longleftrightarrow> edge_among es a b"
  using linked_fold [OF wf_empty_graph, of es a b] by (simp add: graph_of_def empty_graph_size) (simp add: linked_def empty_graph_def)

section \<open>A configured router at work\<close>

text \<open>The tenant has the graph of the edges and the default models; what varies is the health and the cache.\<close>

definition configured :: "tenant_id \<Rightarrow> edge list \<Rightarrow> router \<Rightarrow> bool" where
  "configured tid es r \<longleftrightarrow> router_reachable r \<and> (\<exists>t. map_of (tenants r) tid = Some t \<and> graph t = graph_of es
     \<and> cost_model t = default_cost_model \<and> health_policy_of t = default_health_policy)"

definition open_nodes :: "tenant_id \<Rightarrow> router \<Rightarrow> node_id set" where
  "open_nodes tid r = {n. node_state_of tid n r = Some Open}"

lemma fold_add_edge_tenant:
  "map_of (tenants r) tid = Some (default_tenant\<lparr>graph := g\<rparr>) \<Longrightarrow>
   map_of (tenants (fold (add_edge tid) es r)) tid = Some (default_tenant\<lparr>graph := fold graph_add_edge es g\<rparr>)"
proof (induction es arbitrary: r g)
  case (Cons e es)
  have "map_of (tenants (add_edge tid e r)) tid = Some (default_tenant\<lparr>graph := graph_add_edge e g\<rparr>)"
    using Cons.prems by (simp add: add_edge_def Let_def tenants_put tenant_or_default_def get_or_def
        invalidate_all_cache_def default_tenant_def)
  then show ?case using Cons.IH by simp
qed simp

lemma built_tenant:
  "map_of (tenants (built_router tid es)) tid = Some (default_tenant\<lparr>graph := graph_of es\<rparr>)"
proof -
  have "map_of (tenants (add_tenant tid router_new)) tid = Some (default_tenant\<lparr>graph := empty_graph\<rparr>)"
    by (simp add: add_tenant_def tenants_put tenant_or_default_def get_or_def router_new_def default_tenant_def)
  then show ?thesis by (simp add: built_router_def fold_add_edge_tenant graph_of_def)
qed

lemma configured_built:
  assumes "\<forall>e \<in> set es. wf_edge e" "2 * length es < 2 ^ 32 - 1"
  shows "configured tid es (built_router tid es)"
proof -
  let ?r = "add_tenant tid router_new"
  have "router_reachable ?r" by (rule reach_step [OF reach_new step_add_tenant])
  moreover have "node_count tid ?r = 0"
    by (simp add: node_count_def add_tenant_def tenant_or_default_def get_or_def tenants_put router_new_def
        default_tenant_def empty_graph_def)
  ultimately have "router_reachable (built_router tid es)"
    using assms by (simp add: built_router_def add_edges_reachable)
  then show ?thesis using built_tenant [of tid es] by (simp add: configured_def default_tenant_def)
qed

lemma configured_reachable: "configured tid es r \<Longrightarrow> router_reachable r"
  by (simp add: configured_def)

lemma configuredE:
  assumes "configured tid es r"
  obtains t where "router_reachable r" "map_of (tenants r) tid = Some t" "graph t = graph_of es"
    "moderate_model (cost_model t)" "health_policy_of t = default_health_policy"
  using assms default_model_moderate by (auto simp: configured_def)

subsection \<open>Recording results and forcing probes\<close>

text \<open>The new tracker of the node.\<close>

definition tracker_of :: "tenant_id \<Rightarrow> node_id \<Rightarrow> router \<Rightarrow> health_tracker" where
  "tracker_of tid n r = get_or default_health_tracker (health (tenant_or_default r tid)) n"

lemma record_result_tenant:
  assumes "map_of (tenants r) tid = Some t"
  obtains t' where "map_of (tenants (record_result now tid n ok l r)) tid = Some t'" "graph t' = graph t"
    "cost_model t' = cost_model t" "health_policy_of t' = health_policy_of t"
    "health t' = AList.update n (snd (record_result_with_policy now ok l (health_policy_of t) (tracker_of tid n r))) (health t)"
proof -
  obtain c h' where h': "record_result_with_policy now ok l (health_policy_of t) (tracker_of tid n r) = (c, h')"
    by (metis surj_pair)
  have t: "tenant_or_default r tid = t" using assms by (simp add: tenant_or_default_def get_or_def)
  have pol: "health_policy_of (invalidate_for_node n t') = health_policy_of t'" for t'
    by (simp add: invalidate_for_node_def Let_def)
  show thesis
    by (rule that [of "let t1 = t\<lparr>health := AList.update n h' (health t)\<rparr> in if c then invalidate_for_node n t1 else t1"])
       (use h' t in \<open>simp_all add: record_result_def Let_def tracker_of_def tenants_put pol\<close>)
qed

lemma force_half_open_tenant:
  assumes "map_of (tenants r) tid = Some t"
  obtains t' where "map_of (tenants (snd (force_half_open tid n r))) tid = Some t'" "graph t' = graph t"
    "cost_model t' = cost_model t" "health_policy_of t' = health_policy_of t"
    "\<forall>m. map_option ht_state (map_of (health t') m) = (if m = n \<and> map_option ht_state (map_of (health t) n) = Some Open
       then Some HalfOpen else map_option ht_state (map_of (health t) m))"
proof (cases "\<exists>h. map_of (health t) n = Some h \<and> ht_state h = Open")
  case True
  then obtain h where h: "map_of (health t) n = Some h" "ht_state h = Open" by blast
  let ?h = "h\<lparr>ht_state := HalfOpen, consecutive_successes := 0\<rparr>"
  show thesis
    by (rule that [of "invalidate_for_node n (t\<lparr>health := AList.update n ?h (health t)\<rparr>)"])
       (use assms h in \<open>auto simp: force_half_open_def tracker_force_half_open_def tenants_put map_laws
          invalidate_for_node_def Let_def\<close>)
next
  case False
  then have "snd (force_half_open tid n r) = r"
    using assms by (auto simp: force_half_open_def tracker_force_half_open_def split: option.split)
  then show thesis using that [of t] assms False by fastforce
qed

lemma configured_step:
  assumes "configured tid es r" "router_step r r'"
    and "\<And>t. map_of (tenants r) tid = Some t \<Longrightarrow> \<exists>t'. map_of (tenants r') tid = Some t' \<and> graph t' = graph t
      \<and> cost_model t' = cost_model t \<and> health_policy_of t' = health_policy_of t"
  shows "configured tid es r'"
  using assms reach_step [OF _ assms(2)] unfolding configured_def by metis

lemma configured_result: "configured tid es r \<Longrightarrow> configured tid es (record_result now tid n ok l r)"
  by (rule configured_step [OF _ step_result]) (metis record_result_tenant)+

lemma configured_force: "configured tid es r \<Longrightarrow> configured tid es (snd (force_half_open tid n r))"
  by (rule configured_step [OF _ step_force]) (metis force_half_open_tenant)+

lemma node_state_tenant: "map_of (tenants r) tid = Some t \<Longrightarrow> node_state_of tid m r = map_option ht_state (map_of (health t) m)"
  by (simp add: node_state_of_def)

lemma result_state:
  assumes "configured tid es r"
  shows "node_state_of tid m (record_result now tid n ok l r) =
    (if m = n then Some (ht_state (apply_outcome default_health_policy (now, ok, l) (tracker_of tid n r)))
     else node_state_of tid m r)"
proof -
  obtain t where t: "map_of (tenants r) tid = Some t" "health_policy_of t = default_health_policy"
    using assms by (auto simp: configured_def)
  obtain t' where t': "map_of (tenants (record_result now tid n ok l r)) tid = Some t'"
    "health t' = AList.update n (snd (record_result_with_policy now ok l (health_policy_of t) (tracker_of tid n r))) (health t)"
    using record_result_tenant [OF t(1)] by metis
  show ?thesis using t t' by (simp add: node_state_tenant map_laws apply_outcome_def)
qed

lemma result_tracker_of:
  assumes "configured tid es r"
  shows "tracker_of tid m (record_result now tid n ok l r) =
    (if m = n then apply_outcome default_health_policy (now, ok, l) (tracker_of tid n r) else tracker_of tid m r)"
proof -
  obtain t where t: "map_of (tenants r) tid = Some t" "health_policy_of t = default_health_policy"
    using assms by (auto simp: configured_def)
  obtain t' where t': "map_of (tenants (record_result now tid n ok l r)) tid = Some t'"
    "health t' = AList.update n (snd (record_result_with_policy now ok l (health_policy_of t) (tracker_of tid n r))) (health t)"
    using record_result_tenant [OF t(1)] by metis
  show ?thesis
    using t t' by (simp add: tracker_of_def tenant_or_default_def get_or_def [of default_tenant] map_laws apply_outcome_def)
qed

lemma force_state:
  assumes "configured tid es r"
  shows "node_state_of tid m (snd (force_half_open tid n r)) =
    (if m = n \<and> node_state_of tid n r = Some Open then Some HalfOpen else node_state_of tid m r)"
proof -
  obtain t where t: "map_of (tenants r) tid = Some t" using assms by (auto simp: configured_def)
  show ?thesis
  proof (rule force_half_open_tenant [OF t, of n])
    fix t' assume "map_of (tenants (snd (force_half_open tid n r))) tid = Some t'"
      and "\<forall>m. map_option ht_state (map_of (health t') m) = (if m = n \<and> map_option ht_state (map_of (health t) n) = Some Open
       then Some HalfOpen else map_option ht_state (map_of (health t) m))"
    then show ?thesis using node_state_tenant [OF t] by (auto simp: node_state_tenant)
  qed
qed

lemma open_after_result:
  assumes "configured tid es r"
  shows "open_nodes tid (record_result now tid n ok l r) \<subseteq> insert n (open_nodes tid r)"
    and "ok \<Longrightarrow> open_nodes tid (record_result now tid n ok l r) \<subseteq> open_nodes tid r"
proof -
  show "open_nodes tid (record_result now tid n ok l r) \<subseteq> insert n (open_nodes tid r)"
    using result_state [OF assms] by (auto simp: open_nodes_def split: if_splits)
  obtain t where t: "map_of (tenants r) tid = Some t" using assms by (auto simp: configured_def)
  have "node_state_of tid n r = Some Open" if "ht_state (tracker_of tid n r) = Open"
    using that t by (cases "map_of (health t) n")
      (auto simp: tracker_of_def tenant_or_default_def node_state_of_def get_or_def default_health_tracker_def)
  moreover have "ht_state (tracker_of tid n r) = Open"
    if "ht_state (apply_outcome default_health_policy (now, True, l) (tracker_of tid n r)) = Open"
    using that apply_outcome_success [of "(now, True, l)" default_health_policy "tracker_of tid n r"]
    by (auto split: if_splits)
  ultimately show "open_nodes tid (record_result now tid n ok l r) \<subseteq> open_nodes tid r" if ok
    using result_state [OF assms] that by (auto simp: open_nodes_def split: if_splits)
qed

lemma force_tracker_of:
  assumes "configured tid es r" "m \<noteq> n"
  shows "tracker_of tid m (snd (force_half_open tid n r)) = tracker_of tid m r"
  using assms by (auto simp: tracker_of_def tenant_or_default_def get_or_def [of default_tenant] configured_def
      force_half_open_def tracker_force_half_open_def tenants_put map_laws split: option.split)

lemma open_after_force:
  "configured tid es r \<Longrightarrow> open_nodes tid (snd (force_half_open tid n r)) = open_nodes tid r - {n}"
  using force_state [of tid es r] by (auto simp: open_nodes_def split: if_splits)

subsection \<open>Routing\<close>

lemma policy_frame:
  "health_policy_of (snd (get_cached k t)) = health_policy_of t"
  "health_policy_of (insert_cache k c t) = health_policy_of t"
  by (auto simp: get_cached_def insert_cache_def evict_def Let_def split: option.split list.split)

lemma route_slow_tenant:
  assumes "map_of (tenants r) tid = Some t"
  obtains t' where "map_of (tenants (snd (route_slow tid start goal r))) tid = Some t'" "graph t' = graph t"
    "cost_model t' = cost_model t" "health_policy_of t' = health_policy_of t" "health t' = health t"
proof (cases rule: route_slow_cases [where r = r and tid = tid and start = start and goal = goal])
  case (cached t1 c)
  then show thesis using assms that by (simp add: tenants_put policy_frame)
next
  case (searched t1 rt)
  then show thesis using assms that by (simp add: tenants_put policy_frame)
qed (use assms that in \<open>simp_all add: Let_def\<close>)

lemma route_fast_tenants: "tenants (snd (route_fast tid start goal r)) = tenants r"
  by (auto simp: route_fast_def split: option.split)

lemma configured_slow: "configured tid es r \<Longrightarrow> configured tid es (snd (route_slow tid start goal r))"
  by (rule configured_step [OF _ step_slow]) (metis route_slow_tenant)+

lemma configured_fast: "configured tid es r \<Longrightarrow> configured tid es (snd (route_fast tid start goal r))"
  by (rule configured_step [OF _ step_fast]) (simp_all add: route_fast_tenants)

lemma routing_keeps_states:
  "configured tid es r \<Longrightarrow> node_state_of tid m (snd (route_slow tid start goal r)) = node_state_of tid m r"
  "node_state_of tid m (snd (route_fast tid start goal r)) = node_state_of tid m r"
  by (metis configuredE route_slow_tenant node_state_tenant)
     (simp add: node_state_of_def route_fast_tenants)

lemma open_after_route:
  "configured tid es r \<Longrightarrow> open_nodes tid (snd (route_slow tid start goal r)) = open_nodes tid r"
  "open_nodes tid (snd (route_fast tid start goal r)) = open_nodes tid r"
  by (simp_all add: open_nodes_def routing_keeps_states)

lemma route_request_split:
  "route_request tid start goal r = (case fst (route_fast tid start goal r) of
     Some d \<Rightarrow> (d, snd (route_fast tid start goal r)) | None \<Rightarrow> route_slow tid start goal r)"
  by (simp add: route_request_def split: prod.split option.split)

lemma configured_route: "configured tid es r \<Longrightarrow> configured tid es (snd (route_request tid start goal r))"
  by (simp add: route_request_split configured_slow configured_fast split: option.split)

lemma route_keeps_states:
  "configured tid es r \<Longrightarrow> node_state_of tid m (snd (route_request tid start goal r)) = node_state_of tid m r"
  by (simp add: route_request_split routing_keeps_states split: option.split)

lemma route_keeps_tracker:
  assumes "configured tid es r"
  shows "tracker_of tid m (snd (route_request tid start goal r)) = tracker_of tid m r"
proof -
  obtain t where t: "map_of (tenants r) tid = Some t" using assms by (auto simp: configured_def)
  have "tracker_of tid m (snd (route_slow tid start goal r)) = tracker_of tid m r"
    by (rule route_slow_tenant [OF t, of start goal]) (simp add: tracker_of_def tenant_or_default_def get_or_def [of default_tenant] t)
  moreover have "tracker_of tid m (snd (route_fast tid start goal r)) = tracker_of tid m r"
    by (simp add: tracker_of_def tenant_or_default_def route_fast_tenants)
  ultimately show ?thesis by (simp add: route_request_split split: option.split)
qed

lemma built_state:
  "open_nodes tid (built_router tid es) = {}" "tracker_of tid n (built_router tid es) = default_health_tracker"
  by (simp_all add: open_nodes_def node_state_of_def tracker_of_def tenant_or_default_def get_or_def built_tenant default_tenant_def)

subsection \<open>Runs of results\<close>

text \<open>Results of one node in a row, each with its instant.\<close>

definition record_results :: "tenant_id \<Rightarrow> node_id \<Rightarrow> outcome list \<Rightarrow> router \<Rightarrow> router" where
  "record_results tid n os r = fold (\<lambda>(now, ok, l). record_result now tid n ok l) os r"

lemma record_results_snoc:
  "record_results tid n (os @ [(now, ok, l)]) r = record_result now tid n ok l (record_results tid n os r)"
  by (simp add: record_results_def)

lemma record_results_effect:
  assumes "configured tid es r"
  shows "configured tid es (record_results tid n os r)
    \<and> tracker_of tid n (record_results tid n os r) = apply_outcomes default_health_policy os (tracker_of tid n r)
    \<and> (os \<noteq> [] \<longrightarrow> node_state_of tid n (record_results tid n os r)
          = Some (ht_state (apply_outcomes default_health_policy os (tracker_of tid n r))))
    \<and> (\<forall>m. m \<noteq> n \<longrightarrow> node_state_of tid m (record_results tid n os r) = node_state_of tid m r
          \<and> tracker_of tid m (record_results tid n os r) = tracker_of tid m r)"
proof (induction os rule: rev_induct)
  case Nil
  then show ?case using assms by (simp add: record_results_def apply_outcomes_def)
next
  case (snoc oc os)
  obtain now ok l where oc: "oc = (now, ok, l)" by (metis surj_pair)
  have c: "configured tid es (record_results tid n os r)" using snoc by simp
  show ?case
    using snoc configured_result [OF c, of now n ok l]
    by (simp add: oc record_results_snoc result_state [OF c] result_tracker_of [OF c] apply_outcomes_snoc)
qed

text \<open>What the programs do to open a node: as many failures as the default policy asks for.\<close>

definition open_node :: "tenant_id \<Rightarrow> (nat \<Rightarrow> instant) \<Rightarrow> node_id \<Rightarrow> router \<Rightarrow> router" where
  "open_node tid clock n r = fold (\<lambda>i. record_result (clock i) tid n False 1000) [0..<unat OPEN_THRESHOLD] r"

lemma open_node_results:
  "open_node tid clock n r = record_results tid n (map (\<lambda>i. (clock i, False, 1000)) [0..<5]) r"
  by (simp add: open_node_def record_results_def fold_map comp_def OPEN_THRESHOLD_def)

lemma open_node_effect:
  assumes "configured tid es r" "unat (consecutive_failures (tracker_of tid n r)) < 1000"
  shows "configured tid es (open_node tid clock n r)"
    and "node_state_of tid n (open_node tid clock n r) = Some Open"
    and "m \<noteq> n \<Longrightarrow> node_state_of tid m (open_node tid clock n r) = node_state_of tid m r"
    and "m \<noteq> n \<Longrightarrow> tracker_of tid m (open_node tid clock n r) = tracker_of tid m r"
proof -
  let ?os = "map (\<lambda>i. (clock i, False, 1000)) [0..<5]"
  note eff = record_results_effect [OF assms(1), of n ?os]
  have "ht_state (apply_outcomes default_health_policy ?os (tracker_of tid n r)) = Open"
    by (rule failures_open) (use assms(2) in \<open>simp_all add: default_health_policy_def OPEN_THRESHOLD_def upt_rec\<close>)
  with eff show "configured tid es (open_node tid clock n r)"
    "node_state_of tid n (open_node tid clock n r) = Some Open"
    "m \<noteq> n \<Longrightarrow> node_state_of tid m (open_node tid clock n r) = node_state_of tid m r"
    "m \<noteq> n \<Longrightarrow> tracker_of tid m (open_node tid clock n r) = tracker_of tid m r"
    by (simp_all add: open_node_results)
qed

lemma open_nodes_open_node:
  assumes "configured tid es r" "unat (consecutive_failures (tracker_of tid n r)) < 1000"
  shows "open_nodes tid (open_node tid clock n r) = insert n (open_nodes tid r)"
  using open_node_effect(2,3) [OF assms] by (auto simp: open_nodes_def) metis

lemma open_nodes_route:
  "configured tid es r \<Longrightarrow> open_nodes tid (snd (route_request tid start goal r)) = open_nodes tid r"
  by (simp add: open_nodes_def route_keeps_states)

subsection \<open>A searched route and its cached copy\<close>

lemma search_loop_fresh: "search_loop k h m g s goal st = Some (Some rt) \<Longrightarrow> \<not> cache_hit rt"
  by (induction k arbitrary: st) (auto simp: search_loop_Suc Let_def split: option.splits search_state.splits if_splits)

lemma shortest_path_fresh: "shortest_path h m g start goal = Some rt \<Longrightarrow> \<not> cache_hit rt"
  by (auto simp: shortest_path_def dest: search_loop_fresh split: if_splits option.splits)

lemma searched_route:
  assumes "map_of (tenants r) tid = Some t" "map_of (cache t) \<lparr>rk_start = start, rk_goal = goal\<rparr> = None"
    and "fst (route_request tid start goal r) = Routed rt"
  shows "shortest_path (health t) (cost_model t) (graph t) start goal = Some rt" "\<not> cache_hit rt"
    and "map_of (tenants (snd (route_request tid start goal r))) tid = Some (insert_cache \<lparr>rk_start = start, rk_goal = goal\<rparr>
      \<lparr>cp_path = nodes rt, cp_weight = total_cost rt, touched_nodes = set (nodes rt)\<rparr> t)"
proof -
  have slow: "route_request tid start goal r = route_slow tid start goal r"
    using assms(1,2) by (simp add: route_request_def route_fast_def)
  have "shortest_path (health t) (cost_model t) (graph t) start goal = Some rt
    \<and> map_of (tenants (snd (route_slow tid start goal r))) tid = Some (insert_cache \<lparr>rk_start = start, rk_goal = goal\<rparr>
      \<lparr>cp_path = nodes rt, cp_weight = total_cost rt, touched_nodes = set (nodes rt)\<rparr> t)"
    using assms slow by (cases rule: route_slow_cases [where r = r and tid = tid and start = start and goal = goal])
      (auto simp: Let_def tenants_put)
  then show "shortest_path (health t) (cost_model t) (graph t) start goal = Some rt" "\<not> cache_hit rt"
    "map_of (tenants (snd (route_request tid start goal r))) tid = Some (insert_cache \<lparr>rk_start = start, rk_goal = goal\<rparr>
      \<lparr>cp_path = nodes rt, cp_weight = total_cost rt, touched_nodes = set (nodes rt)\<rparr> t)"
    using shortest_path_fresh [of "health t" "cost_model t" "graph t" start goal rt] by (simp_all add: slow)
qed

lemma inserted_hit: "map_of (cache (insert_cache k c t)) k = Some c"
  by (simp add: insert_cache_def Let_def map_laws)

section \<open>What is logged\<close>

definition adds_events :: "router \<Rightarrow> audit_event list \<Rightarrow> router \<Rightarrow> bool" where
  "adds_events r evs r' \<longleftrightarrow> audit_log r' = fold audit_push evs (audit_log r)"

lemma adds_trans: "adds_events r evs r' \<Longrightarrow> adds_events r' evs' r'' \<Longrightarrow> adds_events r (evs @ evs') r''"
  by (simp add: adds_events_def)

lemma audit_log_push: "audit_log (push_event ev r) = audit_push ev (audit_log r)"
  by (simp add: push_event_def)

lemma adds_result:
  "\<exists>st c. adds_events r [HealthChanged tid n st c] (record_result now tid n ok l r)"
  by (auto simp: adds_events_def record_result_def Let_def audit_log_push split: prod.split)

lemma adds_open_node:
  "\<exists>evs. adds_events r evs (open_node tid clock n r) \<and> length evs = 5 \<and> (\<forall>ev \<in> set evs. \<exists>st c. ev = HealthChanged tid n st c)"
proof -
  have "\<exists>evs. adds_events r evs (record_results tid n os r) \<and> length evs = length os
      \<and> (\<forall>ev \<in> set evs. \<exists>st c. ev = HealthChanged tid n st c)" for os
  proof (induction os rule: rev_induct)
    case (snoc oc os)
    obtain now ok l where oc: "oc = (now, ok, l)" by (metis surj_pair)
    obtain st c where "adds_events (record_results tid n os r) [HealthChanged tid n st c]
        (record_result now tid n ok l (record_results tid n os r))" using adds_result by blast
    moreover obtain evs where "adds_events r evs (record_results tid n os r)" "length evs = length os"
        "\<forall>ev \<in> set evs. \<exists>st c. ev = HealthChanged tid n st c" using snoc by blast
    ultimately show ?case
      by (intro exI [of _ "evs @ [HealthChanged tid n st c]"]) (simp add: oc record_results_snoc adds_trans)
  qed (simp add: record_results_def adds_events_def)
  from this [of "map (\<lambda>i. (clock i, False, 1000)) [0..<5]"] show ?thesis by (simp add: open_node_results)
qed

lemma adds_force:
  "node_state_of tid n r = Some Open \<Longrightarrow> adds_events r [RecoveryProbeOpened tid n] (snd (force_half_open tid n r))"
  by (auto simp: adds_events_def force_half_open_def node_state_of_def tracker_force_half_open_def audit_log_push
      split: option.splits)

lemma adds_route:
  obtains ev where "adds_events r [ev] (snd (route_request tid start goal r))"
    "case fst (route_request tid start goal r) of
       Routed rt \<Rightarrow> ev = reroute tid start goal rt | Escalate c \<Rightarrow> ev = ExplicitEscalation c"
  by (rule route_request_pushes [where r = r and tid = tid and start = start and goal = goal])
     (simp add: adds_events_def that)

lemma audit_log_add_edges: "audit_log (fold (add_edge tid) es r) = audit_log r"
  by (induction es arbitrary: r) (simp_all add: add_edge_def Let_def)

lemma built_router_log: "audit_log (built_router tid es) = audit_new AUDIT_EVENT_MEMORY_LIMIT"
  by (simp add: built_router_def audit_log_add_edges add_tenant_def router_new_def)

lemma events_since_start:
  assumes "adds_events (built_router tid es) evs r" "length evs \<le> AUDIT_EVENT_MEMORY_LIMIT"
  shows "router_events r = evs"
proof -
  have "audit.log_ok (audit_new AUDIT_EVENT_MEMORY_LIMIT)"
    by (simp add: audit_log_ok audit_new_def AUDIT_EVENT_MEMORY_LIMIT_def)
  from audit.entries_fold [OF this, of evs] show ?thesis
    using assms by (simp add: adds_events_def router_events_def built_router_log audit_new_def)
qed

section \<open>Decisions over a known network\<close>

definition net_path :: "tenant_id \<Rightarrow> edge list \<Rightarrow> router \<Rightarrow> node_id \<Rightarrow> node_id \<Rightarrow> node_id list \<Rightarrow> bool" where
  "net_path tid es r start goal p \<longleftrightarrow> p \<noteq> [] \<and> hd p = start \<and> last p = goal \<and> distinct p
     \<and> successively (\<lambda>a b. edge_among es a b \<and> b \<notin> open_nodes tid r) p"

lemma net_path_simple:
  assumes "configured tid es r" "\<forall>e \<in> set es. wf_edge e" "2 * length es < 2 ^ 32 - 1"
    and "map_of (tenants r) tid = Some t"
  shows "simple_path t start goal p \<longleftrightarrow> net_path tid es r start goal p"
proof -
  have "graph t = graph_of es" using assms(1,4) by (auto simp: configured_def)
  then have "usable_hop (health t) (graph t) = (\<lambda>a b. edge_among es a b \<and> b \<notin> open_nodes tid r)"
    using assms(4) by (auto simp: fun_eq_iff usable_hop_linked linked_graph_of [OF assms(2,3)] open_nodes_def node_state_of_def)
  then show ?thesis by (simp add: simple_path_def net_path_def)
qed

lemma request_decides:
  assumes "configured tid es r" "\<forall>e \<in> set es. wf_edge e" "2 * length es < 2 ^ 32 - 1"
  obtains (routed) rt where "fst (route_request tid start goal r) = Routed rt" "net_path tid es r start goal (nodes rt)"
  | (escalated) c where "fst (route_request tid start goal r) = Escalate c" "\<not> (\<exists>p. net_path tid es r start goal p)"
      "ec_reason c = NoFeasiblePath" "sorted (failed_or_blocked_nodes c)" "distinct (failed_or_blocked_nodes c)"
      "set (failed_or_blocked_nodes c) = open_nodes tid r"
proof -
  obtain t where t: "router_reachable r" "map_of (tenants r) tid = Some t" "moderate_model (cost_model t)"
    using assms(1) by (rule configuredE)
  note complete = request_complete [OF t, of start goal] and path = net_path_simple [OF assms t(2)]
  show thesis
  proof (cases "fst (route_request tid start goal r)")
    case (Routed rt)
    then show thesis using routed routed_simple [OF t(1,2) Routed] path by simp
  next
    case (Escalate c)
    have none: "\<not> (\<exists>p. net_path tid es r start goal p)" using complete path Escalate by simp
    have "fst (route_slow tid start goal r) = Escalate c"
      using Escalate by (auto simp: route_request_split split: option.splits elim: route_fast_cases)
        (metis route_decision.distinct(1) route_fast_cases prod.collapse)
    moreover have "tenant_inv t" using router_inv_tenant [OF router_reachable_inv [OF t(1)] t(2)] .
    note blocked_nodes_open [OF this t(2)]
    ultimately show thesis
      using escalated [OF Escalate none] t(2)
      by (cases rule: route_slow_cases [where r = r and tid = tid and start = start and goal = goal])
         (auto simp: Let_def open_nodes_def)
  qed
qed

end
