(* ===== verification/Maintenance.thy ===== *)
theory Maintenance
  imports RouterProps Drivers
begin

text \<open>
  The two background tasks of a router (\<open>spawn_recovery_loop\<close> and \<open>spawn_audit_flush_loop\<close> in
  \<open>lib.rs\<close>): the recovery loop probes the open nodes at every tick of an interval, the flush loop
  appends the audit trail to a file.  Between two ticks any other operation may run on the router.  A
  panic of a tick is dropped by the loop.
\<close>

section \<open>The loops\<close>

text \<open>
  The instants at which the ticks of an interval are due up to an instant: the first one at once, then
  one per period, as the timer documents.  A tick is late when the runtime is busy, and the probe reads
  the clock on a thread of its own after its tick: the loop is described by the instants its probes
  read, none of them before its tick is due.
\<close>

definition ticks_until :: "instant \<Rightarrow> duration \<Rightarrow> instant \<Rightarrow> instant list" where
  "ticks_until first period now = map (\<lambda>k. first + k * period) [0..<(now - first) div period + 1]"

definition probes_after :: "instant list \<Rightarrow> instant list \<Rightarrow> bool" where
  "probes_after due probes \<longleftrightarrow> list_all2 (\<le>) due probes"

definition recovery_tick :: "duration \<Rightarrow> instant \<Rightarrow> router \<Rightarrow> router" where
  "recovery_tick cd now r = snd (run_recovery_probe_once cd now r)"

definition recovery_loop :: "duration \<Rightarrow> instant list \<Rightarrow> router \<Rightarrow> router" where
  "recovery_loop cd probes r = fold (recovery_tick cd) probes r"

definition default_recovery_loop :: "instant list \<Rightarrow> router \<Rightarrow> router" where
  "default_recovery_loop probes r = recovery_loop DEFAULT_COOLDOWN probes r"

definition flush_tick :: "(json \<Rightarrow> string) \<Rightarrow> io_calls \<Rightarrow> router \<Rightarrow> string \<Rightarrow> string" where
  "flush_tick to_string io r file_text = snd (append_audit_jsonl to_string io r file_text)"

definition FLUSH_INTERVAL :: duration where "FLUSH_INTERVAL = secs 30"

text \<open>
  A run of the recovery loop: the instants its probes read, and between them other operations on the
  router that leave the tracker of one node alone, that is, any but a result or a forced probe of it.
\<close>

definition tracker_at :: "tenant_id \<Rightarrow> node_id \<Rightarrow> router \<Rightarrow> health_tracker option" where
  "tracker_at tid n r = Option.bind (map_of (tenants r) tid) (\<lambda>t. map_of (health t) n)"

inductive recovery_run :: "duration \<Rightarrow> tenant_id \<Rightarrow> node_id \<Rightarrow> instant list \<Rightarrow> router \<Rightarrow> router \<Rightarrow> bool"
  for cd tid n where
  ended: "recovery_run cd tid n [] r r"
| ticked: "recovery_run cd tid n ts (recovery_tick cd now r) r' \<Longrightarrow> recovery_run cd tid n (now # ts) r r'"
| worked: "router_step r r1 \<Longrightarrow> tracker_at tid n r1 = tracker_at tid n r \<Longrightarrow> recovery_run cd tid n ts r1 r'
    \<Longrightarrow> recovery_run cd tid n ts r r'"

text \<open>
  A run of the flush loop and of other operations: its first argument lists for each tick the outcome
  of the system calls and the events in memory at that time.
\<close>

inductive flush_run ::
  "(json \<Rightarrow> string) \<Rightarrow> (io_calls \<times> audit_event list) list \<Rightarrow> router \<times> string \<Rightarrow> router \<times> string \<Rightarrow> bool"
  for to_string where
  flush_ended: "flush_run to_string [] st st"
| flushed: "flush_run to_string ticks (r, flush_tick to_string io r file_text) st
    \<Longrightarrow> flush_run to_string ((io, router_events r) # ticks) (r, file_text) st"
| flush_worked: "router_step r r1 \<Longrightarrow> flush_run to_string ticks (r1, file_text) st
    \<Longrightarrow> flush_run to_string ticks (r, file_text) st"

section \<open>A recovery tick\<close>

lemma tracker_after_tick:
  "tracker_at tid n (recovery_tick cd now r)
   = map_option (\<lambda>h. snd (transition_to_half_open_if_ready cd now h)) (tracker_at tid n r)"
proof -
  have at: "tracker_at tid n r' = Option.bind (map_option health (map_of (tenants r') tid)) (\<lambda>h. map_of h n)" for r'
    by (cases "map_of (tenants r') tid") (simp_all add: tracker_at_def)
  show ?thesis
    unfolding at recovery_tick_def probe_health(1)
    by (cases "map_of (tenants r) tid") (simp_all only: map_of_probe option.map bind.simps)
qed

lemma state_tracker: "node_state_of tid n r = map_option ht_state (tracker_at tid n r)"
  by (simp add: node_state_of_def tracker_at_def split: option.split)

lemma tracker_at_of:
  "tracker_of tid n r = h \<Longrightarrow> node_state_of tid n r \<noteq> None \<Longrightarrow> tracker_at tid n r = Some h"
  by (auto simp: tracker_of_def tenant_or_default_def get_or_def tracker_at_def node_state_of_def split: option.splits)

lemma tracker_inv:
  assumes "router_reachable r" "tracker_at tid n r = Some h"
  shows "ht_inv h"
proof -
  obtain t where t: "map_of (tenants r) tid = Some t" "map_of (health t) n = Some h"
    using assms(2) by (auto simp: tracker_at_def bind_eq_Some_conv)
  have "tenant_inv t" using router_inv_tenant [OF router_reachable_inv [OF assms(1)] t(1)] .
  then show ?thesis using t(2) by (auto simp: tenant_inv_def intro: health_ok_lookup)
qed

lemma tick_opened:
  assumes "tracker_at tid n r = Some h" "ht_state h = Open" "opened_at h = Some since" "0 < cd"
  shows "tracker_at tid n (recovery_tick cd now r)
    = Some (if since + cd \<le> now then h\<lparr>ht_state := HalfOpen, consecutive_successes := 0\<rparr> else h)"
  using assms by (auto simp: tracker_after_tick transition_to_half_open_if_ready_def)

section \<open>The recovery loop heals\<close>

lemma half_open_stays:
  "recovery_run cd tid n ts r r' \<Longrightarrow> tracker_at tid n r = Some h \<Longrightarrow> ht_state h \<noteq> Open \<Longrightarrow> tracker_at tid n r' = Some h"
  by (induction rule: recovery_run.induct) (simp_all add: tracker_after_tick transition_to_half_open_if_ready_def)

text \<open>The first tick after the cooldown opens the probe, the earlier ones change nothing.\<close>

lemma recovery_run_opened:
  "recovery_run cd tid n ts r r' \<Longrightarrow> tracker_at tid n r = Some h \<Longrightarrow> ht_state h = Open \<Longrightarrow> opened_at h = Some since
   \<Longrightarrow> 0 < cd \<Longrightarrow> tracker_at tid n r' = Some (if \<exists>now \<in> set ts. since + cd \<le> now
         then h\<lparr>ht_state := HalfOpen, consecutive_successes := 0\<rparr> else h)"
proof (induction rule: recovery_run.induct)
  case (ticked ts now r r')
  show ?case
  proof (cases "since + cd \<le> now")
    case True
    then have "tracker_at tid n (recovery_tick cd now r) = Some (h\<lparr>ht_state := HalfOpen, consecutive_successes := 0\<rparr>)"
      using tick_opened [OF ticked.prems] by simp
    then show ?thesis using half_open_stays [OF ticked.hyps] True by simp
  next
    case False
    then have "tracker_at tid n (recovery_tick cd now r) = Some h" using tick_opened [OF ticked.prems] by simp
    then show ?thesis using ticked.IH ticked.prems False by simp
  qed
qed simp_all

lemma tick_in_time:
  assumes "first \<le> due" "due + period \<le> now" "0 < period"
  shows "\<exists>tick \<in> set (ticks_until first period now). due \<le> tick \<and> tick \<le> due + period"
proof -
  let ?k = "(due - first + period - 1) div period"
  have d: "?k * period + (due - first + period - 1) mod period = due - first + period - 1" by simp
  have m: "(due - first + period - 1) mod period < period" using assms(3) by simp
  have k: "due - first \<le> ?k * period" "?k * period \<le> due - first + period - 1" using d m by linarith+
  have "?k \<le> (now - first) div period"
    by (rule div_le_mono) (use assms in linarith)
  then have "first + ?k * period \<in> set (ticks_until first period now)"
    by (auto simp: ticks_until_def intro!: image_eqI [of _ _ ?k] simp del: upt_Suc)
  then show ?thesis using k assms by (intro bexI [of _ "first + ?k * period"]) linarith+
qed

lemma recovery_loop_run: "recovery_run cd tid n ts r (recovery_loop cd ts r)"
proof (induction ts arbitrary: r)
  case (Cons now ts)
  then show ?case by (auto simp: recovery_loop_def intro: recovery_run.ticked)
qed (simp add: recovery_loop_def recovery_run.ended)

text \<open>
  An open node stays open as long as no probe reads an instant after its cooldown, and is half-open
  once the probes due until one period after its cooldown have run.
\<close>

lemma recovery_run_heals:
  assumes "tracker_at tid n r = Some h" "ht_state h = Open" "opened_at h = Some since"
    and "first \<le> since + cd" "0 < period" "0 < cd"
    and "probes_after (ticks_until first period now) probes" "recovery_run cd tid n probes r r'"
  shows "((\<forall>probe \<in> set probes. probe < since + cd) \<longrightarrow> node_state_of tid n r' = Some Open)
    \<and> (since + cd + period \<le> now \<longrightarrow> node_state_of tid n r' = Some HalfOpen)"
proof -
  note run = recovery_run_opened [OF assms(8,1-3,6)]
  have "\<exists>probe \<in> set probes. since + cd \<le> probe" if due: "since + cd + period \<le> now"
  proof -
    obtain tick where tick: "tick \<in> set (ticks_until first period now)" "since + cd \<le> tick"
      using tick_in_time [OF assms(4) due assms(5)] by blast
    then obtain i where i: "i < length (ticks_until first period now)" "ticks_until first period now ! i = tick"
      by (auto simp: in_set_conv_nth)
    then have "i < length probes" "tick \<le> probes ! i"
      using assms(7) by (auto simp: probes_after_def list_all2_conv_all_nth)
    then show ?thesis using tick(2) by (intro bexI [of _ "probes ! i"]) auto
  qed
  then show ?thesis using run assms(2) by (auto simp: state_tracker not_less [symmetric])
qed

text \<open>
  The sidecar runs the loop with the cooldown and the scan interval of its configuration, and a
  configuration that loads has both: its timer does not panic and its open nodes recover.
\<close>

definition sidecar_recovery_run ::
  "'addr sidecar_config \<Rightarrow> tenant_id \<Rightarrow> node_id \<Rightarrow> instant \<Rightarrow> instant \<Rightarrow> instant list \<Rightarrow> router \<Rightarrow> router \<Rightarrow> bool" where
  "sidecar_recovery_run cfg tid n first now probes r r' \<longleftrightarrow>
     probes_after (ticks_until first (recovery_scan_interval cfg) now) probes
     \<and> recovery_run (cooldown (cfg_health_policy cfg)) tid n probes r r'"

lemma loaded_intervals:
  "load_config src args = Inr cfg \<Longrightarrow> 0 < recovery_scan_interval cfg \<and> 0 < cooldown (cfg_health_policy cfg)"
  using load_config_valid [of src args cfg]
  by (auto simp: config_valid_def health_policy_validate_def split: if_splits)

text \<open>
  C40: an open node of a running sidecar that is left alone recovers, in time and not before: with any
  configuration that loads, and whatever else happens to the router while no result and no forced
  probe of this node is recorded, the node stays open as long as no probe of the loop reads an instant
  after the configured cooldown, however late the probes are, and it is half-open once the probes due
  until one scan interval after the cooldown have run.
\<close>

theorem sidecar_nodes_recover:
  assumes "load_config src args = Inr cfg" "sidecar_recovery_run cfg tid n first now probes r r'" "router_reachable r"
    and "tracker_at tid n r = Some h" "ht_state h = Open"
    and "first \<le> the (opened_at h) + cooldown (cfg_health_policy cfg)"
  shows "((\<forall>probe \<in> set probes. probe < the (opened_at h) + cooldown (cfg_health_policy cfg))
        \<longrightarrow> node_state_of tid n r' = Some Open)
    \<and> (the (opened_at h) + cooldown (cfg_health_policy cfg) + recovery_scan_interval cfg \<le> now
        \<longrightarrow> node_state_of tid n r' = Some HalfOpen)"
proof -
  obtain since where since: "opened_at h = Some since"
    using tracker_inv [OF assms(3,4)] assms(5) by (auto simp: ht_inv_def)
  have "probes_after (ticks_until first (recovery_scan_interval cfg) now) probes"
    "recovery_run (cooldown (cfg_health_policy cfg)) tid n probes r r'"
    using assms(2) by (simp_all add: sidecar_recovery_run_def)
  from recovery_run_heals [OF assms(4,5) since _ _ _ this] show ?thesis
    using loaded_intervals [OF assms(1)] assms(6) since by simp
qed

text \<open>A node opened at the instant 7.\<close>

lemma opened_by_failure:
  "\<forall>oc \<in> set os. fst oc = now \<and> \<not> fst (snd oc) \<Longrightarrow> (ht_state t = Open \<longrightarrow> opened_at t = Some now)
   \<Longrightarrow> ht_state (apply_outcomes p os t) = Open \<longrightarrow> opened_at (apply_outcomes p os t) = Some now"
proof (induction os rule: rev_induct)
  case (snoc oc os)
  then show ?case
    by (cases oc) (simp add: apply_outcomes_def apply_outcome_def record_result_with_policy_def record_failure_def
        record_latency_sample_def Let_def)
qed (simp add: apply_outcomes_def)

lemma five_failures_opened_at:
  "opened_at (apply_outcomes default_health_policy five_failures default_health_tracker) = Some 7"
  using opened_by_failure [of five_failures 7 default_health_tracker default_health_policy] five_failures_open(2)
  by (simp add: five_failures_def default_health_tracker_def)

definition opened_example :: router where
  "opened_example = record_results ''t'' ''n'' five_failures (built_router ''t'' [])"

lemma opened_example:
  "router_reachable opened_example"
  "tracker_at ''t'' ''n'' opened_example = Some (apply_outcomes default_health_policy five_failures default_health_tracker)"
proof -
  have c: "configured ''t'' [] (built_router ''t'' [])" by (rule configured_built) simp_all
  have fresh: "tracker_of ''t'' ''n'' (built_router ''t'' []) = default_health_tracker"
    using built_tenant [of "''t''" "[]"] by (simp add: tracker_of_def tenant_or_default_def get_or_def default_tenant_def)
  have "five_failures \<noteq> []" by (simp add: five_failures_def)
  then have eff: "configured ''t'' [] opened_example" "node_state_of ''t'' ''n'' opened_example \<noteq> None"
    "tracker_of ''t'' ''n'' opened_example = apply_outcomes default_health_policy five_failures default_health_tracker"
    unfolding opened_example_def using record_results_effect [OF c, of "''n''" five_failures] fresh by simp_all
  show "router_reachable opened_example" using eff(1) by (rule configured_reachable)
  show "tracker_at ''t'' ''n'' opened_example = Some (apply_outcomes default_health_policy five_failures default_health_tracker)"
    using eff(3,2) by (rule tracker_at_of)
qed

lemma sidecar_nodes_recover_witness:
  "\<exists>cfg. load_config bare_sources [] = Inr cfg \<and>
     (let probes = ticks_until 0 (recovery_scan_interval cfg);
          run = (\<lambda>probes. recovery_loop (cooldown (cfg_health_policy cfg)) probes opened_example)
      in node_state_of ''t'' ''n'' (run [5]) = Some Open
        \<and> node_state_of ''t'' ''n'' (run (probes (7 + cooldown (cfg_health_policy cfg) + recovery_scan_interval cfg))) = Some HalfOpen)"
proof -
  obtain cfg where cfg: "load_config bare_sources [] = Inr cfg" using bare_load by blast
  have pos: "0 < recovery_scan_interval cfg" using loaded_intervals [OF cfg] by blast
  let ?run = "\<lambda>probes. recovery_loop (cooldown (cfg_health_policy cfg)) probes opened_example"
  have "sidecar_recovery_run cfg ''t'' ''n'' 0 0 [5] opened_example (?run [5])"
    by (simp add: sidecar_recovery_run_def probes_after_def ticks_until_def recovery_loop_run)
  note early = sidecar_nodes_recover [OF cfg this opened_example five_failures_open(2), unfolded five_failures_opened_at]
  have "sidecar_recovery_run cfg ''t'' ''n'' 0 now (ticks_until 0 (recovery_scan_interval cfg) now) opened_example
      (?run (ticks_until 0 (recovery_scan_interval cfg) now))" for now
    by (simp add: sidecar_recovery_run_def probes_after_def recovery_loop_run list.rel_refl)
  note due = sidecar_nodes_recover [OF cfg this opened_example five_failures_open(2), unfolded five_failures_opened_at]
  show ?thesis
    using cfg early due [of "7 + cooldown (cfg_health_policy cfg) + recovery_scan_interval cfg"] by (simp add: Let_def)
qed

section \<open>The flush loop\<close>

text \<open>
  The file only grows, and when no system call fails it grows by the whole trail at every tick: an
  event is written again at each tick until the trail has dropped it.
\<close>

lemma flush_run_appends:
  "flush_run to_string ticks st st' \<Longrightarrow> \<exists>written. snd st' = snd st @ written"
proof (induction rule: flush_run.induct)
  case (flushed ticks r io file_text st)
  obtain w where "flush_tick to_string io r file_text = file_text @ w"
    using append_events_extends [of to_string io "router_events r" file_text]
    by (auto simp: flush_tick_def append_audit_jsonl_def)
  with flushed.IH show ?case by auto
qed simp_all

theorem flush_loop_repeats:
  "flush_run to_string ticks st st' \<Longrightarrow> \<forall>(io, events) \<in> set ticks. io_succeeds io
   \<Longrightarrow> snd st' = snd st @ concat (map (\<lambda>(io, events). jsonl to_string events) ticks)"
proof (induction rule: flush_run.induct)
  case (flushed ticks r io file_text st)
  then show ?case by (simp add: flush_tick_def append_audit_jsonl_def append_events_ok)
qed simp_all

theorem flush_loop_repeats_witness:
  "let r = record_result 0 ''t'' ''n'' False 5 router_new
   in flush_tick (\<lambda>_. ''x'') io_fine r (flush_tick (\<lambda>_. ''x'') io_fine r [])
      = jsonl (\<lambda>_. ''x'') (router_events r) @ jsonl (\<lambda>_. ''x'') (router_events r)"
proof -
  let ?r = "record_result 0 ''t'' ''n'' False 5 router_new"
  let ?tick = "flush_tick (\<lambda>_. ''x'') io_fine ?r"
  have "flush_run (\<lambda>_. ''x'') [(io_fine, router_events ?r), (io_fine, router_events ?r)] (?r, []) (?r, ?tick (?tick []))"
    by (intro flush_run.flushed flush_run.flush_ended)
  from flush_loop_repeats [OF this] show ?thesis by (simp add: io_succeeds_def io_fine_def)
qed

end
