(* ===== verification/FloatRanges.thy ===== *)
theory FloatRanges
  imports Costs
begin

text \<open>
  Ranges of computed binary64 values on a fixed grid of \<open>2 ^ -20\<close>, for comparing the costs of
  concrete paths without evaluating every rounding, and the square root of the standard library.
\<close>

section \<open>Ranges on a grid\<close>

definition ranged :: "nat \<Rightarrow> nat \<Rightarrow> f64 \<Rightarrow> bool" where
  "ranged j k a \<longleftrightarrow> (\<exists>m. a = Fin False m \<and> of_nat j \<le> m * 2 ^ 20 \<and> m * 2 ^ 20 \<le> of_nat k)"

named_theorems ranges "how ranges follow from ranges"

lemma rangedE:
  assumes "ranged j k a"
  obtains m where "a = Fin False m" "of_nat j \<le> m * 2 ^ 20" "m * 2 ^ 20 \<le> of_nat k" "0 \<le> m"
proof -
  from assms obtain m where m: "a = Fin False m" "of_nat j \<le> m * 2 ^ 20" "m * 2 ^ 20 \<le> of_nat k"
    by (auto simp: ranged_def)
  have "(0 :: rat) \<le> of_nat j" by simp
  also note m(2)
  finally have "0 \<le> m" by simp
  with m show thesis using that by blast
qed

lemma ranged_mono: "ranged j k a \<Longrightarrow> j' \<le> j \<Longrightarrow> k \<le> k' \<Longrightarrow> ranged j' k' a"
  unfolding ranged_def by (auto intro: order_trans [OF of_nat_mono] order_trans [OF _ of_nat_mono])

lemma rnd_grid: "n \<le> 2 ^ 40 \<Longrightarrow> rnd (of_nat n / 2 ^ 20) * 2 ^ 20 = of_nat n"
  using rnd_fixed [of "int n" "- 20"] by (simp add: power_int_minus field_simps)

lemma ranged_mk:
  assumes "of_nat j \<le> x * 2 ^ 20" "x * 2 ^ 20 \<le> of_nat k" "k \<le> 2 ^ 40"
  shows "ranged j k (mk_f64 False x)"
proof -
  have jk: "j \<le> k" using order_trans [OF assms(1,2)] by simp
  have "of_nat j / 2 ^ 20 \<le> x" "x \<le> of_nat k / 2 ^ 20" using assms(1,2) by (simp_all add: field_simps)
  from rnd_mono [OF this(1)] rnd_mono [OF this(2)]
  have r: "of_nat j \<le> rnd x * 2 ^ 20" "rnd x * 2 ^ 20 \<le> of_nat k"
    using rnd_grid [of j] rnd_grid [OF assms(3)] jk assms(3) by (simp_all flip: mult_le_cancel_right [where c = "2 ^ 20 :: rat"])
  have "(of_nat k :: rat) \<le> 2 ^ 40" using of_nat_mono [OF assms(3), where ?'a = rat] by simp
  then have "rnd x * 2 ^ 20 \<le> max_mag * 2 ^ 20" using r(2) by (simp add: max_mag_def)
  then have "rnd x \<le> max_mag" by simp
  with r show ?thesis by (simp add: ranged_def mk_f64_def)
qed

lemma ranged_lit [ranges]:
  assumes "of_nat j \<le> x * 2 ^ 20" "x * 2 ^ 20 \<le> of_nat k" "k \<le> 2 ^ 40" "0 \<le> x"
  shows "ranged j k (f64_lit x)"
  using ranged_mk [OF assms(1-3)] assms(4) by (simp add: f64_lit_def)

lemma ranged_of_nat [ranges]: "n \<le> 2 ^ 20 \<Longrightarrow> ranged (n * 2 ^ 20) (n * 2 ^ 20) (f64_of_nat n)"
proof -
  assume n: "n \<le> 2 ^ 20"
  then have "n * 2 ^ 20 \<le> 2 ^ 20 * 2 ^ 20" by (rule mult_le_mono1)
  then show ?thesis unfolding f64_of_nat_def by (intro ranged_mk) simp_all
qed

lemma ranged_zero [ranges]: "ranged 0 0 f_zero"
  by (simp add: ranged_def)

lemma ranged_fadd [ranges]:
  assumes "ranged j k a" "ranged j' k' b" "k + k' \<le> 2 ^ 40"
  shows "ranged (j + j') (k + k') (fadd a b)"
proof -
  obtain x y where a: "a = Fin False x" "of_nat j \<le> x * 2 ^ 20" "x * 2 ^ 20 \<le> of_nat k" "0 \<le> x"
    and b: "b = Fin False y" "of_nat j' \<le> y * 2 ^ 20" "y * 2 ^ 20 \<le> of_nat k'" "0 \<le> y"
    using assms(1,2) by (elim rangedE)
  have "ranged (j + j') (k + k') (mk_f64 False (x + y))"
    using a b assms(3) by (intro ranged_mk) (simp_all add: distrib_right)
  then show ?thesis using a(1,4) b(1,4) by (simp add: fadd_fin_nonneg del: fadd.simps)
qed

lemma ranged_fsub:
  assumes "ranged j k a" "ranged j' k' b" "k' \<le> j" "k \<le> 2 ^ 40"
  shows "ranged (j - k') (k - j') (fsub a b)"
proof -
  obtain x y where a: "a = Fin False x" "of_nat j \<le> x * 2 ^ 20" "x * 2 ^ 20 \<le> of_nat k" "0 \<le> x"
    and b: "b = Fin False y" "of_nat j' \<le> y * 2 ^ 20" "y * 2 ^ 20 \<le> of_nat k'" "0 \<le> y"
    using assms(1,2) by (elim rangedE)
  have "(of_nat k' :: rat) \<le> of_nat j" using assms(3) by simp
  then have "y * 2 ^ 20 \<le> x * 2 ^ 20" using a b by linarith
  then have le: "y \<le> x" by simp
  have "(of_nat j :: rat) \<le> of_nat k" "(of_nat j' :: rat) \<le> of_nat k'" using a b by linarith+
  then have jk: "j' \<le> k'" "j \<le> k" by simp_all
  have diff: "x * 2 ^ 20 - y * 2 ^ 20 = (x - y) * 2 ^ 20" by (simp add: left_diff_distrib)
  have "ranged (j - k') (k - j') (mk_f64 False (x - y))"
  proof (rule ranged_mk)
    show "of_nat (j - k') \<le> (x - y) * 2 ^ 20" using a(2) b(3) assms(3) diff by (simp add: of_nat_diff)
    show "(x - y) * 2 ^ 20 \<le> of_nat (k - j')" using a(3) b(2) assms(3) jk diff by (simp add: of_nat_diff)
  qed (use assms(4) in simp)
  moreover have "ranged (j - k') (k - j') (Fin False 0)" if "x = y"
    using that a b diff assms(3) jk by (simp add: ranged_def of_nat_diff)
  ultimately show ?thesis using a(1) b(1) le by (auto simp: fsub_def signed_def Let_def)
qed

lemma ranged_fmul:
  assumes "ranged j k a" "ranged j' k' b" "i * 2 ^ 20 \<le> j * j'" "k * k' \<le> l * 2 ^ 20" "l \<le> 2 ^ 40"
  shows "ranged i l (fmul a b)"
proof -
  obtain x y where a: "a = Fin False x" "of_nat j \<le> x * 2 ^ 20" "x * 2 ^ 20 \<le> of_nat k" "0 \<le> x"
    and b: "b = Fin False y" "of_nat j' \<le> y * 2 ^ 20" "y * 2 ^ 20 \<le> of_nat k'" "0 \<le> y"
    using assms(1,2) by (elim rangedE)
  have "of_nat i * 2 ^ 20 \<le> (of_nat j * of_nat j' :: rat)"
    using of_nat_mono [OF assms(3), where ?'a = rat] by simp
  also have "\<dots> \<le> (x * 2 ^ 20) * (y * 2 ^ 20)" using a b by (intro mult_mono) simp_all
  finally have lo: "of_nat i \<le> x * y * 2 ^ 20" by simp
  have "(x * 2 ^ 20) * (y * 2 ^ 20) \<le> of_nat k * of_nat k'" using a b by (intro mult_mono) simp_all
  also have "\<dots> \<le> of_nat l * 2 ^ 20" using of_nat_mono [OF assms(4), where ?'a = rat] by simp
  finally have "x * y * 2 ^ 20 \<le> of_nat l" by simp
  with lo assms(5) have "ranged i l (mk_f64 False (x * y))" by (intro ranged_mk)
  then show ?thesis using a(1) b(1) by simp
qed

lemma ranged_fdiv:
  assumes "ranged j k a" "ranged j' k' b" "i * k' \<le> j * 2 ^ 20" "k * 2 ^ 20 \<le> l * j'" "0 < j'" "l \<le> 2 ^ 40"
  shows "ranged i l (fdiv a b)"
proof -
  obtain x y where a: "a = Fin False x" "of_nat j \<le> x * 2 ^ 20" "x * 2 ^ 20 \<le> of_nat k" "0 \<le> x"
    and b: "b = Fin False y" "of_nat j' \<le> y * 2 ^ 20" "y * 2 ^ 20 \<le> of_nat k'" "0 \<le> y"
    using assms(1,2) by (elim rangedE)
  have "(0 :: rat) < of_nat j'" using assms(5) by simp
  with b(2) have "0 < y * 2 ^ 20" by linarith
  then have y: "0 < y" by simp
  have "of_nat i * (y * 2 ^ 20) \<le> of_nat i * of_nat k'" using b by (intro mult_left_mono) simp_all
  also have "\<dots> \<le> of_nat j * 2 ^ 20" using of_nat_mono [OF assms(3), where ?'a = rat] by simp
  also have "\<dots> \<le> (x * 2 ^ 20) * 2 ^ 20" using a by (intro mult_right_mono) simp_all
  finally have lo: "of_nat i \<le> x / y * 2 ^ 20" using y by (simp add: field_simps)
  have "(x * 2 ^ 20) * 2 ^ 20 \<le> of_nat k * 2 ^ 20" using a by (intro mult_right_mono) simp_all
  also have "\<dots> \<le> of_nat l * of_nat j'" using of_nat_mono [OF assms(4), where ?'a = rat] by simp
  also have "\<dots> \<le> of_nat l * (y * 2 ^ 20)" using b by (intro mult_left_mono) simp_all
  finally have "x / y * 2 ^ 20 \<le> of_nat l" using y by (simp add: field_simps)
  with lo assms(6) have "ranged i l (mk_f64 False (x / y))" by (intro ranged_mk)
  then show ?thesis using a(1) b(1) y by simp
qed

lemma ranged_unit_clamp: "ranged j k a \<Longrightarrow> ranged (min j (2 ^ 20)) (min k (2 ^ 20)) (fclamp a f_zero f_one)"
proof -
  assume a: "ranged j k a"
  then obtain m where m: "a = Fin False m" "of_nat j \<le> m * 2 ^ 20" "m * 2 ^ 20 \<le> of_nat k" "0 \<le> m" by (elim rangedE)
  have one: "ranged (min j (2 ^ 20)) (min k (2 ^ 20)) f_one" if "1 < m"
  proof -
    have "(1 :: rat) * 2 ^ 20 < m * 2 ^ 20" using that by (intro mult_strict_right_mono) simp_all
    then have "(2 ^ 20 :: rat) < of_nat k" using m(3) by linarith
    then have "(of_nat (2 ^ 20) :: rat) \<le> of_nat k" by simp
    then have k: "2 ^ 20 \<le> k" by (simp only: of_nat_le_iff)
    have "ranged (2 ^ 20) (2 ^ 20) f_one" by (simp add: ranged_def)
    then show ?thesis by (rule ranged_mono) (use k in simp_all)
  qed
  have "ranged (min j (2 ^ 20)) (min k (2 ^ 20)) a" if "m \<le> 1"
  proof (cases "k \<le> 2 ^ 20")
    case True
    from a show ?thesis by (rule ranged_mono) (use True in simp_all)
  next
    case False
    have "m * 2 ^ 20 \<le> 1 * 2 ^ 20" using that by (intro mult_right_mono) simp_all
    then have "ranged j (2 ^ 20) a" using m by (simp add: ranged_def)
    then show ?thesis by (rule ranged_mono) (use False in simp_all)
  qed
  with one m show ?thesis by (cases "m \<le> 1") (simp_all add: fclamp_def f_lt_def signed_def)
qed

lemma ranged_normalize:
  assumes "ranged j k a" "ranged j' k' b" "i * k' \<le> j * 2 ^ 20" "k * 2 ^ 20 \<le> l * j'" "0 < j'" "l \<le> 2 ^ 40"
  shows "ranged (min i (2 ^ 20)) (min l (2 ^ 20)) (normalize a b)"
proof -
  obtain y where b: "b = Fin False y" "of_nat j' \<le> y * 2 ^ 20" "0 \<le> y" using assms(2) by (elim rangedE)
  have "(0 :: rat) < of_nat j'" using assms(5) by simp
  with b(2) have "0 < y * 2 ^ 20" by linarith
  then have "0 < y" by simp
  then have "\<not> f_le b f_zero" using b(1) by (simp add: f_le_def signed_def)
  moreover have "ranged i l (fdiv a b)" using assms by (intro ranged_fdiv [OF assms(1,2)]) simp_all
  ultimately show ?thesis using ranged_unit_clamp by (simp add: normalize_def)
qed

lemma ranged_less: "ranged j k a \<Longrightarrow> ranged j' k' b \<Longrightarrow> k < j' \<Longrightarrow> a < b \<and> a \<le> b \<and> \<not> b \<le> a"
proof -
  assume ab: "ranged j k a" "ranged j' k' b" "k < j'"
  obtain x y where a: "a = Fin False x" "x * 2 ^ 20 \<le> of_nat k" and b: "b = Fin False y" "of_nat j' \<le> y * 2 ^ 20"
    using ab(1,2) by (elim rangedE)
  have "(of_nat k :: rat) < of_nat j'" using ab(3) by simp
  then have "x * 2 ^ 20 < y * 2 ^ 20" using a b by linarith
  then show ?thesis using a(1) b(1) by (simp add: less_eq_f64_def less_f64_def)
qed

lemma ranged_f_lt: "ranged j k a \<Longrightarrow> ranged j' k' b \<Longrightarrow> k < j' \<Longrightarrow> f_lt a b"
  using ranged_less [of j k a j' k' b] f_lt_nonneg [of a b] by (auto elim!: rangedE)

section \<open>The square root\<close>

text \<open>\<open>f64::sqrt\<close> rounds correctly; a tie cannot occur, as half an odd number has no 53-bit square.\<close>

fun isqrt :: "nat \<Rightarrow> nat" where
  "isqrt n = (if n = 0 then 0 else let r = 2 * isqrt (n div 4) in if (r + 1) ^ 2 \<le> n then r + 1 else r)"

declare isqrt.simps [simp del]

lemma isqrt: "isqrt n ^ 2 \<le> n \<and> n < (isqrt n + 1) ^ 2"
proof (induction n rule: isqrt.induct)
  case (1 n)
  show ?case
  proof (cases "n = 0")
    case False
    let ?r = "isqrt (n div 4)"
    have IH: "?r ^ 2 \<le> n div 4" "n div 4 < (?r + 1) ^ 2" using 1 False by auto
    have "4 * ?r ^ 2 \<le> n" using IH(1) by linarith
    moreover have "n < 4 * (?r + 1) ^ 2" using IH(2) by linarith
    ultimately show ?thesis using False by (simp add: isqrt.simps [of n] Let_def power2_eq_square algebra_simps)
  qed (simp add: isqrt.simps)
qed

fun fsqrt :: "f64 \<Rightarrow> f64" where
  "fsqrt (Fin s m) =
     (if m = 0 then Fin s 0 else if s then f_nan
      else let u = lead_exp m div 2 - 52;
               y = m / 2 powi (2 * u);
               q = isqrt (nat \<lfloor>y\<rfloor>)
           in Fin False (of_nat (if of_nat (q ^ 2 + q) + 1 / 4 < y then q + 1 else q) * 2 powi u))"
| "fsqrt (Inf s) = (if s then f_nan else Inf False)"
| "fsqrt (NaN s p) = NaN s p"

text \<open>The result is within half a unit of its last place of the exact root.\<close>

lemma fsqrt_nearest:
  assumes "0 < m"
  obtains n u where "fsqrt (Fin False m) = Fin False (of_nat n * 2 powi u)"
    "m \<le> ((of_nat n + 1 / 2) * 2 powi u) ^ 2" "0 < n \<longrightarrow> ((of_nat n - 1 / 2) * 2 powi u) ^ 2 \<le> m"
proof -
  define u where "u = lead_exp m div 2 - 52"
  define y where "y = m / 2 powi (2 * u)"
  define q where "q = isqrt (nat \<lfloor>y\<rfloor>)"
  define n where "n = (if of_nat (q ^ 2 + q) + 1 / 4 < y then q + 1 else q)"
  have y0: "0 < y" using assms by (simp add: y_def)
  have m: "m = y * (2 powi u) ^ 2" by (simp add: y_def power2_eq_square flip: power_int_add)
  have fl: "of_nat (nat \<lfloor>y\<rfloor>) \<le> y" "y < of_nat (nat \<lfloor>y\<rfloor>) + 1" using y0 by (simp_all add: floor_less_cancel of_nat_nat)
  have "q ^ 2 \<le> nat \<lfloor>y\<rfloor>" "Suc (nat \<lfloor>y\<rfloor>) \<le> (q + 1) ^ 2" using isqrt [of "nat \<lfloor>y\<rfloor>"] by (simp_all add: q_def)
  from of_nat_mono [OF this(1), where ?'a = rat] of_nat_mono [OF this(2), where ?'a = rat]
  have q: "of_nat q ^ 2 \<le> y" "y < (of_nat q + 1) ^ 2" using fl by (simp_all add: algebra_simps)
  have up: "y \<le> (of_nat n + 1 / 2) ^ 2"
    using q(2) by (auto simp: n_def power2_eq_square algebra_simps intro: order_trans [OF less_imp_le])
  have lo: "(of_nat n - 1 / 2) ^ 2 \<le> y" if "0 < n"
    using q(1) that by (auto simp: n_def power2_eq_square algebra_simps)
  show thesis
  proof (rule that)
    show "fsqrt (Fin False m) = Fin False (of_nat n * 2 powi u)"
      using assms by (simp add: Let_def n_def q_def y_def u_def)
    show "m \<le> ((of_nat n + 1 / 2) * 2 powi u) ^ 2"
      unfolding m power_mult_distrib using up by (intro mult_right_mono) simp_all
    show "0 < n \<longrightarrow> ((of_nat n - 1 / 2) * 2 powi u) ^ 2 \<le> m"
      unfolding m power_mult_distrib using lo by (intro impI mult_right_mono) simp_all
  qed
qed

end
