(* ===== verification/SearchNetwork.thy ===== *)
theory SearchNetwork
  imports Drivers FloatRanges
begin

text \<open>
  The network of two search tools in front of a summariser that the demonstration and the
  baseline program build (and the sidecar for its demonstration tenant): its paths, its costs, and
  the decisions a router makes over it while none, one or both of the searches are open.
\<close>

section \<open>The network\<close>

definition search_edges :: "edge list" where
  "search_edges =
     [edge_with_costs (f64_lit 1) (f64_lit (1/1000)) 120 (f64_lit (1/10)) (edge_new ''start'' ''primary_search''),
      edge_with_costs (f64_lit 1) (f64_lit (2/1000)) 320 (f64_lit (2/10)) (edge_new ''primary_search'' ''summarize''),
      edge_with_costs (f64_lit 10) (f64_lit (1/100)) 1000 (f64_lit 1) (edge_new ''start'' ''fallback_search''),
      edge_with_costs (f64_lit 5) (f64_lit (5/1000)) 800 (f64_lit (5/10)) (edge_new ''fallback_search'' ''summarize''),
      edge_with_costs (f64_lit 1) (f64_lit (1/1000)) 120 (f64_lit (1/10)) (edge_new ''summarize'' ''done'')]"

abbreviation path_via :: "node_id \<Rightarrow> node_id list" where
  "path_via search \<equiv> [''start'', search, ''summarize'', ''done'']"

section \<open>Paths of the network\<close>

lemma lit_usable: "0 \<le> x \<Longrightarrow> x \<le> 100 \<Longrightarrow> is_finite (f64_lit x) \<and> f_ge (f64_lit x) f_zero"
proof -
  assume x: "0 \<le> x" "x \<le> 100"
  then have "ranged 0 (100 * 2 ^ 20) (f64_lit x)" by (intro ranged_lit) simp_all
  then show ?thesis by (elim rangedE) (simp add: f_le_def signed_def)
qed

lemma search_edges_wf: "\<forall>e \<in> set search_edges. wf_edge e" "2 * length search_edges < 2 ^ 32 - 1"
  by (simp_all add: search_edges_def edge_with_costs_def edge_new_def wf_edge_def f64_lit_def)

lemma costs_usable:
  assumes "0 \<le> b" "b \<le> 100" "0 \<le> d" "d \<le> 100" "0 \<le> k" "k \<le> 100"
  shows "enabled (edge_with_costs (f64_lit b) (f64_lit d) l (f64_lit k) (edge_new x y))"
    "ie_is_valid (index_edge i (edge_with_costs (f64_lit b) (f64_lit d) l (f64_lit k) (edge_new x y)))"
  using lit_usable assms by (simp_all add: edge_with_costs_def edge_new_def index_edge_def ie_is_valid_def)

lemma edge_ends [simp]:
  "edge_from (edge_with_costs b d l k (edge_new x y)) = x" "edge_to (edge_with_costs b d l k (edge_new x y)) = y"
  by (simp_all add: edge_with_costs_def edge_new_def)

lemma search_edge:
  "edge_among search_edges a b \<longleftrightarrow> (a, b) \<in> {(''start'', ''primary_search''), (''primary_search'', ''summarize''),
     (''start'', ''fallback_search''), (''fallback_search'', ''summarize''), (''summarize'', ''done'')}"
  by (subst edge_among_image) (simp_all add: search_edges_def costs_usable del: lit_9 lit_10)

lemma search_paths:
  assumes "open_nodes tid r \<subseteq> {''primary_search'', ''fallback_search''}"
  shows "net_path tid search_edges r ''start'' ''done'' p
    \<longleftrightarrow> (\<exists>s \<in> {''primary_search'', ''fallback_search''} - open_nodes tid r. p = path_via s)"
proof
  assume p: "net_path tid search_edges r ''start'' ''done'' p"
  then obtain xs where xs: "p = ''start'' # xs" by (cases p) (auto simp: net_path_def)
  then obtain x q where q: "p = ''start'' # x # q" using p by (cases xs) (auto simp: net_path_def)
  have x: "x \<in> {''primary_search'', ''fallback_search''} - open_nodes tid r"
    using p by (auto simp: q net_path_def search_edge)
  then obtain y q' where q': "q = y # q'" using p by (cases q) (auto simp: q net_path_def)
  have y: "y = ''summarize''" using p x by (auto simp: q q' net_path_def search_edge)
  then obtain z q'' where q'': "q' = z # q''" using p by (cases q') (auto simp: q q' net_path_def)
  have z: "z = ''done''" using p y by (auto simp: q q' q'' net_path_def search_edge)
  have "q'' = []" using p z by (cases q'') (auto simp: q q' q'' net_path_def search_edge)
  then show "\<exists>s \<in> {''primary_search'', ''fallback_search''} - open_nodes tid r. p = path_via s"
    using x y z by (simp add: q q' q'')
next
  assume "\<exists>s \<in> {''primary_search'', ''fallback_search''} - open_nodes tid r. p = path_via s"
  then show "net_path tid search_edges r ''start'' ''done'' p"
    using assms by (auto simp: net_path_def search_edge)
qed

section \<open>Which path is cheaper\<close>

text \<open>The weight of an edge under the default model, from ranges of its normalised parts.\<close>

lemma default_weights_ranged:
  "ranged 419430 419431 (w_dollar (weights default_cost_model))" "ranged 314572 314573 (w_latency (weights default_cost_model))"
  "ranged 209715 209716 (w_risk (weights default_cost_model))" "ranged 104857 104858 (w_base (weights default_cost_model))"
  "ranged 10485 10486 (max_dollar (ceilings default_cost_model))"
  "ranged 1048576000 1048576000 (f64_of_u64 (max_latency_ms (ceilings default_cost_model)))"
  "ranged 10485760 10485760 (max_base (ceilings default_cost_model))"
  using ranged_of_nat [of 1000] ranged_lit [of 10485760 10 10485760]
  by (simp_all add: default_cost_model_def default_cost_weights_def default_cost_ceilings_def ranged_lit)

lemma ranged_product:
  "ranged j k a \<Longrightarrow> ranged j' k' b \<Longrightarrow> k * k' div 2 ^ 20 + 1 \<le> 2 ^ 40
   \<Longrightarrow> ranged (j * j' div 2 ^ 20) (k * k' div 2 ^ 20 + 1) (fmul a b)"
proof (rule ranged_fmul)
  have "k * k' = k * k' div 2 ^ 20 * 2 ^ 20 + k * k' mod 2 ^ 20" by simp
  also have "\<dots> \<le> (k * k' div 2 ^ 20 + 1) * 2 ^ 20" using mod_less_divisor [of "2 ^ 20" "k * k'"] by simp
  finally show "k * k' \<le> (k * k' div 2 ^ 20 + 1) * 2 ^ 20" .
  show "j * j' div 2 ^ 20 * 2 ^ 20 \<le> j * j'" by (rule div_times_less_eq_dividend)
qed

lemma small_sum:
  fixes a b c d :: nat
  assumes "a \<le> 419431" "b \<le> 314573" "c \<le> 209716" "d \<le> 104858"
  shows "a + 1 + (b + 1) \<le> 2 ^ 40" "a + 1 + (b + 1) + (c + 1) \<le> 2 ^ 40"
    "a + 1 + (b + 1) + (c + 1) + (d + 1) \<le> 2 ^ 40"
  using assms by simp_all

lemma default_weight_ranged:
  assumes "ie_is_valid e"
    and "ranged d1 d2 (normalize (ie_dollar_cost e) (max_dollar (ceilings default_cost_model)))" "d2 \<le> 2 ^ 20"
    and "ranged l1 l2 (normalize (f64_of_u64 (ie_latency_ms e)) (f64_of_u64 (max_latency_ms (ceilings default_cost_model))))" "l2 \<le> 2 ^ 20"
    and "ranged k1 k2 (fclamp (ie_risk e) f_zero f_one)" "k2 \<le> 2 ^ 20"
    and "ranged b1 b2 (normalize (ie_base_cost e) (max_base (ceilings default_cost_model)))" "b2 \<le> 2 ^ 20"
  shows "ranged (419430 * d1 div 2 ^ 20 + 314572 * l1 div 2 ^ 20 + 209715 * k1 div 2 ^ 20 + 104857 * b1 div 2 ^ 20)
      (419431 * d2 div 2 ^ 20 + 1 + (314573 * l2 div 2 ^ 20 + 1) + (209716 * k2 div 2 ^ 20 + 1) + (104858 * b2 div 2 ^ 20 + 1))
      (ie_weight default_cost_model e)"
proof -
  have small: "w * x div 2 ^ 20 \<le> w" if "x \<le> 2 ^ 20" for w x :: nat
    using div_le_mono [OF mult_le_mono2 [OF that, of w], of "2 ^ 20"] by simp
  note sums = small [OF assms(3), of 419431] small [OF assms(5), of 314573] small [OF assms(7), of 209716] small [OF assms(9), of 104858]
  have dollar: "ranged (419430 * d1 div 2 ^ 20) (419431 * d2 div 2 ^ 20 + 1) (fmul (w_dollar (weights default_cost_model))
      (normalize (ie_dollar_cost e) (max_dollar (ceilings default_cost_model))))"
    using sums(1) by (intro ranged_product default_weights_ranged assms) simp
  have latency: "ranged (314572 * l1 div 2 ^ 20) (314573 * l2 div 2 ^ 20 + 1) (fmul (w_latency (weights default_cost_model))
      (normalize (f64_of_u64 (ie_latency_ms e)) (f64_of_u64 (max_latency_ms (ceilings default_cost_model)))))"
    using sums(2) by (intro ranged_product default_weights_ranged assms) simp
  have riskp: "ranged (209715 * k1 div 2 ^ 20) (209716 * k2 div 2 ^ 20 + 1) (fmul (w_risk (weights default_cost_model))
      (fclamp (ie_risk e) f_zero f_one))"
    using sums(3) by (intro ranged_product default_weights_ranged assms) simp
  have base: "ranged (104857 * b1 div 2 ^ 20) (104858 * b2 div 2 ^ 20 + 1) (fmul (w_base (weights default_cost_model))
      (normalize (ie_base_cost e) (max_base (ceilings default_cost_model))))"
    using sums(4) by (intro ranged_product default_weights_ranged assms) simp
  have ok: "\<not> (\<not> ie_is_valid e \<or> isl (cost_model_validate default_cost_model))"
    using assms(1) default_model_moderate by (simp add: moderate_model_def)
  show ?thesis
    unfolding ie_weight_def Let_def if_not_P [OF ok]
    by (rule ranged_fadd [OF ranged_fadd [OF ranged_fadd [OF dollar latency] riskp] base])
       (rule small_sum [OF sums])+
qed

abbreviation model_weight :: "edge \<Rightarrow> f64" where
  "model_weight e \<equiv> ie_weight default_cost_model (index_edge 0 e)"

lemma lit_part:
  assumes "0 \<le> x" "of_nat j \<le> x * 2 ^ 20" "x * 2 ^ 20 \<le> of_nat k" "k \<le> 2 ^ 30"
    and "ranged j' k' c" "i * k' \<le> j * 2 ^ 20" "k * 2 ^ 20 \<le> l * j'" "0 < j'" "l \<le> 2 ^ 40"
  shows "ranged (min i (2 ^ 20)) (min l (2 ^ 20)) (normalize (f64_lit x) c)"
  using assms by (intro ranged_normalize [OF ranged_lit assms(5)]) simp_all

lemma latency_part:
  assumes "unat w \<le> 2 ^ 20" "i * 1000 \<le> unat w * 2 ^ 20" "unat w * 2 ^ 20 \<le> l * 1000" "l \<le> 2 ^ 40"
  shows "ranged (min i (2 ^ 20)) (min l (2 ^ 20))
    (normalize (f64_of_u64 w) (f64_of_u64 (max_latency_ms (ceilings default_cost_model))))"
  using assms by (intro ranged_normalize [OF ranged_of_nat default_weights_ranged(6)]) simp_all

lemma risk_part:
  assumes "0 \<le> x" "of_nat j \<le> x * 2 ^ 20" "x * 2 ^ 20 \<le> of_nat k" "k \<le> 2 ^ 30"
  shows "ranged (min j (2 ^ 20)) (min k (2 ^ 20)) (fclamp (f64_lit x) f_zero f_one)"
  using assms by (intro ranged_unit_clamp ranged_lit) simp_all

lemma cost_fields:
  "ie_dollar_cost (index_edge i (edge_with_costs b d l k e)) = d" "ie_base_cost (index_edge i (edge_with_costs b d l k e)) = b"
  "ie_latency_ms (index_edge i (edge_with_costs b d l k e)) = l" "ie_risk (index_edge i (edge_with_costs b d l k e)) = k"
  by (simp_all add: index_edge_def edge_with_costs_def)

lemma cheap_weight:
  "ranged 0 140000 (ie_weight default_cost_model (index_edge i
     (edge_with_costs (f64_lit 1) (f64_lit (1/1000)) 120 (f64_lit (1/10)) (edge_new x y))))"
proof -
  let ?e = "index_edge i (edge_with_costs (f64_lit 1) (f64_lit (1/1000)) 120 (f64_lit (1/10)) (edge_new x y))"
  have d: "ranged 0 131072 (normalize (ie_dollar_cost ?e) (max_dollar (ceilings default_cost_model)))"
    unfolding cost_fields
    using lit_part [of "1/1000" 0 1049, OF _ _ _ _ default_weights_ranged(5), of 0 131072] by simp
  have b: "ranged 0 131072 (normalize (ie_base_cost ?e) (max_base (ceilings default_cost_model)))"
    unfolding cost_fields
    using lit_part [of 1 0 1048576, OF _ _ _ _ default_weights_ranged(7), of 0 131072] by (simp del: lit_9 lit_10)
  have l: "ranged 0 131072 (normalize (f64_of_u64 (ie_latency_ms ?e)) (f64_of_u64 (max_latency_ms (ceilings default_cost_model))))"
    unfolding cost_fields using latency_part [of 120 0 131072] by simp
  have k: "ranged 0 131072 (fclamp (ie_risk ?e) f_zero f_one)"
    unfolding cost_fields using risk_part [of "1/10" 0 131072] by simp
  have v: "ie_is_valid ?e" by (rule costs_usable) simp_all
  from default_weight_ranged [OF v d _ l _ k _ b] show ?thesis by (rule ranged_mono) simp_all
qed

lemma middle_weight:
  "ranged 0 380000 (ie_weight default_cost_model (index_edge i
     (edge_with_costs (f64_lit 1) (f64_lit (2/1000)) 320 (f64_lit (2/10)) (edge_new x y))))"
proof -
  let ?e = "index_edge i (edge_with_costs (f64_lit 1) (f64_lit (2/1000)) 320 (f64_lit (2/10)) (edge_new x y))"
  have d: "ranged 0 262144 (normalize (ie_dollar_cost ?e) (max_dollar (ceilings default_cost_model)))"
    unfolding cost_fields
    using lit_part [of "2/1000" 0 2098, OF _ _ _ _ default_weights_ranged(5), of 0 262144] by simp
  have b: "ranged 0 131072 (normalize (ie_base_cost ?e) (max_base (ceilings default_cost_model)))"
    unfolding cost_fields
    using lit_part [of 1 0 1048576, OF _ _ _ _ default_weights_ranged(7), of 0 131072] by (simp del: lit_9 lit_10)
  have l: "ranged 0 340000 (normalize (f64_of_u64 (ie_latency_ms ?e)) (f64_of_u64 (max_latency_ms (ceilings default_cost_model))))"
    unfolding cost_fields using latency_part [of 320 0 340000] by simp
  have k: "ranged 0 262144 (fclamp (ie_risk ?e) f_zero f_one)"
    unfolding cost_fields using risk_part [of "2/10" 0 262144] by simp
  have v: "ie_is_valid ?e" by (rule costs_usable) simp_all
  from default_weight_ranged [OF v d _ l _ k _ b] show ?thesis by (rule ranged_mono) simp_all
qed

lemma dear_weight:
  "ranged 1048500 1048600 (ie_weight default_cost_model (index_edge i
     (edge_with_costs (f64_lit 10) (f64_lit (1/100)) 1000 (f64_lit 1) (edge_new x y))))"
proof -
  let ?e = "index_edge i (edge_with_costs (f64_lit 10) (f64_lit (1/100)) 1000 (f64_lit 1) (edge_new x y))"
  have d: "ranged 1048476 1048576 (normalize (ie_dollar_cost ?e) (max_dollar (ceilings default_cost_model)))"
    unfolding cost_fields
    using lit_part [of "1/100" 10485 10486, OF _ _ _ _ default_weights_ranged(5), of 1048476 1048677] by simp
  have b: "ranged 1048576 1048576 (normalize (ie_base_cost ?e) (max_base (ceilings default_cost_model)))"
    unfolding cost_fields
    using lit_part [of 10 10485760 10485760, OF _ _ _ _ default_weights_ranged(7), of 1048576 1048576] by (simp del: lit_9 lit_10)
  have l: "ranged 1048576 1048576 (normalize (f64_of_u64 (ie_latency_ms ?e)) (f64_of_u64 (max_latency_ms (ceilings default_cost_model))))"
    unfolding cost_fields using latency_part [of 1000 1048576 1048576] by simp
  have k: "ranged 1048576 1048576 (fclamp (ie_risk ?e) f_zero f_one)"
    unfolding cost_fields using risk_part [of 1 1048576 1048576] by simp
  have v: "ie_is_valid ?e" by (rule costs_usable) simp_all
  from default_weight_ranged [OF v d _ l _ k _ b] show ?thesis by (rule ranged_mono) simp_all
qed

lemma fallback_weight:
  "ranged 0 625000 (ie_weight default_cost_model (index_edge i
     (edge_with_costs (f64_lit 5) (f64_lit (5/1000)) 800 (f64_lit (5/10)) (edge_new x y))))"
proof -
  let ?e = "index_edge i (edge_with_costs (f64_lit 5) (f64_lit (5/1000)) 800 (f64_lit (5/10)) (edge_new x y))"
  have d: "ranged 0 525000 (normalize (ie_dollar_cost ?e) (max_dollar (ceilings default_cost_model)))"
    unfolding cost_fields
    using lit_part [of "5/1000" 0 5243, OF _ _ _ _ default_weights_ranged(5), of 0 525000] by simp
  have b: "ranged 0 524288 (normalize (ie_base_cost ?e) (max_base (ceilings default_cost_model)))"
    unfolding cost_fields
    using lit_part [of 5 0 5242880, OF _ _ _ _ default_weights_ranged(7), of 0 524288] by (simp del: lit_9 lit_10)
  have l: "ranged 0 838861 (normalize (f64_of_u64 (ie_latency_ms ?e)) (f64_of_u64 (max_latency_ms (ceilings default_cost_model))))"
    unfolding cost_fields using latency_part [of 800 0 838861] by simp
  have k: "ranged 0 524288 (fclamp (ie_risk ?e) f_zero f_one)"
    unfolding cost_fields using risk_part [of "5/10" 0 524288] by simp
  have v: "ie_is_valid ?e" by (rule costs_usable) simp_all
  from default_weight_ranged [OF v d _ l _ k _ b] show ?thesis by (rule ranged_mono) simp_all
qed

section \<open>The interned network\<close>

lemma search_graph:
  "node_to_id (graph_of search_edges) = [(''start'', 0), (''primary_search'', 1), (''summarize'', 2),
     (''fallback_search'', 3), (''done'', 4)]"
  "id_to_node (graph_of search_edges) = [''start'', ''primary_search'', ''summarize'', ''fallback_search'', ''done'']"
  "adjacency (graph_of search_edges) = [[index_edge 1 (search_edges ! 0), index_edge 3 (search_edges ! 2)],
     [index_edge 2 (search_edges ! 1)], [index_edge 4 (search_edges ! 4)], [index_edge 2 (search_edges ! 3)], []]"
  by (simp_all add: graph_of_def search_edges_def graph_add_edge_def get_or_insert_node_def empty_graph_def Let_def
      flip: index_edge_def del: lit_9 lit_10)

section \<open>The primary path is the cheaper one\<close>

definition plain_cost :: "indexed_edge \<Rightarrow> f64" where
  "plain_cost e = fadd (ie_weight default_cost_model e) f_zero"

lemma plain_edge_cost:
  assumes "enabled e" "ie_is_valid (index_edge i e)" "ranged lo hi (ie_weight default_cost_model (index_edge i e))" "hi \<le> 2 ^ 40"
  shows "edge_cost [] default_cost_model g (index_edge i e) = Some (plain_cost (index_edge i e))"
    "ranged lo hi (plain_cost (index_edge i e))"
proof -
  show r: "ranged lo hi (plain_cost (index_edge i e))"
    using ranged_fadd [OF assms(3) ranged_zero] assms(4) by (simp add: plain_cost_def)
  show "edge_cost [] default_cost_model g (index_edge i e) = Some (plain_cost (index_edge i e))"
    using assms(1,2) r by (auto simp: edge_cost_def health_penalty_def plain_cost_def index_edge_def Let_def
        simp del: fadd.simps elim!: rangedE)
qed

lemma search_edge_nth:
  "search_edges ! 0 = edge_with_costs (f64_lit 1) (f64_lit (1/1000)) 120 (f64_lit (1/10)) (edge_new ''start'' ''primary_search'')"
  "search_edges ! 1 = edge_with_costs (f64_lit 1) (f64_lit (2/1000)) 320 (f64_lit (2/10)) (edge_new ''primary_search'' ''summarize'')"
  "search_edges ! 2 = edge_with_costs (f64_lit 10) (f64_lit (1/100)) 1000 (f64_lit 1) (edge_new ''start'' ''fallback_search'')"
  "search_edges ! 3 = edge_with_costs (f64_lit 5) (f64_lit (5/1000)) 800 (f64_lit (5/10)) (edge_new ''fallback_search'' ''summarize'')"
  "search_edges ! 4 = edge_with_costs (f64_lit 1) (f64_lit (1/1000)) 120 (f64_lit (1/10)) (edge_new ''summarize'' ''done'')"
  by (simp_all add: search_edges_def)

lemma search_edge_costs:
  "edge_cost [] default_cost_model g (index_edge i (search_edges ! 0)) = Some (plain_cost (index_edge i (search_edges ! 0)))"
  "ranged 0 140000 (plain_cost (index_edge i (search_edges ! 0)))"
  "edge_cost [] default_cost_model g (index_edge i (search_edges ! 1)) = Some (plain_cost (index_edge i (search_edges ! 1)))"
  "ranged 0 380000 (plain_cost (index_edge i (search_edges ! 1)))"
  "edge_cost [] default_cost_model g (index_edge i (search_edges ! 2)) = Some (plain_cost (index_edge i (search_edges ! 2)))"
  "ranged 1048500 1048600 (plain_cost (index_edge i (search_edges ! 2)))"
  "edge_cost [] default_cost_model g (index_edge i (search_edges ! 3)) = Some (plain_cost (index_edge i (search_edges ! 3)))"
  "ranged 0 625000 (plain_cost (index_edge i (search_edges ! 3)))"
  "edge_cost [] default_cost_model g (index_edge i (search_edges ! 4)) = Some (plain_cost (index_edge i (search_edges ! 4)))"
  "ranged 0 140000 (plain_cost (index_edge i (search_edges ! 4)))"
  unfolding search_edge_nth
  by (rule plain_edge_cost [OF costs_usable(1) costs_usable(2) cheap_weight]
      plain_edge_cost [OF costs_usable(1) costs_usable(2) middle_weight]
      plain_edge_cost [OF costs_usable(1) costs_usable(2) dear_weight]
      plain_edge_cost [OF costs_usable(1) costs_usable(2) fallback_weight]; simp)+

lemma costed_path_snoc:
  assumes "costed_path hs s (p @ [v]) u c" "p \<noteq> []"
  obtains c' w where "u = v" "costed_path hs s p (last p) c'" "(v, w) \<in> set (hs (last p))" "c = fadd c' w"
proof -
  have "\<exists>c' w. u = v \<and> costed_path hs s p (last p) c' \<and> (v, w) \<in> set (hs (last p)) \<and> c = fadd c' w"
    using assms(1) by (cases rule: costed_path.cases) (use assms(2) costed_path_ends in force)+
  then show thesis using that by blast
qed

lemma search_hops:
  defines "hs \<equiv> hops [] default_cost_model (graph_of search_edges)"
  shows "hs 0 = [(1, plain_cost (index_edge 1 (search_edges ! 0))), (3, plain_cost (index_edge 3 (search_edges ! 2)))]"
    "hs 1 = [(2, plain_cost (index_edge 2 (search_edges ! 1)))]"
    "hs 2 = [(4, plain_cost (index_edge 4 (search_edges ! 4)))]"
    "hs 3 = [(2, plain_cost (index_edge 2 (search_edges ! 3)))]"
  unfolding hs_def hops_def search_graph(3)
  by (simp_all add: List.map_filter_def search_edge_costs del: One_nat_def) (simp_all add: index_edge_def)

lemma names_of_ids:
  assumes "map (\<lambda>u. id_to_node (graph_of search_edges) ! unat (u :: u32)) q = path_via ''fallback_search''"
    and "\<forall>u \<in> set q. unat u < 5"
  shows "q = [0, 3, 2, 4]"
proof -
  have id: "u = k" if "id_to_node (graph_of search_edges) ! unat u = id_to_node (graph_of search_edges) ! unat k"
      "unat u < 5" "unat k < 5" for u k :: u32
  proof -
    have "distinct (id_to_node (graph_of search_edges))" by (simp add: search_graph)
    then have "unat u = unat k" using that by (simp add: nth_eq_iff_index_eq search_graph(2))
    then show ?thesis by (simp add: word_unat_eq_iff)
  qed
  from assms(1) obtain a b c d where q: "q = [a, b, c, d]" by (auto simp: map_eq_Cons_conv)
  show ?thesis
    using assms id [of a 0] id [of b 3] id [of c 2] id [of d 4] by (simp add: q search_graph(2))
qed

lemma primary_preferred:
  assumes "shortest_path [] default_cost_model (graph_of search_edges) ''start'' ''done'' = Some rt"
  shows "nodes rt \<noteq> path_via ''fallback_search''"
proof
  assume fb: "nodes rt = path_via ''fallback_search''"
  let ?g = "graph_of search_edges" and ?hs = "hops [] default_cost_model (graph_of search_edges)"
  have wf: "wf_graph ?g" using interned_graph_wf [OF search_edges_wf] .
  have ids: "map_of (node_to_id ?g) ''start'' = Some 0" "map_of (node_to_id ?g) ''done'' = Some 4"
    by (simp_all add: search_graph)
  have opt: "optimal_route ?hs (id_to_node ?g) 0 4 (Some rt)"
    using shortest_path_search(1) [OF wf default_cost_model_wf health_ok_nil ids] assms by simp
  then obtain q where q: "costed_path ?hs 0 q 4 (total_cost rt)" "nodes rt = map (\<lambda>u. id_to_node ?g ! unat u) q"
    by (auto simp: optimal_route_def)
  have "\<forall>u \<in> set q. unat u < length (id_to_node ?g)"
    using costed_path_in [OF q(1) hops_ok_graph [OF wf_graph_edges [OF wf] default_cost_model_wf health_ok_nil]]
    by (simp add: search_graph(2))
  moreover have "length (id_to_node ?g) = 5" by (simp add: search_graph(2))
  ultimately have in_range: "\<forall>u \<in> set q. unat u < 5" by simp
  have "map (\<lambda>u. id_to_node ?g ! unat u) q = path_via ''fallback_search''" using q(2) fb by simp
  then have "q = [0, 3, 2, 4]" using in_range by (rule names_of_ids)
  then have q4: "q = ([0, 3, 2] @ [4])" by simp
  have "ranged 1048500 (1048600 + 625000 + 140000) (total_cost rt)"
  proof -
    obtain c1 w1 where 1: "costed_path ?hs 0 ([0, 3] @ [2]) 2 c1" "(4, w1) \<in> set (?hs 2)" "total_cost rt = fadd c1 w1"
      using q(1) unfolding q4 by (rule costed_path_snoc) simp_all
    obtain c2 w2 where 2: "costed_path ?hs 0 ([0] @ [3]) 3 c2" "(2, w2) \<in> set (?hs 3)" "c1 = fadd c2 w2"
      using 1(1) by (rule costed_path_snoc) simp_all
    obtain c3 w3 where 3: "costed_path ?hs 0 [0] 0 c3" "(3, w3) \<in> set (?hs 0)" "c2 = fadd c3 w3"
      using 2(1) by (rule costed_path_snoc) simp_all
    have "c3 = f_zero" using 3(1) by cases (auto dest: costed_path_ends)
    then have "ranged 1048500 1048600 c2"
      using 3(2,3) ranged_fadd [OF ranged_zero search_edge_costs(6), of 3] by (simp add: search_hops del: fadd.simps)
    then have "ranged 1048500 1673600 c1"
      using 2(2,3) ranged_fadd [OF _ search_edge_costs(8) [of 2], of 1048500 1048600 c2] by (simp add: search_hops del: fadd.simps)
    then have "ranged 1048500 1813600 (total_cost rt)"
      using 1(2,3) ranged_fadd [OF _ search_edge_costs(10) [of 4], of 1048500 1673600 c1] by (simp add: search_hops del: fadd.simps)
    then show ?thesis by simp
  qed
  moreover
  define c where "c = fadd (fadd (fadd f_zero (plain_cost (index_edge 1 (search_edges ! 0))))
      (plain_cost (index_edge 2 (search_edges ! 1)))) (plain_cost (index_edge 4 (search_edges ! 4)))"
  have "ranged (0 + 0 + 0 + 0) (0 + 140000 + 380000 + 140000) c"
    unfolding c_def by (intro ranged_fadd ranged_zero search_edge_costs) simp_all
  ultimately have "\<not> total_cost rt \<le> c" using ranged_less by fastforce
  moreover have "costed_path ?hs 0 ((([0] @ [1]) @ [2]) @ [4]) 4 c"
    unfolding c_def
    by (rule cp_hop [where u = 2], rule cp_hop [where u = 1], rule cp_hop [where u = 0], rule cp_start)
       (simp_all only: search_hops set_simps insertI1)
  ultimately show False using opt by (auto simp: optimal_route_def)
qed

section \<open>What the scenarios decide\<close>

abbreviation search_state :: "tenant_id \<Rightarrow> router \<Rightarrow> node_id set \<Rightarrow> bool" where
  "search_state tid r down \<equiv> configured tid search_edges r \<and> open_nodes tid r = down"

abbreviation search_request :: "tenant_id \<Rightarrow> router \<Rightarrow> route_decision \<times> router" where
  "search_request tid r \<equiv> route_request tid ''start'' ''done'' r"

lemma search_state_built: "search_state tid (built_router tid search_edges) {}"
  using configured_built [OF search_edges_wf] built_state(1) by simp

lemma search_state_route: "search_state tid r down \<Longrightarrow> search_state tid (snd (search_request tid r)) down"
  using open_nodes_route [of tid search_edges r] by (simp add: configured_route)

lemma search_decision:
  assumes "search_state tid r down" "down \<subseteq> {''primary_search'', ''fallback_search''}"
  shows "down \<noteq> {''primary_search'', ''fallback_search''} \<Longrightarrow>
      \<exists>rt. fst (search_request tid r) = Routed rt
        \<and> (\<exists>s \<in> {''primary_search'', ''fallback_search''} - down. nodes rt = path_via s)"
    and "down = {''primary_search'', ''fallback_search''} \<Longrightarrow>
      \<exists>c. fst (search_request tid r) = Escalate c \<and> ec_reason c = NoFeasiblePath
        \<and> failed_or_blocked_nodes c = [''fallback_search'', ''primary_search'']"
proof -
  have c: "configured tid search_edges r" and paths: "net_path tid search_edges r ''start'' ''done'' p
      \<longleftrightarrow> (\<exists>s \<in> {''primary_search'', ''fallback_search''} - down. p = path_via s)" for p
    using assms search_paths [of tid r p] by auto
  show "\<exists>rt. fst (search_request tid r) = Routed rt
        \<and> (\<exists>s \<in> {''primary_search'', ''fallback_search''} - down. nodes rt = path_via s)"
    if "down \<noteq> {''primary_search'', ''fallback_search''}"
    using c search_edges_wf
  proof (cases rule: request_decides [where start = "''start''" and goal = "''done''"])
    case (routed rt)
    then show ?thesis using paths by blast
  next
    case (escalated x)
    have "{''primary_search'', ''fallback_search''} - down \<noteq> {}"
      using assms(2) that by (metis Diff_eq_empty_iff subset_antisym)
    then obtain s where "s \<in> {''primary_search'', ''fallback_search''} - down" by (metis ex_in_conv)
    then show ?thesis using paths [of "path_via s"] escalated(2) by blast
  qed
  show "\<exists>c. fst (search_request tid r) = Escalate c \<and> ec_reason c = NoFeasiblePath
        \<and> failed_or_blocked_nodes c = [''fallback_search'', ''primary_search'']"
    if both: "down = {''primary_search'', ''fallback_search''}"
    using c search_edges_wf
  proof (cases rule: request_decides [where start = "''start''" and goal = "''done''"])
    case (routed rt)
    then show ?thesis using paths both by auto
  next
    case (escalated x)
    have "failed_or_blocked_nodes x = [''fallback_search'', ''primary_search'']"
    proof (rule sorted_distinct_set_unique)
      show "sorted [''fallback_search'', ''primary_search'']" "distinct [''fallback_search'', ''primary_search'']" by code_simp+
      show "set (failed_or_blocked_nodes x) = set [''fallback_search'', ''primary_search'']"
        using escalated assms(1) both by (simp add: insert_commute)
    qed (use escalated in simp_all)
    then show ?thesis using escalated by blast
  qed
qed

lemma first_request:
  obtains rt r where "search_request tid (built_router tid search_edges) = (Routed rt, r)"
    "nodes rt = path_via ''primary_search''" "\<not> cache_hit rt" "fst (search_request tid r) = Routed (rt\<lparr>cache_hit := True\<rparr>)"
proof -
  let ?b = "built_router tid search_edges" and ?t = "default_tenant\<lparr>graph := graph_of search_edges\<rparr>"
  note t = built_tenant [of tid search_edges]
  have miss: "map_of (cache ?t) \<lparr>rk_start = ''start'', rk_goal = ''done''\<rparr> = None" by (simp add: default_tenant_def)
  obtain rt where rt: "fst (search_request tid ?b) = Routed rt"
    "\<exists>s \<in> {''primary_search'', ''fallback_search''}. nodes rt = path_via s"
    using search_decision(1) [OF search_state_built] by auto
  note first = searched_route [OF t miss rt(1)]
  have "nodes rt = path_via ''primary_search''"
    using rt(2) primary_preferred [of rt] first(1) by (auto simp: default_tenant_def)
  moreover have "fst (search_request tid (snd (search_request tid ?b))) = Routed (rt\<lparr>cache_hit := True\<rparr>)"
    using hits_do_not_renew [OF first(3) inserted_hit] first(2) by (simp add: cached_route_def)
  ultimately show thesis using that [of rt "snd (search_request tid ?b)"] rt(1) first(2) by (metis prod.collapse)
qed

lemma open_search:
  assumes "search_state tid r down" "unat (consecutive_failures (tracker_of tid n r)) < 1000"
  shows "search_state tid (open_node tid clock n r) (insert n down)"
  using assms open_node_effect(1) open_nodes_open_node by blast

end
