(* ===== verification/Demos.thy ===== *)
theory Demos
  imports SearchNetwork
begin

text \<open>
  The programs that replay fixed scenarios on a router: the demonstration
  (\<open>trust-router-demo.rs\<close>), the statistical baseline (\<open>trust-router-baseline.rs\<close>) and the crash
  writer (\<open>trust-router-audit-crash-writer.rs\<close>).  The instants of the recorded results are
  arbitrary: the theorems hold for every clock.
\<close>

section \<open>The demonstration\<close>

definition demo_build_router :: router where
  "demo_build_router = built_router ''yc-demo'' search_edges"

record demo_run =
  dr_decisions :: "route_decision list"
  dr_probe_opened :: bool
  dr_router :: router

text \<open>\<open>main\<close> up to the persisting of the events; the clock gives the instants of the ten failures.\<close>

definition demo_main :: "(nat \<Rightarrow> instant) \<Rightarrow> demo_run" where
  "demo_main clock =
     (let route = route_request ''yc-demo'' ''start'' ''done'';
          (d1, r) = route demo_build_router;
          (d2, r) = route r;
          r = open_node ''yc-demo'' clock ''primary_search'' r;
          (d3, r) = route r;
          r = open_node ''yc-demo'' (\<lambda>i. clock (5 + i)) ''fallback_search'' r;
          (d4, r) = route r;
          (opened, r) = force_half_open ''yc-demo'' ''primary_search'' r;
          (d5, r) = route r
      in \<lparr>dr_decisions = [d1, d2, d3, d4, d5], dr_probe_opened = opened, dr_router = r\<rparr>)"

text \<open>The counts of the printed summary: reroutes, escalations, health events, recovery probes.\<close>

definition is_reroute :: "audit_event \<Rightarrow> bool" where
  "is_reroute ev = (case ev of Reroute _ _ _ _ _ _ \<Rightarrow> True | _ \<Rightarrow> False)"

definition is_escalation :: "audit_event \<Rightarrow> bool" where
  "is_escalation ev = (case ev of ExplicitEscalation _ \<Rightarrow> True | _ \<Rightarrow> False)"

definition is_health_change :: "audit_event \<Rightarrow> bool" where
  "is_health_change ev = (case ev of HealthChanged _ _ _ _ \<Rightarrow> True | _ \<Rightarrow> False)"

definition is_probe :: "audit_event \<Rightarrow> bool" where
  "is_probe ev = (case ev of RecoveryProbeOpened _ _ \<Rightarrow> True | _ \<Rightarrow> False)"

definition demo_summary :: "audit_event list \<Rightarrow> nat \<times> nat \<times> nat \<times> nat" where
  "demo_summary events = (length (filter is_reroute events), length (filter is_escalation events),
     length (filter is_health_change events), length (filter is_probe events))"

text \<open>The end of \<open>main\<close>: the trail is persisted and summed up, or the process exits with status 1.\<close>

datatype demo_end = Exited nat | Summed nat "nat \<times> nat \<times> nat \<times> nat"

definition demo_program :: "(json \<Rightarrow> string) \<Rightarrow> io_calls \<Rightarrow> (nat \<Rightarrow> instant) \<Rightarrow> string \<Rightarrow> demo_end \<times> string" where
  "demo_program to_string io clock file_text =
     (let r = dr_router (demo_main clock)
      in case append_audit_jsonl to_string io r file_text of
           (Inl e, file_text) \<Rightarrow> (Exited 1, file_text)
         | (Inr n, file_text) \<Rightarrow> (Summed n (demo_summary (router_events r)), file_text))"

section \<open>The baseline\<close>

definition RUNS :: nat where "RUNS = 30"

record run_result =
  success :: bool
  llm_calls :: f64

definition run_pure_react :: "nat \<Rightarrow> run_result" where
  "run_pure_react seed =
     (let primary_down = (seed mod 5 = 0); fallback_down = (seed mod 11 = 0);
          calls = fadd f_one f_one
      in if \<not> primary_down then \<lparr>success = True, llm_calls = fadd calls f_one\<rparr>
         else let calls = fadd calls f_one
              in if \<not> fallback_down then \<lparr>success = True, llm_calls = fadd calls f_one\<rparr>
                 else \<lparr>success = False, llm_calls = fadd calls f_one\<rparr>)"

definition baseline_build_router :: router where
  "baseline_build_router = built_router ''baseline'' search_edges"

definition run_trust_router :: "(nat \<Rightarrow> instant) \<Rightarrow> nat \<Rightarrow> run_result" where
  "run_trust_router clock seed =
     (let r = baseline_build_router;
          r = (if seed mod 5 = 0 then open_node ''baseline'' clock ''primary_search'' r else r);
          r = (if seed mod 11 = 0 then open_node ''baseline'' (\<lambda>i. clock (5 + i)) ''fallback_search'' r else r)
      in case fst (route_request ''baseline'' ''start'' ''done'' r) of
           Routed _ \<Rightarrow> \<lparr>success = True, llm_calls = f_zero\<rparr>
         | Escalate _ \<Rightarrow> \<lparr>success = False, llm_calls = f_one\<rparr>)"

record run_summary =
  success_rate_of :: f64
  mean_llm_calls :: f64
  stddev_llm_calls :: f64

text \<open>\<open>iter().sum()\<close> adds from the left, starting at \<open>-0.0\<close>.\<close>

definition fsum :: "f64 list \<Rightarrow> f64" where
  "fsum xs = foldl fadd (Fin True 0) xs"

definition summarize :: "run_result list \<Rightarrow> run_summary" where
  "summarize results =
     (let n = f64_of_nat (length results);
          mean = fdiv (fsum (map llm_calls results)) n;
          variance = fdiv (fsum (map (\<lambda>r. let d = fsub (llm_calls r) mean in fmul d d) results)) n
      in \<lparr>success_rate_of = fdiv (f64_of_nat (length (filter success results))) n,
          mean_llm_calls = mean, stddev_llm_calls = fsqrt variance\<rparr>)"

definition call_reduction :: "run_summary \<Rightarrow> run_summary \<Rightarrow> f64" where
  "call_reduction react routed =
     (if f_eq (mean_llm_calls react) f_zero then f_zero
      else fmul (fsub f_one (fdiv (mean_llm_calls routed) (mean_llm_calls react))) (f64_lit 100))"

definition baseline_main :: "(nat \<Rightarrow> nat \<Rightarrow> instant) \<Rightarrow> run_summary \<times> run_summary \<times> f64" where
  "baseline_main clock =
     (let react = summarize (map run_pure_react [0..<RUNS]);
          routed = summarize (map (\<lambda>seed. run_trust_router (clock seed) seed) [0..<RUNS])
      in (react, routed, call_reduction react routed))"

section \<open>The crash writer\<close>

definition crash_edges :: "edge list" where
  "crash_edges =
     [edge_with_costs (f64_lit 1) (f64_lit (1/1000)) 100 (f64_lit (1/10)) (edge_new ''start'' ''search''),
      edge_with_costs (f64_lit 1) (f64_lit (1/1000)) 100 (f64_lit (1/10)) (edge_new ''search'' ''done'')]"

definition crash_build_router :: router where
  "crash_build_router = built_router ''audit-crash'' crash_edges"

text \<open>
  One iteration: route, take the last event, append it.  \<open>None\<close> is a panic of an \<open>expect\<close>; the
  outcome of the file system calls is an argument.
\<close>

definition crash_iteration ::
  "(json \<Rightarrow> string) \<Rightarrow> io_calls \<Rightarrow> router \<times> string \<Rightarrow> (router \<times> string) option" where
  "crash_iteration to_string io st =
     (case st of (r, file_text) \<Rightarrow>
        let r = snd (route_request ''audit-crash'' ''start'' ''done'' r)
        in case last_audit_event r of
             None \<Rightarrow> None
           | Some event \<Rightarrow>
               (case append_events_jsonl to_string io [event] file_text of
                  (Inl e, _) \<Rightarrow> None
                | (Inr _, file_text) \<Rightarrow> Some (r, file_text)))"

fun crash_loop :: "(json \<Rightarrow> string) \<Rightarrow> (nat \<Rightarrow> io_calls) \<Rightarrow> nat \<Rightarrow> router \<times> string \<Rightarrow> (router \<times> string) option" where
  "crash_loop to_string io 0 st = Some st"
| "crash_loop to_string io (Suc k) st =
     (case crash_iteration to_string (io k) st of None \<Rightarrow> None | Some st \<Rightarrow> crash_loop to_string io k st)"

definition crash_main :: "(json \<Rightarrow> string) \<Rightarrow> (nat \<Rightarrow> io_calls) \<Rightarrow> string \<Rightarrow> (router \<times> string) option" where
  "crash_main to_string io file_text = crash_loop to_string io 1000 (crash_build_router, file_text)"

section \<open>The demonstration, step by step\<close>

text \<open>
  The state between two calls: which searches are open, which ones have ever failed, and how many
  events of each kind the trail holds.
\<close>

definition demo_stage :: "tenant_id \<Rightarrow> router \<Rightarrow> node_id set \<Rightarrow> node_id set \<Rightarrow> nat \<times> nat \<times> nat \<times> nat \<Rightarrow> bool" where
  "demo_stage tid r down failed k \<longleftrightarrow> search_state tid r down
     \<and> (\<forall>n. n \<notin> failed \<longrightarrow> tracker_of tid n r = default_health_tracker)
     \<and> (\<exists>evs. adds_events (built_router tid search_edges) evs r \<and> demo_summary evs = k
          \<and> length evs = (case k of (a, b, c, d) \<Rightarrow> a + b + c + d))"

lemma demo_summary_append:
  "demo_summary (evs @ evs') = (case (demo_summary evs, demo_summary evs') of
     ((a, b, c, d), (a', b', c', d')) \<Rightarrow> (a + a', b + b', c + c', d + d'))"
  by (simp add: demo_summary_def)

lemma demo_summary_one:
  "demo_summary [reroute tid s g rt] = (1, 0, 0, 0)" "demo_summary [ExplicitEscalation x] = (0, 1, 0, 0)"
  "demo_summary [RecoveryProbeOpened tid n] = (0, 0, 0, 1)"
  by (simp_all add: demo_summary_def is_reroute_def is_escalation_def is_health_change_def is_probe_def reroute_def)

lemma demo_summary_health:
  "\<forall>ev \<in> set hs. \<exists>st c. ev = HealthChanged tid n st c \<Longrightarrow> demo_summary hs = (0, 0, length hs, 0)"
  by (induction hs) (auto simp: demo_summary_def is_reroute_def is_escalation_def is_health_change_def is_probe_def)

lemma stage_next:
  assumes "demo_stage tid r down failed (a, b, c, d)" "adds_events r evs r'" "demo_summary evs = (a', b', c', d')"
    and "length evs = a' + b' + c' + d'" "search_state tid r' down'"
    and "\<forall>n. n \<notin> failed' \<longrightarrow> n \<notin> failed \<and> tracker_of tid n r' = tracker_of tid n r"
  shows "demo_stage tid r' down' failed' (a + a', b + b', c + c', d + d')"
proof -
  obtain es where es: "adds_events (built_router tid search_edges) es r" "demo_summary es = (a, b, c, d)"
    "length es = a + b + c + d" using assms(1) by (auto simp: demo_stage_def)
  have "adds_events (built_router tid search_edges) (es @ evs) r'" using adds_trans [OF es(1) assms(2)] .
  moreover have "demo_summary (es @ evs) = (a + a', b + b', c + c', d + d')"
    using es(2) assms(3) by (simp add: demo_summary_append)
  moreover have "length (es @ evs) = (a + a') + (b + b') + (c + c') + (d + d')" using es(3) assms(4) by simp
  moreover have "\<forall>n. n \<notin> failed' \<longrightarrow> tracker_of tid n r' = default_health_tracker"
    using assms(1,6) by (auto simp: demo_stage_def)
  ultimately show ?thesis using assms(5) by (auto simp: demo_stage_def intro!: exI [of _ "es @ evs"])
qed

lemma stage_start: "demo_stage tid (built_router tid search_edges) {} {} (0, 0, 0, 0)"
  using search_state_built built_state(2)
  by (auto simp: demo_stage_def adds_events_def demo_summary_def intro!: exI [of _ "[]"])

lemma stage_route:
  assumes "demo_stage tid r down failed (a, b, c, d)"
  shows "demo_stage tid (snd (search_request tid r)) down failed
    (case fst (search_request tid r) of Routed _ \<Rightarrow> (a + 1, b, c, d) | Escalate _ \<Rightarrow> (a, b + 1, c, d))"
proof -
  have st: "search_state tid r down" using assms by (simp add: demo_stage_def)
  obtain ev where ev: "adds_events r [ev] (snd (search_request tid r))"
    "case fst (search_request tid r) of
       Routed rt \<Rightarrow> ev = reroute tid ''start'' ''done'' rt | Escalate x \<Rightarrow> ev = ExplicitEscalation x"
    by (rule adds_route)
  have tr: "\<forall>n. n \<notin> failed \<longrightarrow> n \<notin> failed \<and> tracker_of tid n (snd (search_request tid r)) = tracker_of tid n r"
    using route_keeps_tracker [of tid search_edges r] st by simp
  show ?thesis
  proof (cases "fst (search_request tid r)")
    case (Routed rt)
    then have "demo_summary [ev] = (1, 0, 0, 0)" using ev(2) demo_summary_one by simp
    from stage_next [OF assms ev(1) this _ search_state_route [OF st] tr] show ?thesis using Routed by simp
  next
    case (Escalate x)
    then have "demo_summary [ev] = (0, 1, 0, 0)" using ev(2) demo_summary_one by simp
    from stage_next [OF assms ev(1) this _ search_state_route [OF st] tr] show ?thesis using Escalate by simp
  qed
qed

lemma stage_open:
  assumes "demo_stage tid r down failed (a, b, c, d)" "n \<notin> failed"
  shows "demo_stage tid (open_node tid clock n r) (insert n down) (insert n failed) (a, b, c + 5, d)"
proof -
  have st: "search_state tid r down" and t: "tracker_of tid n r = default_health_tracker"
    using assms by (auto simp: demo_stage_def)
  obtain hs where hs: "adds_events r hs (open_node tid clock n r)" "length hs = 5"
    "\<forall>ev \<in> set hs. \<exists>st c. ev = HealthChanged tid n st c"
    using adds_open_node by blast
  have few: "unat (consecutive_failures (tracker_of tid n r)) < 1000" by (simp add: t default_health_tracker_def)
  have tr: "\<forall>m. m \<notin> insert n failed \<longrightarrow> m \<notin> failed \<and> tracker_of tid m (open_node tid clock n r) = tracker_of tid m r"
    using open_node_effect(4) [of tid search_edges r n] st few by auto
  from stage_next [OF assms(1) hs(1) demo_summary_health [OF hs(3)] _ open_search [OF st few] tr] hs(2)
  show ?thesis by simp
qed

lemma stage_force:
  assumes "demo_stage tid r down failed (a, b, c, d)" "n \<in> down"
  shows "demo_stage tid (snd (force_half_open tid n r)) (down - {n}) (insert n failed) (a, b, c, d + 1)"
    and "fst (force_half_open tid n r)"
proof -
  have st: "search_state tid r down" using assms by (simp add: demo_stage_def)
  have was_open: "node_state_of tid n r = Some Open" using st assms(2) by (auto simp: open_nodes_def)
  then show "fst (force_half_open tid n r)"
    by (auto simp: node_state_of_def force_half_open_def tracker_force_half_open_def split: option.splits)
  have st': "search_state tid (snd (force_half_open tid n r)) (down - {n})"
    using st configured_force open_after_force [of tid search_edges r n] by auto
  have tr: "\<forall>m. m \<notin> insert n failed \<longrightarrow> m \<notin> failed \<and> tracker_of tid m (snd (force_half_open tid n r)) = tracker_of tid m r"
    using force_tracker_of [of tid search_edges r _ n] st by auto
  from stage_next [OF assms(1) adds_force [OF was_open] demo_summary_one(3) _ st' tr]
  show "demo_stage tid (snd (force_half_open tid n r)) (down - {n}) (insert n failed) (a, b, c, d + 1)" by simp
qed

lemma stage_summary:
  "demo_stage tid r down failed (a, b, c, d) \<Longrightarrow> a + b + c + d \<le> AUDIT_EVENT_MEMORY_LIMIT
   \<Longrightarrow> demo_summary (router_events r) = (a, b, c, d)"
  by (auto simp: demo_stage_def dest!: events_since_start)

lemma stage_length:
  "demo_stage tid r down failed (a, b, c, d) \<Longrightarrow> a + b + c + d \<le> AUDIT_EVENT_MEMORY_LIMIT
   \<Longrightarrow> length (router_events r) = a + b + c + d"
  by (auto simp: demo_stage_def dest!: events_since_start)

lemma stage_state: "demo_stage tid r down failed k \<Longrightarrow> search_state tid r down"
  by (simp add: demo_stage_def)

lemma demo_course:
  obtains rt rt3 c rt5 down failed where
    "dr_decisions (demo_main clock) = [Routed rt, Routed (rt\<lparr>cache_hit := True\<rparr>), Routed rt3, Escalate c, Routed rt5]"
    "nodes rt = path_via ''primary_search''" "\<not> cache_hit rt" "nodes rt3 = path_via ''fallback_search''"
    "ec_reason c = NoFeasiblePath" "failed_or_blocked_nodes c = [''fallback_search'', ''primary_search'']"
    "dr_probe_opened (demo_main clock)" "nodes rt5 = path_via ''primary_search''"
    "demo_stage ''yc-demo'' (dr_router (demo_main clock)) down failed (4, 1, 10, 1)"
proof -
  let ?tid = "''yc-demo''" and ?p = "''primary_search''" and ?f = "''fallback_search''"
  obtain rt r1 where 1: "search_request ?tid (built_router ?tid search_edges) = (Routed rt, r1)" "nodes rt = path_via ?p"
    "\<not> cache_hit rt" "fst (search_request ?tid r1) = Routed (rt\<lparr>cache_hit := True\<rparr>)" by (rule first_request)
  define r2 where "r2 = snd (search_request ?tid r1)"
  define r3 where "r3 = open_node ?tid clock ?p r2"
  define r4 where "r4 = snd (search_request ?tid r3)"
  define r5 where "r5 = open_node ?tid (\<lambda>i. clock (5 + i)) ?f r4"
  define r6 where "r6 = snd (search_request ?tid r5)"
  define r7 where "r7 = snd (force_half_open ?tid ?p r6)"
  define r8 where "r8 = snd (search_request ?tid r7)"
  have s1: "demo_stage ?tid r1 {} {} (1, 0, 0, 0)" using stage_route [OF stage_start, of ?tid] 1(1) by simp
  have s2: "demo_stage ?tid r2 {} {} (2, 0, 0, 0)" using stage_route [OF s1] 1(4) by (simp add: r2_def del: One_nat_def)
  have s3: "demo_stage ?tid r3 {?p} {?p} (2, 0, 5, 0)" using stage_open [OF s2, of ?p clock] by (simp add: r3_def)
  obtain rt3 where d3: "fst (search_request ?tid r3) = Routed rt3" "nodes rt3 = path_via ?f"
    using search_decision(1) [OF stage_state [OF s3]] by auto
  have s4: "demo_stage ?tid r4 {?p} {?p} (3, 0, 5, 0)" using stage_route [OF s3] d3(1) by (simp add: r4_def)
  have s5: "demo_stage ?tid r5 {?f, ?p} {?f, ?p} (3, 0, 10, 0)"
    using stage_open [OF s4, of ?f "\<lambda>i. clock (5 + i)"] by (simp add: r5_def)
  obtain c where d5: "fst (search_request ?tid r5) = Escalate c" "ec_reason c = NoFeasiblePath"
    "failed_or_blocked_nodes c = [?f, ?p]"
    using search_decision(2) [OF stage_state [OF s5]] by (auto simp: insert_commute)
  have s6: "demo_stage ?tid r6 {?f, ?p} {?f, ?p} (3, 1, 10, 0)" using stage_route [OF s5] d5(1) by (simp add: r6_def)
  have "demo_stage ?tid r7 ({?f, ?p} - {?p}) (insert ?p {?f, ?p}) (3, 1, 10, 0 + 1)"
    unfolding r7_def by (rule stage_force(1) [OF s6]) simp
  moreover have "{?f, ?p} - {?p} = {?f}" by auto
  ultimately have s7: "demo_stage ?tid r7 {?f} (insert ?p {?f, ?p}) (3, 1, 10, 1)" by simp
  obtain rt5 where d7: "fst (search_request ?tid r7) = Routed rt5" "nodes rt5 = path_via ?p"
    using search_decision(1) [OF stage_state [OF s7]] by auto
  have s8: "demo_stage ?tid r8 {?f} (insert ?p {?f, ?p}) (4, 1, 10, 1)" using stage_route [OF s7] d7(1) by (simp add: r8_def)
  have "fst (force_half_open ?tid ?p r6)" using stage_force(2) [OF s6] by simp
  then have "demo_main clock = \<lparr>dr_decisions = [Routed rt, Routed (rt\<lparr>cache_hit := True\<rparr>), Routed rt3, Escalate c, Routed rt5],
      dr_probe_opened = True, dr_router = r8\<rparr>"
    using 1(4) d3(1) d5(1) d7(1)
    by (simp add: demo_main_def demo_build_router_def 1(1) case_prod_unfold Let_def
        flip: r2_def r3_def r4_def r5_def r6_def r7_def r8_def)
  then show thesis using that 1(2,3) d3(2) d5(2,3) d7(2) s8 by simp
qed


text \<open>
  C37: The demonstration does what it announces, whatever the instants of its failures: the first
  request goes through the primary search, the second one is the same route from the cache, with the
  primary search open the route takes the fallback, with both open the router escalates and names
  both in order, and after the forced probe the half-open primary search is routable again.  The
  audit trail then holds sixteen events, of which four are reroutes, one is an escalation, ten are
  health events and one is a recovery probe; when no system call fails, the program ends with this
  summary and the file has grown by the lines of exactly these events, in order, and when the file
  cannot be opened it exits with status 1 and leaves the file as it was.
\<close>
theorem demo_runs_as_announced:
  assumes "io_succeeds io"
  shows "\<exists>rt rt3 c rt5 events. dr_decisions (demo_main clock) = [Routed rt, Routed (rt\<lparr>cache_hit := True\<rparr>), Routed rt3, Escalate c, Routed rt5]
     \<and> nodes rt = path_via ''primary_search'' \<and> \<not> cache_hit rt \<and> nodes rt3 = path_via ''fallback_search''
     \<and> ec_reason c = NoFeasiblePath \<and> failed_or_blocked_nodes c = [''fallback_search'', ''primary_search'']
     \<and> dr_probe_opened (demo_main clock) \<and> nodes rt5 = path_via ''primary_search''
     \<and> router_events (dr_router (demo_main clock)) = events \<and> length events = 16
     \<and> demo_summary events = (4, 1, 10, 1)
     \<and> demo_program to_string io clock file_text = (Summed 16 (4, 1, 10, 1), file_text @ jsonl to_string events)
     \<and> demo_program to_string (io\<lparr>io_open := Some e\<rparr>) clock file_text = (Exited 1, file_text)"
proof (rule demo_course)
  fix rt rt3 c rt5 down failed
  assume course: "dr_decisions (demo_main clock) = [Routed rt, Routed (rt\<lparr>cache_hit := True\<rparr>), Routed rt3, Escalate c, Routed rt5]"
    "nodes rt = path_via ''primary_search''" "\<not> cache_hit rt" "nodes rt3 = path_via ''fallback_search''"
    "ec_reason c = NoFeasiblePath" "failed_or_blocked_nodes c = [''fallback_search'', ''primary_search'']"
    "dr_probe_opened (demo_main clock)" "nodes rt5 = path_via ''primary_search''"
    and stage: "demo_stage ''yc-demo'' (dr_router (demo_main clock)) down failed (4, 1, 10, 1)"
  have s: "demo_summary (router_events (dr_router (demo_main clock))) = (4, 1, 10, 1)"
    "length (router_events (dr_router (demo_main clock))) = 16"
    using stage_summary [OF stage] stage_length [OF stage] by (simp_all add: AUDIT_EVENT_MEMORY_LIMIT_def)
  then have "demo_program to_string io clock file_text
      = (Summed 16 (4, 1, 10, 1), file_text @ jsonl to_string (router_events (dr_router (demo_main clock))))"
    using assms by (simp add: demo_program_def append_audit_jsonl_def append_events_ok Let_def)
  moreover have "demo_program to_string (io\<lparr>io_open := Some e\<rparr>) clock file_text = (Exited 1, file_text)"
    by (simp add: demo_program_def append_audit_jsonl_def append_events_jsonl_def Let_def)
  ultimately show ?thesis using course s by blast
qed

lemma demo_runs_as_announced_witness:
  "\<exists>events. length events = 16
     \<and> demo_program (\<lambda>_. ''x'') io_fine id [] = (Summed 16 (4, 1, 10, 1), jsonl (\<lambda>_. ''x'') events)"
proof -
  have "io_succeeds io_fine" by (simp add: io_succeeds_def io_fine_def)
  from demo_runs_as_announced [OF this, of id "\<lambda>_. ''x''" "[]"] show ?thesis by auto
qed

section \<open>The baseline report\<close>

lemma trust_router_run:
  "run_trust_router clock seed = (if seed mod 5 = 0 \<and> seed mod 11 = 0 then \<lparr>success = False, llm_calls = f_one\<rparr>
     else \<lparr>success = True, llm_calls = f_zero\<rparr>)"
proof -
  let ?tid = "''baseline''" and ?p = "''primary_search''" and ?f = "''fallback_search''"
  define b where "b = built_router ?tid search_edges"
  define r1 where "r1 = (if seed mod 5 = 0 then open_node ?tid clock ?p b else b)"
  define r2 where "r2 = (if seed mod 11 = 0 then open_node ?tid (\<lambda>i. clock (5 + i)) ?f r1 else r1)"
  define down where "down = (if seed mod 11 = 0 then {?f} else {}) \<union> (if seed mod 5 = 0 then {?p} else {})"
  have s0: "demo_stage ?tid b {} {} (0, 0, 0, 0)" unfolding b_def by (rule stage_start)
  have s1: "\<exists>k. demo_stage ?tid r1 (if seed mod 5 = 0 then {?p} else {}) (if seed mod 5 = 0 then {?p} else {}) (0, 0, k, 0)"
    using s0 stage_open [OF s0, of ?p clock] unfolding r1_def by auto
  then obtain k where s1: "demo_stage ?tid r1 (if seed mod 5 = 0 then {?p} else {}) (if seed mod 5 = 0 then {?p} else {}) (0, 0, k, 0)" ..
  have "?f \<notin> (if seed mod 5 = 0 then {?p} else {})" by simp
  from stage_state [OF s1] stage_state [OF stage_open [OF s1 this, of "\<lambda>i. clock (5 + i)"]]
  have s2: "search_state ?tid r2 down" by (auto simp: r2_def down_def)
  have sub: "down \<subseteq> {?p, ?f}" by (auto simp: down_def)
  have run: "run_trust_router clock seed = (case fst (search_request ?tid r2) of
      Routed _ \<Rightarrow> \<lparr>success = True, llm_calls = f_zero\<rparr> | Escalate _ \<Rightarrow> \<lparr>success = False, llm_calls = f_one\<rparr>)"
    by (simp only: run_trust_router_def baseline_build_router_def Let_def r2_def r1_def b_def)
  show ?thesis
  proof (cases "seed mod 5 = 0 \<and> seed mod 11 = 0")
    case True
    then have "down = {?p, ?f}" by (auto simp: down_def)
    from search_decision(2) [OF s2 sub this] show ?thesis using run True by auto
  next
    case False
    then have "down \<noteq> {?p, ?f}" by (auto simp: down_def)
    from search_decision(1) [OF s2 sub this] show ?thesis using run False by auto
  qed
qed

lemma nat_sum: "a + b \<le> 2 ^ 53 \<Longrightarrow> fadd (f64_of_nat a) (f64_of_nat b) = f64_of_nat (a + b)"
proof -
  assume n: "a + b \<le> 2 ^ 53"
  have "fadd (Fin False (of_nat a)) (Fin False (of_nat b)) = f64_of_nat (a + b)"
    by (simp add: fadd_fin_nonneg f64_of_nat_def del: fadd.simps)
  then show ?thesis using n f64_of_nat_small [of a] f64_of_nat_small [of b] by simp
qed

lemma fsum_nats: "ns \<noteq> [] \<Longrightarrow> sum_list ns \<le> 2 ^ 53 \<Longrightarrow> fsum (map f64_of_nat ns) = f64_of_nat (sum_list ns)"
proof -
  have run: "a + sum_list xs \<le> 2 ^ 53 \<Longrightarrow> foldl fadd (f64_of_nat a) (map f64_of_nat xs) = f64_of_nat (a + sum_list xs)" for a xs
    by (induction xs arbitrary: a) (simp_all add: nat_sum add.assoc del: fadd.simps)
  assume ns: "ns \<noteq> []" "sum_list ns \<le> 2 ^ 53"
  then obtain n xs where n: "ns = n # xs" by (cases ns) auto
  have "fadd (Fin True 0) (f64_of_nat n) = f64_of_nat n"
    using ns(2) f64_of_nat_small [of n] by (auto simp: n signed_def Let_def mk_f64_def rnd_of_nat max_mag_def)
  then show ?thesis using run [of n xs] ns(2) by (simp add: fsum_def n)
qed

lemma pure_react_run:
  "run_pure_react seed = \<lparr>success = \<not> (seed mod 5 = 0 \<and> seed mod 11 = 0), llm_calls = f64_of_nat (if seed mod 5 = 0 then 4 else 3)\<rparr>"
proof -
  have one: "f_one = f64_of_nat 1" using f64_of_nat_small [of 1] by simp
  show ?thesis
    unfolding run_pure_react_def one Let_def by (simp add: nat_sum del: fadd.simps One_nat_def)
qed

lemma f64_ratio: "m \<le> 2 ^ 53 \<Longrightarrow> n \<le> 2 ^ 53 \<Longrightarrow> 0 < n \<Longrightarrow> fdiv (f64_of_nat m) (f64_of_nat n) = f64_lit (of_nat m / of_nat n)"
  by (simp add: f64_of_nat_small f64_lit_def divide_less_0_iff)

lemma summarize_counts:
  assumes "results \<noteq> []" "map llm_calls results = map f64_of_nat ns" "sum_list ns \<le> 2 ^ 53" "length results \<le> 2 ^ 53"
  shows "mean_llm_calls (summarize results) = f64_lit (of_nat (sum_list ns) / of_nat (length results))"
    and "success_rate_of (summarize results) = f64_lit (of_nat (length (filter success results)) / of_nat (length results))"
proof -
  have "ns \<noteq> []" using assms(1,2) by (cases ns) auto
  then show "mean_llm_calls (summarize results) = f64_lit (of_nat (sum_list ns) / of_nat (length results))"
    using assms by (simp add: summarize_def Let_def fsum_nats f64_ratio)
  have "length (filter success results) \<le> 2 ^ 53" using assms(4) length_filter_le order_trans by blast
  then show "success_rate_of (summarize results) = f64_lit (of_nat (length (filter success results)) / of_nat (length results))"
    using assms(1,4) by (simp add: summarize_def Let_def f64_ratio)
qed

text \<open>
  The figures of the statistical baseline, whatever the instants of the failures: both arms
  succeed in exactly the runs in which not both searches are down (29 of 30), the ReAct loop spends
  3.2 model calls a run on average, the router one call in thirty runs, and the reported reduction
  rounds to 99.0 per cent.
\<close>
theorem baseline_report:
  "case baseline_main clock of (react, routed, reduction) \<Rightarrow>
     success_rate_of react = f64_lit (29/30) \<and> success_rate_of routed = f64_lit (29/30)
     \<and> mean_llm_calls react = f64_lit (32/10) \<and> mean_llm_calls routed = f64_lit (1/30)
     \<and> f_lt (f64_lit (9895/100)) reduction \<and> f_lt reduction (f64_lit (9905/100))
     \<and> (\<forall>seed. success (run_trust_router (clock seed) seed) = success (run_pure_react seed))"
proof -
  define react where "react = map run_pure_react [0..<RUNS]"
  define routed where "routed = map (\<lambda>seed. run_trust_router (clock seed) seed) [0..<RUNS]"
  have zero_one: "f_zero = f64_of_nat 0" "f_one = f64_of_nat 1"
    using f64_of_nat_small [of 0] f64_of_nat_small [of 1] by simp_all
  have calls: "map llm_calls react = map f64_of_nat (map (\<lambda>seed. if seed mod 5 = 0 then 4 else 3) [0..<RUNS])"
    "map llm_calls routed = map f64_of_nat (map (\<lambda>seed. if seed mod 5 = 0 \<and> seed mod 11 = 0 then 1 else 0) [0..<RUNS])"
    by (simp_all add: react_def routed_def pure_react_run trust_router_run zero_one)
  have ok: "length (filter success react) = 29" "length (filter success routed) = 29"
    by (simp_all add: react_def routed_def pure_react_run trust_router_run filter_map comp_def RUNS_def upt_rec)
  have len: "length react = 30" "length routed = 30" by (simp_all add: react_def routed_def RUNS_def)
  have sums: "sum_list (map (\<lambda>seed. if seed mod 5 = 0 then 4 else 3) [0..<RUNS]) = (96 :: nat)"
    "sum_list (map (\<lambda>seed. if seed mod 5 = 0 \<and> seed mod 11 = 0 then 1 else 0) [0..<RUNS]) = (1 :: nat)"
    by (simp_all add: RUNS_def upt_rec)
  have ne: "react \<noteq> []" "routed \<noteq> []" using len by auto
  note r = summarize_counts [OF ne(1) calls(1)] and t = summarize_counts [OF ne(2) calls(2)]
  have mean: "mean_llm_calls (summarize react) = f64_lit (32/10)" "mean_llm_calls (summarize routed) = f64_lit (1/30)"
    using r(1) t(1) by (simp_all add: sums len)
  have rate: "success_rate_of (summarize react) = f64_lit (29/30)" "success_rate_of (summarize routed) = f64_lit (29/30)"
    using r(2) t(2) by (simp_all add: sums len ok)
  have m1: "ranged 3355443 3355444 (f64_lit (32/10))" and m2: "ranged 34952 34953 (f64_lit (1/30))"
    and one: "ranged 1048576 1048576 f_one" and hundred: "ranged 104857600 104857600 (f64_lit 100)"
    using ranged_lit [of 104857600 100 104857600] by (simp_all add: ranged_lit ranged_def [of _ _ f_one])
  have "ranged 10922 10923 (fdiv (f64_lit (1/30)) (f64_lit (32/10)))" by (rule ranged_fdiv [OF m2 m1]) simp_all
  from ranged_fsub [OF one this]
  have "ranged 1037653 1037654 (fsub f_one (fdiv (f64_lit (1/30)) (f64_lit (32/10))))" by simp
  from ranged_fmul [OF this hundred, of 103765300 103765400]
  have product: "ranged 103765300 103765400 (fmul (fsub f_one (fdiv (f64_lit (1/30)) (f64_lit (32/10)))) (f64_lit 100))"
    by simp
  have "f_lt f_zero (f64_lit (32/10))" by (rule ranged_f_lt [OF ranged_zero m1]) simp
  then have "\<not> f_eq (f64_lit (32/10)) f_zero" by (auto simp: f_lt_def f_eq_def)
  with product have red: "ranged 103765300 103765400 (call_reduction (summarize react) (summarize routed))"
    by (simp only: call_reduction_def mean if_False)
  have lo: "ranged 103756595 103756596 (f64_lit (9895/100))" and hi: "ranged 103861452 103861453 (f64_lit (9905/100))"
    by (simp_all add: ranged_lit)
  have "success (run_trust_router (clock seed) seed) = success (run_pure_react seed)" for seed
    by (simp add: trust_router_run pure_react_run)
  then show ?thesis
    using rate mean ranged_f_lt [OF lo red] ranged_f_lt [OF red hi]
    by (simp add: baseline_main_def Let_def flip: react_def routed_def)
qed

section \<open>What the crash writer leaves on disk\<close>

lemma crash_edges_wf: "\<forall>e \<in> set crash_edges. wf_edge e" "2 * length crash_edges < 2 ^ 32 - 1"
  by (simp_all add: crash_edges_def edge_with_costs_def edge_new_def wf_edge_def f64_lit_def)

lemma crash_edge: "edge_among crash_edges a b \<longleftrightarrow> (a, b) \<in> {(''start'', ''search''), (''search'', ''done'')}"
  by (subst edge_among_image) (simp_all add: crash_edges_def costs_usable del: lit_9 lit_10)

lemma crash_paths:
  "open_nodes tid r = {} \<Longrightarrow> net_path tid crash_edges r ''start'' ''done'' p \<Longrightarrow> p = [''start'', ''search'', ''done'']"
proof -
  assume o: "open_nodes tid r = {}" and p: "net_path tid crash_edges r ''start'' ''done'' p"
  then obtain xs where xs: "p = ''start'' # xs" by (cases p) (auto simp: net_path_def)
  then obtain x q where q: "p = ''start'' # x # q" using p by (cases xs) (auto simp: net_path_def)
  have x: "x = ''search''" using p by (auto simp: q net_path_def crash_edge)
  then obtain y q' where q': "q = y # q'" using p by (cases q) (auto simp: q net_path_def)
  have y: "y = ''done''" using p x by (auto simp: q q' net_path_def crash_edge)
  have "q' = []" using p y by (cases q') (auto simp: q q' net_path_def crash_edge)
  then show ?thesis using x y by (simp add: q q')
qed

lemma crash_step:
  assumes "router_reachable r" "route_request ''audit-crash'' ''start'' ''done'' r = (Routed rt, r')" "io_succeeds io"
  shows "crash_iteration to_string io (r, text_of_file)
    = Some (r', text_of_file @ jsonl to_string [reroute ''audit-crash'' ''start'' ''done'' rt])"
proof -
  have "last_audit_event r' = Some (reroute ''audit-crash'' ''start'' ''done'' rt)"
    using route_request_audited [OF assms(1), of "''audit-crash''" "''start''" "''done''"] assms(2)
    by (auto simp: reroute_def)
  then show ?thesis using assms(2,3) by (simp add: crash_iteration_def append_events_ok)
qed

lemma crash_cached:
  assumes "\<forall>k. io_succeeds (io k)" "map_of (cache t) \<lparr>rk_start = ''start'', rk_goal = ''done''\<rparr> = Some c"
  shows "configured ''audit-crash'' crash_edges r \<Longrightarrow> map_of (tenants r) ''audit-crash'' = Some t \<Longrightarrow>
    \<exists>r'. crash_loop to_string io k (r, text_of_file) = Some (r', text_of_file
      @ jsonl to_string (replicate k (reroute ''audit-crash'' ''start'' ''done'' (cached_route c))))"
proof (induction k arbitrary: r text_of_file)
  case (Suc k)
  note hit = hits_do_not_renew [OF Suc.prems(2) assms(2)]
  define r1 where "r1 = push_event (reroute ''audit-crash'' ''start'' ''done'' (cached_route c)) r"
  have 1: "route_request ''audit-crash'' ''start'' ''done'' r = (Routed (cached_route c), r1)" using hit by (simp add: r1_def)
  have reach: "configured ''audit-crash'' crash_edges r1" using configured_route [OF Suc.prems(1)] 1 by (metis snd_conv)
  have "map_of (tenants r1) ''audit-crash'' = Some t" using Suc.prems(2) by (simp add: r1_def)
  from Suc.IH [OF reach this] obtain r' where
    "crash_loop to_string io k (r1, text_of_file @ jsonl to_string [reroute ''audit-crash'' ''start'' ''done'' (cached_route c)])
      = Some (r', (text_of_file @ jsonl to_string [reroute ''audit-crash'' ''start'' ''done'' (cached_route c)])
          @ jsonl to_string (replicate k (reroute ''audit-crash'' ''start'' ''done'' (cached_route c))))" by blast
  moreover have "crash_iteration to_string (io k) (r, text_of_file)
    = Some (r1, text_of_file @ jsonl to_string [reroute ''audit-crash'' ''start'' ''done'' (cached_route c)])"
    using crash_step [OF configured_reachable [OF Suc.prems(1)] 1] assms(1) by blast
  ultimately show ?case by (simp add: jsonl_def)
qed (simp add: jsonl_def)

text \<open>
  The crash writer appends one line per request: when no system call fails it ends with a thousand
  more lines in the file, the first one for the searched route and the others for its cached copy.
\<close>
theorem crash_writer_log:
  assumes "\<forall>k. io_succeeds (io k)"
  shows "\<exists>r cost. crash_main to_string io text_of_file = Some (r, text_of_file @ jsonl to_string
     (Reroute ''audit-crash'' ''start'' ''done'' [''start'', ''search'', ''done''] cost False
      # replicate 999 (Reroute ''audit-crash'' ''start'' ''done'' [''start'', ''search'', ''done''] cost True)))"
proof -
  let ?tid = "''audit-crash''" and ?k = "\<lparr>rk_start = ''start'', rk_goal = ''done''\<rparr>"
  let ?b = "built_router ?tid crash_edges" and ?t = "default_tenant\<lparr>graph := graph_of crash_edges\<rparr>"
  have c: "configured ?tid crash_edges ?b" by (rule configured_built [OF crash_edges_wf])
  note t = built_tenant [of ?tid crash_edges]
  have path: "net_path ?tid crash_edges ?b ''start'' ''done'' [''start'', ''search'', ''done'']"
    by (simp add: net_path_def crash_edge built_state)
  obtain rt where rt: "fst (route_request ?tid ''start'' ''done'' ?b) = Routed rt" "nodes rt = [''start'', ''search'', ''done'']"
    using c crash_edges_wf
  proof (cases rule: request_decides [where start = "''start''" and goal = "''done''"])
    case (routed rt)
    then show thesis using that crash_paths [OF built_state(1)] by blast
  next
    case (escalated x)
    then show thesis using path by blast
  qed
  have miss: "map_of (cache ?t) ?k = None" by (simp add: default_tenant_def)
  note first = searched_route [OF t miss rt(1)]
  let ?c = "\<lparr>cp_path = nodes rt, cp_weight = total_cost rt, touched_nodes = set (nodes rt)\<rparr>"
  define r1 where "r1 = snd (route_request ?tid ''start'' ''done'' ?b)"
  have r1: "route_request ?tid ''start'' ''done'' ?b = (Routed rt, r1)" using rt(1) by (simp add: r1_def prod_eq_iff)
  define text1 where "text1 = text_of_file @ jsonl to_string [reroute ?tid ''start'' ''done'' rt]"
  have "crash_iteration to_string (io 999) (?b, text_of_file) = Some (r1, text1)"
    using crash_step [OF configured_reachable [OF c] r1] assms by (simp add: text1_def)
  then have "crash_main to_string io text_of_file = crash_loop to_string io 999 (r1, text1)"
    by (simp add: crash_main_def crash_build_router_def numeral_eq_Suc)
  moreover obtain r' where "crash_loop to_string io 999 (r1, text1)
      = Some (r', text1 @ jsonl to_string (replicate 999 (reroute ?tid ''start'' ''done'' (cached_route ?c))))"
    using crash_cached [OF assms inserted_hit configured_route [OF c] first(3)] unfolding r1_def by blast
  ultimately show ?thesis
    using rt(2) first(2) by (auto simp: text1_def jsonl_def reroute_def cached_route_def intro!: exI [of _ "total_cost rt"])
qed

end
