(* ===== verification/Drills.thy ===== *)
theory Drills
  imports Drivers FloatRanges
begin

text \<open>
  What the load test and the soak test share: a network of two layers of tools between \<open>start\<close> and
  \<open>done\<close>, a failure injector that opens a few tools, waits, and heals them again, and percentiles of
  the measured durations.  The main fact: while the injector runs against workers that only report
  successes, the open tools are those of its present cycle, so each layer keeps a usable tool.
\<close>

section \<open>Two layers of tools\<close>

locale layered_network =
  fixes tid :: tenant_id and searches summaries :: "node_id list" and es :: "edge list"
  assumes edges_wf: "\<forall>e \<in> set es. wf_edge e" and few_edges: "2 * length es < 2 ^ 32 - 1"
    and links: "edge_among es a b \<longleftrightarrow> a = ''start'' \<and> b \<in> set searches
      \<or> a \<in> set searches \<and> b \<in> set summaries \<or> a \<in> set summaries \<and> b = ''done''"
    and names: "distinct (''start'' # ''done'' # searches @ summaries)"
begin

lemma path_through:
  assumes "s \<in> set searches - open_nodes tid r" "u \<in> set summaries - open_nodes tid r" "''done'' \<notin> open_nodes tid r"
  shows "net_path tid es r ''start'' ''done'' [''start'', s, u, ''done'']"
  using assms names by (auto simp: net_path_def links)

lemma path_shape:
  assumes "net_path tid es r ''start'' ''done'' p"
  obtains s u where "p = [''start'', s, u, ''done'']" "s \<in> set searches - open_nodes tid r" "u \<in> set summaries - open_nodes tid r"
proof -
  obtain xs where xs: "p = ''start'' # xs" using assms by (cases p) (auto simp: net_path_def)
  then obtain s q where q: "p = ''start'' # s # q" using assms by (cases xs) (auto simp: net_path_def)
  have s: "s \<in> set searches - open_nodes tid r" using assms names by (auto simp: q net_path_def links)
  then obtain u q' where q': "q = u # q'" using assms names by (cases q) (auto simp: q net_path_def)
  have u: "u \<in> set summaries - open_nodes tid r" using assms names s by (auto simp: q q' net_path_def links)
  then obtain d q'' where q'': "q' = d # q''" using assms names by (cases q') (auto simp: q q' net_path_def)
  have d: "d = ''done''" using assms names u by (auto simp: q q' q'' net_path_def links)
  have "q'' = []" using assms d names by (cases q'') (auto simp: q q' q'' net_path_def links)
  then show thesis using that s u d by (simp add: q q' q'')
qed

text \<open>A usable tool in each layer is enough, and necessary, for a route.\<close>

definition both_layers_up :: "router \<Rightarrow> bool" where
  "both_layers_up r \<longleftrightarrow> \<not> set searches \<subseteq> open_nodes tid r \<and> \<not> set summaries \<subseteq> open_nodes tid r
     \<and> ''done'' \<notin> open_nodes tid r"

lemma slow_routed:
  assumes "configured tid es r" "both_layers_up r"
  obtains rt s u where "fst (route_slow tid ''start'' ''done'' r) = Routed rt" "nodes rt = [''start'', s, u, ''done'']"
proof -
  obtain t where t: "router_reachable r" "map_of (tenants r) tid = Some t" "moderate_model (cost_model t)"
    using assms(1) by (rule configuredE)
  obtain s u where "s \<in> set searches - open_nodes tid r" "u \<in> set summaries - open_nodes tid r" "''done'' \<notin> open_nodes tid r"
    using assms(2) by (auto simp: both_layers_up_def)
  then have "simple_path t ''start'' ''done'' [''start'', s, u, ''done'']"
    using net_path_simple [OF assms(1) edges_wf few_edges t(2)] path_through by blast
  then obtain rt where rt: "fst (route_slow tid ''start'' ''done'' r) = Routed rt" by (rule slow_complete [OF t])
  have "\<exists>t'. map_of (tenants r) tid = Some t' \<and> simple_path t' ''start'' ''done'' (nodes rt)"
    using routed_paths_safe [OF t(1), of tid "''start''" "''done''" rt] rt by (auto simp: simple_path_def)
  then have "net_path tid es r ''start'' ''done'' (nodes rt)"
    using net_path_simple [OF assms(1) edges_wf few_edges t(2)] t(2) by auto
  then show thesis using that rt path_shape by metis
qed

lemma fast_routed:
  assumes "configured tid es r" "fst (route_fast tid ''start'' ''done'' r) = Some d"
  obtains rt s u where "d = Routed rt" "nodes rt = [''start'', s, u, ''done'']"
proof -
  obtain t where t: "router_reachable r" "map_of (tenants r) tid = Some t" "moderate_model (cost_model t)"
    using assms(1) by (rule configuredE)
  have "route_fast tid ''start'' ''done'' r = (Some d, snd (route_fast tid ''start'' ''done'' r))"
    using assms(2) by (simp add: prod_eq_iff)
  then obtain c where d: "d = Routed (cached_route c)" by (rule route_fast_cases)
  have "\<exists>t'. map_of (tenants r) tid = Some t' \<and> simple_path t' ''start'' ''done'' (nodes (cached_route c))"
    using routed_paths_safe [OF t(1), of tid "''start''" "''done''" "cached_route c"] assms(2) d by (auto simp: simple_path_def)
  then have "net_path tid es r ''start'' ''done'' (nodes (cached_route c))"
    using net_path_simple [OF assms(1) edges_wf few_edges t(2)] t(2) by auto
  then show thesis using that d path_shape by metis
qed

lemma few_open:
  assumes "open_nodes tid r \<subseteq> set ns" "length ns < length searches" "length ns < length summaries" "''done'' \<notin> set ns"
  shows "both_layers_up r"
proof -
  have "\<not> set xs \<subseteq> open_nodes tid r" if "distinct xs" "length ns < length xs" for xs
  proof
    assume "set xs \<subseteq> open_nodes tid r"
    then have "card (set xs) \<le> card (set ns)" using assms(1) by (meson List.finite_set card_mono order_trans)
    also have "\<dots> \<le> length ns" by (rule card_length)
    finally show False using that by (simp add: distinct_card)
  qed
  then show ?thesis using assms names by (auto simp: both_layers_up_def)
qed

end

section \<open>Costs computed from an index\<close>

definition fine_cost :: "f64 \<Rightarrow> bool" where
  "fine_cost a \<longleftrightarrow> wf_f64 a \<and> ranged 0 (2 ^ 30) a"

lemma wf_fmul: "wf_f64 (fmul a b)"
  by (cases "(a, b)" rule: fmul.cases) (auto simp: f_nan_def max_mag_def)

lemma fine_lit: "0 \<le> x \<Longrightarrow> x \<le> 100 \<Longrightarrow> fine_cost (f64_lit x)"
  using ranged_lit [of 0 x "2 ^ 30"] by (simp add: fine_cost_def f64_lit_def)

lemma fine_index: "i \<le> 100 \<Longrightarrow> ranged 0 (2 ^ 27) (f64_of_nat i)"
  using ranged_mono [OF ranged_of_nat [of i]] by simp

lemma fine_scaled:
  assumes "0 \<le> x" "x \<le> 1" "i \<le> 100"
  shows "fine_cost (fmul (f64_lit x) (f64_of_nat i))" "ranged 0 (2 ^ 28) (fmul (f64_of_nat i) (f64_lit x))"
proof -
  have x: "ranged 0 (2 ^ 20) (f64_lit x)" using assms by (intro ranged_lit) simp_all
  show "fine_cost (fmul (f64_lit x) (f64_of_nat i))" "ranged 0 (2 ^ 28) (fmul (f64_of_nat i) (f64_lit x))"
    using ranged_fmul [OF x fine_index [OF assms(3)], of 0 "2 ^ 30"] ranged_fmul [OF fine_index [OF assms(3)] x, of 0 "2 ^ 28"]
    by (simp_all add: fine_cost_def wf_fmul)
qed

lemma fine_sum:
  assumes "0 \<le> x" "x \<le> 1" "ranged 0 (2 ^ 28) b"
  shows "fine_cost (fadd (f64_lit x) b)"
proof -
  have "ranged 0 (2 ^ 20) (f64_lit x)" using assms by (intro ranged_lit) simp_all
  then have "ranged (0 + 0) (2 ^ 20 + 2 ^ 28) (fadd (f64_lit x) b)" using assms(3) by (intro ranged_fadd) simp_all
  from ranged_mono [OF this, of 0 "2 ^ 30"] show ?thesis by (simp add: fine_cost_def)
qed

lemma fine_quotient:
  assumes "i \<le> 100" "1 \<le> d" "d \<le> 100"
  shows "ranged 0 (2 ^ 28) (fdiv (f64_of_nat i) (f64_lit (of_nat d)))"
proof -
  have "ranged (d * 2 ^ 20) (d * 2 ^ 20) (f64_lit (of_nat d))" using assms by (intro ranged_lit) simp_all
  from ranged_fdiv [OF fine_index [OF assms(1)] this, of 0 "2 ^ 28"] show ?thesis using assms by simp
qed

text \<open>An edge with such costs may be used.\<close>

definition usable_edge :: "edge \<Rightarrow> bool" where
  "usable_edge e \<longleftrightarrow> wf_edge e \<and> enabled e \<and> ie_is_valid (index_edge 0 e)"

lemma fine_edge:
  assumes "fine_cost b" "fine_cost d" "fine_cost k"
  shows "usable_edge (edge_with_costs b d l k (edge_new x y))"
  using assms
  by (auto simp: usable_edge_def fine_cost_def wf_edge_def edge_with_costs_def edge_new_def index_edge_def ie_is_valid_def
      f_le_def signed_def elim!: rangedE)

lemma costed_ends:
  "(edge_from (edge_with_costs b d l k (edge_new x y)), edge_to (edge_with_costs b d l k (edge_new x y))) = (x, y)"
  by (simp add: edge_with_costs_def edge_new_def)

lemma set_by_index: "set xs = (!) xs ` {0..<length xs}"
  by (auto simp: in_set_conv_nth)

lemma edge_among_usable:
  "\<forall>e \<in> set es. usable_edge e \<Longrightarrow> edge_among es a b \<longleftrightarrow> (a, b) \<in> (\<lambda>e. (edge_from e, edge_to e)) ` set es"
  by (rule edge_among_image) (simp add: usable_edge_def)

lemmas fine_costs = fine_edge fine_lit fine_scaled fine_sum fine_quotient fine_index [THEN ranged_mono]

section \<open>The failure injector\<close>

datatype inject_op = Fail node_id | CountFailure | Force node_id | Heal node_id | CountRecovery

text \<open>The nodes of a cycle: two or three neighbours in the list of all tools.\<close>

definition cycle_nodes :: "nat \<Rightarrow> node_id list \<Rightarrow> nat \<Rightarrow> node_id list" where
  "cycle_nodes stride tools cycle =
     (let fail_count = 2 + cycle mod 2; offset = cycle * stride mod length tools
      in map (\<lambda>i. tools ! ((offset + i) mod length tools)) [0..<fail_count])"

definition cycle_ops :: "node_id list \<Rightarrow> inject_op list" where
  "cycle_ops ns = concat (map (\<lambda>n. replicate (unat OPEN_THRESHOLD) (Fail n) @ [CountFailure]) ns)
     @ concat (map (\<lambda>n. Force n # replicate 3 (Heal n) @ [CountRecovery]) ns)"

definition inject :: "tenant_id \<Rightarrow> u64 \<Rightarrow> u64 \<Rightarrow> instant \<Rightarrow> inject_op \<Rightarrow> router \<Rightarrow> router" where
  "inject tid fail_latency heal_latency now op r =
     (case op of
        Fail n \<Rightarrow> record_result now tid n False fail_latency r
      | Force n \<Rightarrow> snd (force_half_open tid n r)
      | Heal n \<Rightarrow> record_result now tid n True heal_latency r
      | CountFailure \<Rightarrow> r | CountRecovery \<Rightarrow> r)"

text \<open>What an injector still has to force half-open, and that it forces whatever it fails.\<close>

definition to_force :: "inject_op list \<Rightarrow> node_id set" where
  "to_force ops = {n. Force n \<in> set ops}"

fun forces_failed :: "inject_op list \<Rightarrow> bool" where
  "forces_failed [] = True"
| "forces_failed (op # ops) = ((\<forall>n. op = Fail n \<longrightarrow> n \<in> to_force ops) \<and> forces_failed ops)"

lemma forces_failed_tail: "(\<forall>n. Fail n \<in> set xs \<longrightarrow> n \<in> to_force ys) \<Longrightarrow> forces_failed ys \<Longrightarrow> forces_failed (xs @ ys)"
  by (induction xs) (auto simp: to_force_def)

lemma forces_failed_no_fail: "(\<forall>n. Fail n \<notin> set ys) \<Longrightarrow> forces_failed ys"
  by (induction ys) auto

lemma cycle_forces: "forces_failed (cycle_ops ns)"
  unfolding cycle_ops_def
  by (intro forces_failed_tail forces_failed_no_fail) (auto simp: to_force_def split: if_splits)

lemma to_force_cycle: "to_force (cycle_ops ns) = set ns"
  by (auto simp: to_force_def cycle_ops_def split: if_splits)

lemma inject_step:
  assumes "configured tid es r" "open_nodes tid r \<subseteq> to_force (op # ops)" "forces_failed (op # ops)"
  shows "configured tid es (inject tid fl hl now op r)" "open_nodes tid (inject tid fl hl now op r) \<subseteq> to_force ops"
    "forces_failed ops"
  using assms open_after_result [OF assms(1)] open_after_force [OF assms(1)]
  by (cases op; fastforce simp: inject_def to_force_def configured_result configured_force)+

lemma cycle_nodes_few: "length (cycle_nodes k tools c) \<le> 3" "tools \<noteq> [] \<Longrightarrow> set (cycle_nodes k tools c) \<subseteq> set tools"
  by (auto simp: cycle_nodes_def Let_def)

text \<open>The nodes failed, and recovered, in the first cycles.\<close>

definition injections :: "nat \<Rightarrow> nat" where
  "injections c = (\<Sum>i < c. 2 + i mod 2)"

lemma cycle_counts:
  "count_list (cycle_ops ns) CountFailure = length ns" "count_list (cycle_ops ns) CountRecovery = length ns"
proof -
  have none: "op \<noteq> op' \<Longrightarrow> count_list (replicate k op') op = 0" for k op op' by (induction k) auto
  have "count_list (concat (map (\<lambda>n. replicate (unat OPEN_THRESHOLD) (Fail n) @ [CountFailure]) xs)) CountFailure = length xs"
    "count_list (concat (map (\<lambda>n. replicate (unat OPEN_THRESHOLD) (Fail n) @ [CountFailure]) xs)) CountRecovery = 0"
    "count_list (concat (map (\<lambda>n. Force n # replicate 3 (Heal n) @ [CountRecovery]) xs)) CountRecovery = length xs"
    "count_list (concat (map (\<lambda>n. Force n # replicate 3 (Heal n) @ [CountRecovery]) xs)) CountFailure = 0" for xs
    by (induction xs) (simp_all add: none)
  then show "count_list (cycle_ops ns) CountFailure = length ns" "count_list (cycle_ops ns) CountRecovery = length ns"
    by (simp_all add: cycle_ops_def)
qed

lemma cycle_length: "length (cycle_nodes k tools c) = 2 + c mod 2"
  by (simp add: cycle_nodes_def Let_def)

subsection \<open>What is open during a drill\<close>

text \<open>
  The open tools are among those the injector will still force half-open, which are at most the three
  of its cycle.
\<close>

definition drilled :: "tenant_id \<Rightarrow> edge list \<Rightarrow> node_id list \<Rightarrow> inject_op list \<Rightarrow> router \<Rightarrow> bool" where
  "drilled tid es tools ops r \<longleftrightarrow> configured tid es r \<and> open_nodes tid r \<subseteq> to_force ops \<and> forces_failed ops
     \<and> (\<exists>ns. length ns \<le> 3 \<and> set ns \<subseteq> set tools \<and> to_force ops \<subseteq> set ns)"

lemma drilled_configured: "drilled tid es tools ops r \<Longrightarrow> configured tid es r"
  by (simp add: drilled_def)

lemma drilled_idle: "drilled tid es tools [] r \<Longrightarrow> open_nodes tid r = {}"
  by (simp add: drilled_def to_force_def)

lemma drilled_open:
  assumes "drilled tid es tools ops r"
  shows "card (open_nodes tid r) \<le> 3"
proof -
  obtain ns where ns: "length ns \<le> 3" "open_nodes tid r \<subseteq> set ns" using assms by (auto simp: drilled_def)
  have "card (open_nodes tid r) \<le> card (set ns)" using ns(2) by (simp add: card_mono)
  then show ?thesis using card_length [of ns] ns(1) by linarith
qed

lemma drilled_start:
  assumes "\<forall>e \<in> set es. wf_edge e" "2 * length es < 2 ^ 32 - 1"
  shows "drilled tid es tools [] (built_router tid es)"
  by (auto simp: drilled_def configured_built [OF assms] built_state to_force_def intro!: exI [of _ "[]"])

lemma drilled_mono:
  "drilled tid es tools ops r \<Longrightarrow> configured tid es r' \<Longrightarrow> open_nodes tid r' \<subseteq> open_nodes tid r \<Longrightarrow> drilled tid es tools ops r'"
  by (auto simp: drilled_def)

lemma drilled_act:
  assumes "drilled tid es tools (op # ops) r"
  shows "drilled tid es tools ops (inject tid fl hl now op r)"
proof -
  obtain ns where "length ns \<le> 3" "set ns \<subseteq> set tools" "to_force (op # ops) \<subseteq> set ns" using assms by (auto simp: drilled_def)
  then have "\<exists>ns. length ns \<le> 3 \<and> set ns \<subseteq> set tools \<and> to_force ops \<subseteq> set ns"
    by (intro exI [of _ ns]) (auto simp: to_force_def)
  then show ?thesis
    using assms inject_step(1,2) [of tid es r op ops fl hl now] inject_step(3) [of tid es r op ops]
    by (auto simp: drilled_def)
qed

lemma drilled_cycle:
  assumes "drilled tid es tools [] r" "tools \<noteq> []"
  shows "drilled tid es tools (cycle_ops (cycle_nodes k tools c)) r"
  using assms(1) cycle_nodes_few(1) [of k tools c] cycle_nodes_few(2) [OF assms(2), of k c]
  by (auto simp: drilled_def cycle_forces to_force_cycle) (auto simp: to_force_def)

context layered_network
begin

lemma drilled_up:
  assumes "drilled tid es (searches @ summaries) ops r" "3 < length searches" "3 < length summaries"
  shows "both_layers_up r"
proof -
  obtain ns where ns: "length ns \<le> 3" "set ns \<subseteq> set searches \<union> set summaries" "open_nodes tid r \<subseteq> set ns"
    using assms(1) by (auto simp: drilled_def)
  then show ?thesis using names assms(2,3) by (intro few_open [OF ns(3)]) auto
qed

end

section \<open>Percentiles\<close>

text \<open>\<open>None\<close> is an index out of range; the empty list gives the zero duration.\<close>

definition duration_percentile :: "duration list \<Rightarrow> f64 \<Rightarrow> duration option" where
  "duration_percentile xs p =
     (if xs = [] then Some 0
      else let i = f64_to_nat (2 ^ 64 - 1) (fround (fdiv (fmul (f64_of_nat (length xs - 1)) p) (f64_lit 100)))
           in if i < length xs then Some (xs ! i) else None)"

lemma duration_percentile_us: "map_option as_micros (duration_percentile xs p) = percentile_us xs p"
  by (simp add: duration_percentile_def percentile_us_def Let_def as_micros_def)

lemma duration_percentile_rank:
  assumes "xs \<noteq> []" "length xs \<le> 2 ^ 40" "p \<le> 100"
  shows "duration_percentile xs (f64_lit (of_nat p)) = Some (xs ! percentile_rank (length xs - 1) p)"
    "percentile_rank (length xs - 1) p < length xs"
proof -
  let ?ys = "map (\<lambda>i. i * 1000) [0..<length xs]"
  let ?i = "f64_to_nat (2 ^ 64 - 1) (fround (fdiv (fmul (f64_of_nat (length xs - 1)) (f64_lit (of_nat p))) (f64_lit 100)))"
  have "percentile_us ?ys (f64_lit (of_nat p)) = Some (percentile_rank (length xs - 1) p)"
    "percentile_rank (length xs - 1) p < length xs"
    using percentile_us_rank [of ?ys p] assms by (simp_all add: as_micros_def)
  then have "?i = percentile_rank (length xs - 1) p" "percentile_rank (length xs - 1) p < length xs"
    using assms(1) by (simp_all add: percentile_us_def Let_def as_micros_def split: if_splits)
  then show "duration_percentile xs (f64_lit (of_nat p)) = Some (xs ! percentile_rank (length xs - 1) p)"
    "percentile_rank (length xs - 1) p < length xs"
    using assms(1) by (simp_all add: duration_percentile_def Let_def)
qed

end
