(* ===== verification/LoadTest.thy ===== *)
theory LoadTest
  imports Drills SidecarConfig
begin

text \<open>
  The load test (\<open>trust-router-loadtest.rs\<close>): workers that route and report successes while an
  injector opens and heals tools, on one shared router.  The steps are those between two lock
  acquisitions, so the relation covers every interleaving of the tasks; the relaxed counters are
  only read at the end and are incremented with the step that precedes them.
\<close>

section \<open>The program\<close>

definition DEFAULT_TASKS :: nat where "DEFAULT_TASKS = 100"
definition OPS_PER_TASK :: nat where "OPS_PER_TASK = 200"
definition FAILURE_CYCLES :: nat where "FAILURE_CYCLES = 12"

text \<open>The first argument of the command line.\<close>

definition task_count_of :: "string option \<Rightarrow> nat" where
  "task_count_of argument = (case Option.bind argument (parse_unsigned (2 ^ 64)) of None \<Rightarrow> DEFAULT_TASKS | Some n \<Rightarrow> n)"

definition SEARCH_NODES :: "node_id list" where
  "SEARCH_NODES = [''search_a'', ''search_b'', ''search_c'', ''search_d'']"

definition SUMMARY_NODES :: "node_id list" where
  "SUMMARY_NODES = [''summarize_a'', ''summarize_b'', ''summarize_c'', ''summarize_d'']"

definition ALL_TOOL_NODES :: "node_id list" where
  "ALL_TOOL_NODES = [''search_a'', ''search_b'', ''search_c'', ''search_d'',
     ''summarize_a'', ''summarize_b'', ''summarize_c'', ''summarize_d'']"

definition load_edges :: "edge list" where
  "load_edges =
     map (\<lambda>i. edge_with_costs (fadd (f64_lit 1) (f64_of_nat i)) (fmul (f64_lit (1/1000)) (f64_of_nat (i + 1)))
         (120 + of_nat i * 20) (fadd (f64_lit (1/10)) (fmul (f64_of_nat i) (f64_lit (5/100))))
         (edge_new ''start'' (SEARCH_NODES ! i))) [0..<length SEARCH_NODES]
   @ concat (map (\<lambda>i. map (\<lambda>j. edge_with_costs (fadd (f64_lit 1) (fdiv (f64_of_nat (i + j)) (f64_lit 2)))
         (fmul (f64_lit (1/1000)) (f64_of_nat (j + 1))) (180 + of_nat j * 30)
         (fadd (f64_lit (1/10)) (fmul (f64_of_nat j) (f64_lit (4/100))))
         (edge_new (SEARCH_NODES ! i) (SUMMARY_NODES ! j))) [0..<length SUMMARY_NODES]) [0..<length SEARCH_NODES])
   @ map (\<lambda>j. edge_with_costs (fadd (f64_lit 1) (fdiv (f64_of_nat j) (f64_lit 2))) (f64_lit (1/1000))
         (100 + of_nat j * 25) (f64_lit (1/10)) (edge_new (SUMMARY_NODES ! j) ''done'')) [0..<length SUMMARY_NODES]"

definition load_build_router :: router where
  "load_build_router = built_router ''load'' load_edges"

record load_metrics =
  route_successes :: usize
  route_escalations :: usize
  escalations_all_paths_blocked :: usize
  escalations_with_penalty_path_available :: usize
  escalations_unknown_state :: usize
  escalation_snapshots_search_open_total :: usize
  escalation_snapshots_summarize_open_total :: usize
  escalation_snapshots_penalty_node_usable :: usize
  lm_route_errors :: usize
  lm_failure_transitions :: usize
  lm_recovery_transitions :: usize
  failure_task_completed :: bool

definition default_load_metrics :: load_metrics where
  "default_load_metrics = \<lparr>route_successes = 0, route_escalations = 0, escalations_all_paths_blocked = 0,
     escalations_with_penalty_path_available = 0, escalations_unknown_state = 0,
     escalation_snapshots_search_open_total = 0, escalation_snapshots_summarize_open_total = 0,
     escalation_snapshots_penalty_node_usable = 0, lm_route_errors = 0, lm_failure_transitions = 0,
     lm_recovery_transitions = 0, failure_task_completed = False\<rparr>"

subsection \<open>Workers\<close>

datatype load_op = RouteOp | ReportOp node_id u64

definition worker_op :: "nat \<Rightarrow> nat \<Rightarrow> load_op" where
  "worker_op worker iteration =
     (if (worker + iteration) mod 3 = 0 then RouteOp
      else ReportOp (ALL_TOOL_NODES ! ((worker + iteration) mod length ALL_TOOL_NODES)) (100 + of_nat (iteration mod 50)))"

text \<open>
  What an escalation is classified by: the states of the search tools and of the summarisers, read
  one after the other.
\<close>

definition classify_escalation :: "node_state option list \<Rightarrow> node_state option list \<Rightarrow> load_metrics \<Rightarrow> load_metrics" where
  "classify_escalation search_states summary_states m =
     (let search_open = length (filter (\<lambda>s. s = Some Open) search_states);
          summary_open = length (filter (\<lambda>s. s = Some Open) summary_states);
          m = m\<lparr>escalation_snapshots_search_open_total := escalation_snapshots_search_open_total m + of_nat search_open,
                escalation_snapshots_summarize_open_total := escalation_snapshots_summarize_open_total m + of_nat summary_open\<rparr>;
          m = (if \<exists>s \<in> set (search_states @ summary_states). s = Some Degraded \<or> s = Some HalfOpen
               then m\<lparr>escalation_snapshots_penalty_node_usable := escalation_snapshots_penalty_node_usable m + 1\<rparr> else m);
          all_paths_blocked = (search_open = length SEARCH_NODES \<or> summary_open = length SUMMARY_NODES);
          penalty_path_available = (search_open < length SEARCH_NODES \<and> summary_open < length SUMMARY_NODES)
      in if all_paths_blocked then m\<lparr>escalations_all_paths_blocked := escalations_all_paths_blocked m + 1\<rparr>
         else if penalty_path_available
         then m\<lparr>escalations_with_penalty_path_available := escalations_with_penalty_path_available m + 1\<rparr>
         else m\<lparr>escalations_unknown_state := escalations_unknown_state m + 1\<rparr>)"

text \<open>
  A worker is between operations, has missed the cache and will search under the write lock, or is
  reading the states of the tools after an escalation.
\<close>

datatype worker_phase = Ready | Missed | Sampling "node_state option list"

record load_worker =
  lw_iteration :: nat
  lw_phase :: worker_phase
  lw_latencies :: "duration list"

record load_injector =
  li_cycle :: nat
  li_ops :: "inject_op list"

record load_state =
  ls_router :: router
  ls_metrics :: load_metrics
  ls_workers :: "load_worker list"
  ls_injector :: load_injector

text \<open>The end of an operation of worker \<open>w\<close>, which took \<open>lat\<close>.\<close>

definition op_done :: "nat \<Rightarrow> duration \<Rightarrow> load_state \<Rightarrow> load_state" where
  "op_done w lat st =
     (let k = ls_workers st ! w
      in st\<lparr>ls_workers := (ls_workers st)[w := \<lparr>lw_iteration = lw_iteration k + 1, lw_phase = Ready,
           lw_latencies = lw_latencies k @ [lat]\<rparr>]\<rparr>)"

definition set_phase :: "nat \<Rightarrow> worker_phase \<Rightarrow> load_state \<Rightarrow> load_state" where
  "set_phase w p st = st\<lparr>ls_workers := (ls_workers st)[w := (ls_workers st ! w)\<lparr>lw_phase := p\<rparr>]\<rparr>"

text \<open>The two arms of the match on the decision of \<open>route\<close>.\<close>

definition decided :: "nat \<Rightarrow> duration \<Rightarrow> route_decision \<Rightarrow> load_state \<Rightarrow> load_state" where
  "decided w lat d st =
     (let m = ls_metrics st
      in case d of
           Routed _ \<Rightarrow> op_done w lat (st\<lparr>ls_metrics := m\<lparr>route_successes := route_successes m + 1\<rparr>\<rparr>)
         | Escalate _ \<Rightarrow> set_phase w (Sampling []) (st\<lparr>ls_metrics := m\<lparr>route_escalations := route_escalations m + 1\<rparr>\<rparr>))"

text \<open>One step of \<open>run_worker\<close>; \<open>None\<close> when its loop has ended.\<close>

definition worker_step :: "nat \<Rightarrow> instant \<Rightarrow> duration \<Rightarrow> load_state \<Rightarrow> load_state option" where
  "worker_step w now lat st =
     (let k = ls_workers st ! w; r = ls_router st
      in if OPS_PER_TASK \<le> lw_iteration k then None
         else case lw_phase k of
           Ready \<Rightarrow>
             (case worker_op w (lw_iteration k) of
                RouteOp \<Rightarrow>
                  (case route_fast ''load'' ''start'' ''done'' r of
                     (Some d, r') \<Rightarrow> Some (decided w lat d (st\<lparr>ls_router := r'\<rparr>))
                   | (None, r') \<Rightarrow> Some (set_phase w Missed (st\<lparr>ls_router := r'\<rparr>)))
              | ReportOp node l \<Rightarrow> Some (op_done w lat (st\<lparr>ls_router := record_result now ''load'' node True l r\<rparr>)))
         | Missed \<Rightarrow>
             (case route_slow ''load'' ''start'' ''done'' r of (d, r') \<Rightarrow> Some (decided w lat d (st\<lparr>ls_router := r'\<rparr>)))
         | Sampling states \<Rightarrow>
             if length states < length SEARCH_NODES + length SUMMARY_NODES
             then Some (set_phase w (Sampling (states @ [node_state_of ''load'' ((SEARCH_NODES @ SUMMARY_NODES) ! length states) r])) st)
             else Some (op_done w lat (st\<lparr>ls_metrics := classify_escalation (take (length SEARCH_NODES) states)
                    (drop (length SEARCH_NODES) states) (ls_metrics st)\<rparr>)))"

subsection \<open>The failure injector\<close>

definition count_injection :: "inject_op \<Rightarrow> load_metrics \<Rightarrow> load_metrics" where
  "count_injection op m =
     (case op of
        CountFailure \<Rightarrow> m\<lparr>lm_failure_transitions := lm_failure_transitions m + 1\<rparr>
      | CountRecovery \<Rightarrow> m\<lparr>lm_recovery_transitions := lm_recovery_transitions m + 1\<rparr>
      | _ \<Rightarrow> m)"

definition injector_step :: "instant \<Rightarrow> load_state \<Rightarrow> load_state option" where
  "injector_step now st =
     (let i = ls_injector st; m = ls_metrics st
      in case li_ops i of
           op # ops \<Rightarrow>
             Some (st\<lparr>ls_router := inject ''load'' 750 100 now op (ls_router st), ls_metrics := count_injection op m,
                      ls_injector := i\<lparr>li_ops := ops\<rparr>\<rparr>)
         | [] \<Rightarrow>
             if li_cycle i < FAILURE_CYCLES
             then Some (st\<lparr>ls_injector := \<lparr>li_cycle = li_cycle i + 1, li_ops = cycle_ops (cycle_nodes 3 ALL_TOOL_NODES (li_cycle i))\<rparr>\<rparr>)
             else if \<not> failure_task_completed m then Some (st\<lparr>ls_metrics := m\<lparr>failure_task_completed := True\<rparr>\<rparr>)
             else None)"

definition load_start :: "nat \<Rightarrow> load_state" where
  "load_start task_count = \<lparr>ls_router = load_build_router, ls_metrics = default_load_metrics,
     ls_workers = replicate task_count \<lparr>lw_iteration = 0, lw_phase = Ready, lw_latencies = []\<rparr>,
     ls_injector = \<lparr>li_cycle = 0, li_ops = []\<rparr>\<rparr>"

inductive load_step :: "load_state \<Rightarrow> load_state \<Rightarrow> bool" where
  worker: "w < length (ls_workers st) \<Longrightarrow> worker_step w now lat st = Some st' \<Longrightarrow> load_step st st'"
| injector: "injector_step now st = Some st' \<Longrightarrow> load_step st st'"

inductive load_reachable :: "nat \<Rightarrow> load_state \<Rightarrow> bool" for n where
  start: "load_reachable n (load_start n)"
| step: "load_reachable n st \<Longrightarrow> load_step st st' \<Longrightarrow> load_reachable n st'"

subsection \<open>The report\<close>

definition load_finished :: "load_state \<Rightarrow> bool" where
  "load_finished st \<longleftrightarrow> (\<forall>k \<in> set (ls_workers st). OPS_PER_TASK \<le> lw_iteration k)
     \<and> li_ops (ls_injector st) = [] \<and> FAILURE_CYCLES \<le> li_cycle (ls_injector st) \<and> failure_task_completed (ls_metrics st)"

record load_report =
  lr_total_ops :: nat
  lr_panics :: usize
  lr_metrics :: load_metrics
  lr_p50 :: nat
  lr_p95 :: nat
  lr_p99 :: nat
  correctness_degraded :: bool

text \<open>\<open>main\<close> after all tasks are joined; \<open>panics\<close> is the number of joins that failed.\<close>

definition load_report_of :: "usize \<Rightarrow> load_state \<Rightarrow> load_report option" where
  "load_report_of panics st =
     (let latencies = sort (concat (map lw_latencies (ls_workers st)));
          p = (\<lambda>q. map_option as_micros (duration_percentile latencies (f64_lit q)))
      in case (p 50, p 95, p 99) of
           (Some a, Some b, Some c) \<Rightarrow>
             Some \<lparr>lr_total_ops = length latencies, lr_panics = panics, lr_metrics = ls_metrics st,
                lr_p50 = a, lr_p95 = b, lr_p99 = c,
                correctness_degraded = (panics > 0 \<or> lm_route_errors (ls_metrics st) > 0)\<rparr>
         | _ \<Rightarrow> None)"

section \<open>The network of the load test\<close>

lemma load_tools [simp]: "ALL_TOOL_NODES = SEARCH_NODES @ SUMMARY_NODES" "length SEARCH_NODES = 4" "length SUMMARY_NODES = 4"
  by (simp_all add: ALL_TOOL_NODES_def SEARCH_NODES_def SUMMARY_NODES_def)

lemma load_edges_usable: "\<forall>e \<in> set load_edges. usable_edge e"
proof -
  have half: "i \<le> 100 \<Longrightarrow> ranged 0 (2 ^ 28) (fdiv (f64_of_nat i) (f64_lit 2))" for i
    using fine_quotient [of i 2] by simp
  show ?thesis
    unfolding load_edges_def
    by (simp only: set_append ball_Un set_concat set_map ball_simps ball_UN set_upt)
       (intro conjI ballI fine_costs half; simp)
qed

lemma load_links:
  "edge_among load_edges a b \<longleftrightarrow> a = ''start'' \<and> b \<in> set SEARCH_NODES
     \<or> a \<in> set SEARCH_NODES \<and> b \<in> set SUMMARY_NODES \<or> a \<in> set SUMMARY_NODES \<and> b = ''done''"
proof -
  have ends: "(\<lambda>e. (edge_from e, edge_to e)) ` set load_edges =
      ({''start''} \<times> set SEARCH_NODES) \<union> (set SEARCH_NODES \<times> set SUMMARY_NODES) \<union> (set SUMMARY_NODES \<times> {''done''})"
    unfolding load_edges_def set_by_index [of SEARCH_NODES] set_by_index [of SUMMARY_NODES]
    by (simp only: set_append set_concat set_map image_Un image_image image_UN set_upt costed_ends) auto
  show ?thesis by (auto simp: edge_among_usable [OF load_edges_usable] ends)
qed

lemma load_edges_few: "length load_edges = 24"
  by (simp add: load_edges_def upt_rec)

interpretation load: layered_network "''load''" SEARCH_NODES SUMMARY_NODES load_edges
proof
  show "\<forall>e \<in> set load_edges. wf_edge e" using load_edges_usable by (simp add: usable_edge_def)
  show "2 * length load_edges < 2 ^ 32 - 1" by (simp add: load_edges_few)
qed (rule load_links, simp add: SEARCH_NODES_def SUMMARY_NODES_def)

section \<open>No more than three tools are ever open\<close>

lemma op_done_fields [simp]:
  "ls_router (op_done w lat st) = ls_router st" "ls_metrics (op_done w lat st) = ls_metrics st"
  "ls_injector (op_done w lat st) = ls_injector st" "length (ls_workers (op_done w lat st)) = length (ls_workers st)"
  "w < length (ls_workers st) \<Longrightarrow> ls_workers (op_done w lat st) ! v = (if v = w then \<lparr>lw_iteration = lw_iteration (ls_workers st ! w) + 1,
     lw_phase = Ready, lw_latencies = lw_latencies (ls_workers st ! w) @ [lat]\<rparr> else ls_workers st ! v)"
  by (simp_all add: op_done_def Let_def)

lemma set_phase_fields [simp]:
  "ls_router (set_phase w p st) = ls_router st" "ls_metrics (set_phase w p st) = ls_metrics st"
  "ls_injector (set_phase w p st) = ls_injector st" "length (ls_workers (set_phase w p st)) = length (ls_workers st)"
  "w < length (ls_workers st) \<Longrightarrow> ls_workers (set_phase w p st) ! v
     = (if v = w then (ls_workers st ! w)\<lparr>lw_phase := p\<rparr> else ls_workers st ! v)"
  by (simp_all add: set_phase_def)

text \<open>The part of a state on which the decisions depend.\<close>

definition load_safe :: "load_state \<Rightarrow> bool" where
  "load_safe st \<longleftrightarrow> drilled ''load'' load_edges ALL_TOOL_NODES (li_ops (ls_injector st)) (ls_router st)
     \<and> (\<forall>w < length (ls_workers st). lw_phase (ls_workers st ! w) = Ready
          \<or> lw_phase (ls_workers st ! w) = Missed \<and> worker_op w (lw_iteration (ls_workers st ! w)) = RouteOp)"

lemma load_safe_open:
  assumes "load_safe st"
  shows "configured ''load'' load_edges (ls_router st)" "load.both_layers_up (ls_router st)"
  using assms load.drilled_up [of "li_ops (ls_injector st)" "ls_router st"]
  by (auto simp: load_safe_def dest: drilled_configured)

text \<open>What a step of a worker does then: it never comes to an escalation.\<close>

abbreviation same_nodes :: "load_state \<Rightarrow> router \<Rightarrow> bool" where
  "same_nodes st r \<equiv> configured ''load'' load_edges r
     \<and> open_nodes ''load'' r \<subseteq> open_nodes ''load'' (ls_router st)"

lemma worker_step_cases:
  assumes "load_safe st" "w < length (ls_workers st)" "worker_step w now lat st = Some st'"
  obtains (reported) r node l where "worker_op w (lw_iteration (ls_workers st ! w)) = ReportOp node l"
      "lw_phase (ls_workers st ! w) = Ready" "st' = op_done w lat (st\<lparr>ls_router := r\<rparr>)" "same_nodes st r"
  | (missed) r where "worker_op w (lw_iteration (ls_workers st ! w)) = RouteOp"
      "lw_phase (ls_workers st ! w) = Ready" "st' = set_phase w Missed (st\<lparr>ls_router := r\<rparr>)" "same_nodes st r"
  | (routed) r where "worker_op w (lw_iteration (ls_workers st ! w)) = RouteOp"
      "st' = op_done w lat (st\<lparr>ls_router := r, ls_metrics := (ls_metrics st)\<lparr>route_successes := route_successes (ls_metrics st) + 1\<rparr>\<rparr>)"
      "same_nodes st r"
proof -
  let ?k = "ls_workers st ! w" and ?r = "ls_router st"
  note safe = load_safe_open [OF assms(1)]
  have ph: "lw_phase ?k = Ready \<or> lw_phase ?k = Missed \<and> worker_op w (lw_iteration ?k) = RouteOp"
    using assms(1,2) by (simp add: load_safe_def)
  have slow: "\<exists>rt. fst (route_slow ''load'' ''start'' ''done'' ?r) = Routed rt"
    by (rule load.slow_routed [OF safe(1,2)]) blast
  have fast: "\<exists>rt. d = Routed rt" if "fst (route_fast ''load'' ''start'' ''done'' ?r) = Some d" for d
    by (rule load.fast_routed [OF safe(1) that]) blast
  have fast_same: "same_nodes st (snd (route_fast ''load'' ''start'' ''done'' ?r))"
    using safe(1) by (simp add: configured_fast open_after_route)
  have slow_same: "same_nodes st (snd (route_slow ''load'' ''start'' ''done'' ?r))"
    using safe(1) by (simp add: configured_slow open_after_route)
  have report_same: "same_nodes st (record_result now ''load'' node True l ?r)" for node l
    using safe(1) by (simp add: configured_result open_after_result)
  show thesis
  proof (cases "lw_phase ?k = Ready")
    case True
    show thesis
    proof (cases "worker_op w (lw_iteration ?k)")
      case RouteOp
      obtain d r' where f: "route_fast ''load'' ''start'' ''done'' ?r = (d, r')" by (metis surj_pair)
      show thesis
      proof (cases d)
        case None
        then show thesis using missed [OF RouteOp True, of r'] assms(3) True RouteOp f fast_same
          by (simp add: worker_step_def Let_def split: if_splits)
      next
        case (Some d')
        then obtain rt where "d' = Routed rt" using fast f by auto
        then show thesis using routed [OF RouteOp, of r'] assms(3) True RouteOp f fast_same Some
          by (simp add: worker_step_def decided_def Let_def split: if_splits)
      qed
    next
      case (ReportOp node l)
      then show thesis using reported [OF ReportOp True, of "record_result now ''load'' node True l ?r"] assms(3) True report_same
        by (simp add: worker_step_def Let_def split: if_splits)
    qed
  next
    case False
    then have m: "lw_phase ?k = Missed" "worker_op w (lw_iteration ?k) = RouteOp" using ph by simp_all
    obtain rt r' where s: "route_slow ''load'' ''start'' ''done'' ?r = (Routed rt, r')" using slow by (metis prod.collapse)
    show thesis using routed [OF m(2), of r'] assms(3) m s slow_same
      by (simp add: worker_step_def decided_def Let_def split: if_splits)
  qed
qed

lemma load_safe_worker:
  assumes "load_safe st" "w < length (ls_workers st)" "worker_step w now lat st = Some st'"
  shows "load_safe st'"
  using assms(1,2)
  by (cases rule: worker_step_cases [OF assms]) (auto simp: load_safe_def dest: drilled_mono)

text \<open>A step of the injector: a new cycle, one action of the present one, or the end.\<close>

lemma injector_step_cases:
  assumes "injector_step now st = Some st'"
  obtains (act) op ops where "li_ops (ls_injector st) = op # ops"
      "st' = st\<lparr>ls_router := inject ''load'' 750 100 now op (ls_router st), ls_metrics := count_injection op (ls_metrics st),
         ls_injector := (ls_injector st)\<lparr>li_ops := ops\<rparr>\<rparr>"
  | (cycle) c where "li_ops (ls_injector st) = []" "c = li_cycle (ls_injector st)" "c < FAILURE_CYCLES"
      "st' = st\<lparr>ls_injector := \<lparr>li_cycle = c + 1, li_ops = cycle_ops (cycle_nodes 3 ALL_TOOL_NODES c)\<rparr>\<rparr>"
  | (complete) "li_ops (ls_injector st) = []" "FAILURE_CYCLES \<le> li_cycle (ls_injector st)"
      "\<not> failure_task_completed (ls_metrics st)"
      "st' = st\<lparr>ls_metrics := (ls_metrics st)\<lparr>failure_task_completed := True\<rparr>\<rparr>"
  using assms by (auto simp: injector_step_def Let_def split: list.splits if_splits)

lemma load_safe_injector:
  assumes "load_safe st" "injector_step now st = Some st'"
  shows "load_safe st'"
  using assms(2)
proof (cases rule: injector_step_cases)
  case (act op ops)
  then show ?thesis using assms(1) by (simp add: load_safe_def drilled_act)
next
  case (cycle c)
  have "ALL_TOOL_NODES \<noteq> []" by (simp add: SEARCH_NODES_def)
  then show ?thesis using assms(1) cycle by (simp add: load_safe_def drilled_cycle del: load_tools)
next
  case complete
  then show ?thesis using assms(1) by (simp add: load_safe_def)
qed

lemma load_safe_start: "load_safe (load_start n)"
  using drilled_start [OF load.edges_wf load.few_edges, of "''load''" ALL_TOOL_NODES]
  by (simp add: load_safe_def load_start_def load_build_router_def)

lemma load_reachable_safe: "load_reachable n st \<Longrightarrow> load_safe st"
  by (induction rule: load_reachable.induct)
    (auto simp: load_safe_start elim!: load_step.cases intro: load_safe_worker load_safe_injector)

section \<open>The counters\<close>

definition routes_before :: "nat \<Rightarrow> nat \<Rightarrow> nat" where
  "routes_before w i = card {j. j < i \<and> worker_op w j = RouteOp}"

definition no_escalations :: "load_metrics \<Rightarrow> bool" where
  "no_escalations m \<longleftrightarrow> route_escalations m = 0 \<and> escalations_all_paths_blocked m = 0
     \<and> escalations_with_penalty_path_available m = 0 \<and> escalations_unknown_state m = 0
     \<and> escalation_snapshots_search_open_total m = 0 \<and> escalation_snapshots_summarize_open_total m = 0
     \<and> escalation_snapshots_penalty_node_usable m = 0 \<and> lm_route_errors m = 0"

definition load_counts :: "nat \<Rightarrow> load_state \<Rightarrow> bool" where
  "load_counts n st \<longleftrightarrow> length (ls_workers st) = n
     \<and> (\<forall>w < n. let k = ls_workers st ! w in lw_iteration k \<le> OPS_PER_TASK \<and> length (lw_latencies k) = lw_iteration k)
     \<and> li_cycle (ls_injector st) \<le> FAILURE_CYCLES
     \<and> (let m = ls_metrics st; ops = li_ops (ls_injector st); total = injections (li_cycle (ls_injector st))
        in no_escalations m \<and> route_successes m = of_nat (\<Sum>w < n. routes_before w (lw_iteration (ls_workers st ! w)))
         \<and> lm_failure_transitions m + of_nat (count_list ops CountFailure) = of_nat total
         \<and> lm_recovery_transitions m + of_nat (count_list ops CountRecovery) = of_nat total)"

lemma routes_before_Suc: "routes_before w (Suc i) = routes_before w i + (if worker_op w i = RouteOp then 1 else 0)"
proof -
  have "{j. j < Suc i \<and> worker_op w j = RouteOp}
      = (if worker_op w i = RouteOp then insert i {j. j < i \<and> worker_op w j = RouteOp} else {j. j < i \<and> worker_op w j = RouteOp})"
    by (auto simp: less_Suc_eq)
  then show ?thesis by (simp add: routes_before_def)
qed

lemma load_counts_start: "load_counts n (load_start n)"
  by (simp add: load_counts_def no_escalations_def load_start_def default_load_metrics_def routes_before_def injections_def Let_def)

lemma load_counts_worker:
  assumes "load_safe st" "load_counts n st" "w < length (ls_workers st)" "worker_step w now lat st = Some st'"
  shows "load_counts n st'"
proof -
  have w: "w < n" and busy: "lw_iteration (ls_workers st ! w) < OPS_PER_TASK"
    using assms(2,3,4) by (auto simp: load_counts_def worker_step_def Let_def split: if_splits)
  have split: "(\<Sum>v < n. routes_before v (f v)) = routes_before w (f w) + (\<Sum>v \<in> {..<n} - {w}. routes_before v (f v))" for f
    using w by (simp add: sum.remove)
  have step: "(\<Sum>v < n. routes_before v (if v = w then Suc (f w) else f v))
      = (\<Sum>v < n. routes_before v (f v)) + (if worker_op w (f w) = RouteOp then 1 else 0)" for f
    using split [of f] split [of "\<lambda>v. if v = w then Suc (f w) else f v"] by (simp add: routes_before_Suc)
  have keep: "(if v = w then lw_iteration (ls_workers st ! w) else lw_iteration (ls_workers st ! v)) = lw_iteration (ls_workers st ! v)" for v
    by simp
  show ?thesis
    using assms(2,3) busy step [of "\<lambda>v. lw_iteration (ls_workers st ! v)"]
    by (cases rule: worker_step_cases [OF assms(1,3,4)])
      (auto simp: load_counts_def no_escalations_def Let_def if_distrib [of lw_iteration] keep cong: if_cong)
qed

lemma load_counts_injector:
  assumes "load_counts n st" "injector_step now st = Some st'"
  shows "load_counts n st'"
using assms(2) proof (cases rule: injector_step_cases)
  case (act op ops)
  then show ?thesis using assms(1)
    by (cases op) (auto simp: load_counts_def no_escalations_def count_injection_def Let_def algebra_simps)
next
  case (cycle c)
  then show ?thesis using assms(1)
    by (auto simp: load_counts_def Let_def cycle_counts cycle_length injections_def)
next
  case complete
  then show ?thesis using assms(1) by (auto simp: load_counts_def no_escalations_def Let_def)
qed

lemma load_reachable_counts: "load_reachable n st \<Longrightarrow> load_counts n st"
  by (induction rule: load_reachable.induct)
    (auto simp: load_counts_start elim!: load_step.cases dest: load_reachable_safe
      intro: load_counts_worker load_counts_injector)

section \<open>The test ends\<close>

text \<open>Two steps for each operation that is left, less one when its cache lookup is done, and the steps of the injector.\<close>

definition worker_left :: "load_worker \<Rightarrow> nat" where
  "worker_left k = 2 * (OPS_PER_TASK - lw_iteration k) - (if lw_phase k = Ready then 0 else 1)"

definition injector_left :: "load_injector \<Rightarrow> nat" where
  "injector_left i = length (li_ops i) + (\<Sum>c \<in> {li_cycle i..<FAILURE_CYCLES}. 1 + length (cycle_ops (cycle_nodes 3 ALL_TOOL_NODES c)))"

definition load_work_left :: "load_state \<Rightarrow> nat" where
  "load_work_left st = (\<Sum>w < length (ls_workers st). worker_left (ls_workers st ! w)) + injector_left (ls_injector st)
     + (if failure_task_completed (ls_metrics st) then 0 else 1)"

lemma sum_less_at: "w < n \<Longrightarrow> g w < f w \<Longrightarrow> \<forall>v. v \<noteq> w \<longrightarrow> g v = f v \<Longrightarrow> (\<Sum>v < n. g v) < (\<Sum>v < (n :: nat). f v :: nat)"
  by (rule sum_strict_mono_ex1) (auto, metis less_imp_le order_refl)

lemma worker_work_decreases:
  assumes "load_safe st" "w < length (ls_workers st)" "worker_step w now lat st = Some st'"
  shows "load_work_left st' < load_work_left st"
proof -
  have busy: "lw_iteration (ls_workers st ! w) < OPS_PER_TASK"
    using assms(3) by (auto simp: worker_step_def Let_def split: if_splits)
  have eff: "length (ls_workers st') = length (ls_workers st)" "ls_injector st' = ls_injector st"
    "failure_task_completed (ls_metrics st') = failure_task_completed (ls_metrics st)"
    "worker_left (ls_workers st' ! w) < worker_left (ls_workers st ! w)"
    "\<forall>v. v \<noteq> w \<longrightarrow> worker_left (ls_workers st' ! v) = worker_left (ls_workers st ! v)"
    using assms(2) busy by (cases rule: worker_step_cases [OF assms]; auto simp: worker_left_def)+
  show ?thesis using sum_less_at [OF assms(2) eff(4,5)] by (simp add: load_work_left_def eff(1-3))
qed

lemma injector_work_decreases:
  assumes "injector_step now st = Some st'"
  shows "load_work_left st' < load_work_left st"
  using assms
proof (cases rule: injector_step_cases)
  case (act op ops)
  then show ?thesis by (cases op) (simp_all add: load_work_left_def injector_left_def count_injection_def)
next
  case (cycle c)
  then show ?thesis by (simp add: load_work_left_def injector_left_def sum.atLeast_Suc_lessThan)
next
  case complete
  then show ?thesis by (simp add: load_work_left_def)
qed

lemma load_work_decreases: "load_reachable n st \<Longrightarrow> load_step st st' \<Longrightarrow> load_work_left st' < load_work_left st"
  by (auto elim!: load_step.cases dest: load_reachable_safe intro: worker_work_decreases injector_work_decreases)

lemma load_can_step:
  assumes "\<not> load_finished st"
  shows "\<exists>st'. load_step st st'"
proof (cases "\<exists>w < length (ls_workers st). lw_iteration (ls_workers st ! w) < OPS_PER_TASK")
  case True
  then obtain w where w: "w < length (ls_workers st)" "lw_iteration (ls_workers st ! w) < OPS_PER_TASK" by blast
  then have "\<exists>st'. worker_step w 0 0 st = Some st'"
    by (auto simp: worker_step_def Let_def split: worker_phase.split load_op.split prod.split option.split)
  then show ?thesis using w load_step.worker by blast
next
  case False
  then have "\<forall>k \<in> set (ls_workers st). OPS_PER_TASK \<le> lw_iteration k" by (metis in_set_conv_nth not_le)
  then have "\<exists>st'. injector_step 0 st = Some st'"
    using assms by (auto simp: load_finished_def injector_step_def Let_def split: list.split)
  then show ?thesis using load_step.injector by blast
qed

lemma load_reaches_end:
  "load_reachable n st \<Longrightarrow> \<exists>st'. load_step\<^sup>*\<^sup>* st st' \<and> load_reachable n st' \<and> load_finished st'"
proof (induction "load_work_left st" arbitrary: st rule: less_induct)
  case less
  show ?case
  proof (cases "load_finished st")
    case False
    then obtain s where s: "load_step st s" using load_can_step by blast
    have "load_reachable n s" using load_reachable.step [OF less.prems s] .
    from less.hyps [OF load_work_decreases [OF less.prems s] this] s show ?thesis
      by (meson converse_rtranclp_into_rtranclp)
  qed (use less.prems in blast)
qed

section \<open>What the program reports\<close>

lemma route_op_iff: "worker_op w i = RouteOp \<longleftrightarrow> (w + i) mod 3 = 0"
  by (simp add: worker_op_def)

lemma routes_of_worker: "routes_before w OPS_PER_TASK = (if w mod 3 = 1 then 66 else 67)"
proof -
  let ?c = "(2 * w) mod 3"
  have "{j. j < 200 \<and> worker_op w j = RouteOp} = (\<lambda>i. 3 * i + ?c) ` {i. 3 * i + ?c < 200}"
    unfolding route_op_iff
  proof (intro equalityI subsetI)
    fix j assume "j \<in> {j. j < 200 \<and> (w + j) mod 3 = 0}"
    then have "j = 3 * (j div 3) + ?c" "3 * (j div 3) + ?c < 200" by (simp_all, presburger+)
    then show "j \<in> (\<lambda>i. 3 * i + ?c) ` {i. 3 * i + ?c < 200}" by blast
  qed (auto, presburger)
  moreover have "{i. 3 * i + ?c < 200} = {..<if w mod 3 = 1 then 66 else 67}" by (auto split: if_splits) presburger+
  moreover have "inj (\<lambda>i :: nat. 3 * i + ?c)" by (rule injI) simp
  ultimately show ?thesis by (simp add: routes_before_def OPS_PER_TASK_def card_image inj_on_def)
qed

lemma injections_total: "injections FAILURE_CYCLES = 30"
  by (simp add: injections_def FAILURE_CYCLES_def lessThan_nat_numeral)

text \<open>
  C20: whatever the interleaving, no request of the load test escalates: at most three tools are open
  at a time, each layer keeps a usable one, and all counters of escalations and of their
  classification stay at zero.
\<close>

theorem load_test_never_escalates:
  assumes "load_reachable n st"
  shows "no_escalations (ls_metrics st) \<and> card (open_nodes ''load'' (ls_router st)) \<le> 3
    \<and> (\<forall>k \<in> set (ls_workers st). \<forall>states. lw_phase k \<noteq> Sampling states)"
proof (intro conjI)
  have safe: "load_safe st" and counts: "load_counts n st"
    using assms by (rule load_reachable_safe, rule load_reachable_counts)
  show "no_escalations (ls_metrics st)" using counts by (simp add: load_counts_def Let_def)
  show "card (open_nodes ''load'' (ls_router st)) \<le> 3" using safe by (auto simp: load_safe_def dest: drilled_open)
  show "\<forall>k \<in> set (ls_workers st). \<forall>states. lw_phase k \<noteq> Sampling states"
    using safe by (fastforce simp: load_safe_def in_set_conv_nth)
qed

lemma load_test_never_escalates_witness:
  "\<exists>st. load_finished st \<and> no_escalations (ls_metrics st) \<and> card (open_nodes ''load'' (ls_router st)) \<le> 3"
  using load_reaches_end [OF load_reachable.start [of DEFAULT_TASKS]] load_test_never_escalates by metis

text \<open>
  C29: the load test always ends: every step of a reachable state lowers the work that is left, and
  the state in which all tasks have returned can be reached from it.
\<close>

theorem load_test_ends:
  assumes "load_reachable n st"
  shows "(\<forall>st'. load_step st st' \<longrightarrow> load_work_left st' < load_work_left st)
    \<and> (\<exists>st'. load_step\<^sup>*\<^sup>* st st' \<and> load_finished st')"
  using load_work_decreases [OF assms] load_reaches_end [OF assms] by blast+

lemma load_test_ends_witness: "\<exists>st'. load_step\<^sup>*\<^sup>* (load_start DEFAULT_TASKS) st' \<and> load_finished st'"
  using load_test_ends [OF load_reachable.start [of DEFAULT_TASKS]] by blast

text \<open>
  C28: when the tasks have returned, the report counts every operation once: 200 for each worker, of
  which 66 or 67 are routes and all of them succeeded, 30 failures and 30 recoveries, no node is
  left open, and \<open>correctness_degraded\<close> tells no more than whether a task panicked, since nothing
  increments \<open>route_errors\<close>.
\<close>

theorem load_test_accounts:
  assumes "load_reachable n st" "load_finished st" "n \<le> 2 ^ 32"
  shows "\<exists>rep. load_report_of panics st = Some rep \<and> lr_total_ops rep = n * 200
    \<and> route_successes (lr_metrics rep) = of_nat (\<Sum>w < n. if w mod 3 = 1 then 66 else 67)
    \<and> lm_failure_transitions (lr_metrics rep) = 30 \<and> lm_recovery_transitions (lr_metrics rep) = 30
    \<and> open_nodes ''load'' (ls_router st) = {} \<and> lr_p50 rep \<le> lr_p95 rep \<and> lr_p95 rep \<le> lr_p99 rep
    \<and> (correctness_degraded rep \<longleftrightarrow> panics > 0)"
proof -
  note safe = load_reachable_safe [OF assms(1)] and counts = load_reachable_counts [OF assms(1)]
  have ws: "length (ls_workers st) = n" using counts by (simp add: load_counts_def)
  have each: "lw_iteration (ls_workers st ! w) = OPS_PER_TASK \<and> length (lw_latencies (ls_workers st ! w)) = OPS_PER_TASK"
    if "w < n" for w
    using counts assms(2) that ws by (auto simp: load_counts_def load_finished_def Let_def intro!: le_antisym)
  have lens: "\<forall>k \<in> set (ls_workers st). length (lw_latencies k) = OPS_PER_TASK" using each ws by (metis in_set_conv_nth)
  have cyc: "li_cycle (ls_injector st) = FAILURE_CYCLES" "li_ops (ls_injector st) = []"
    using counts assms(2) by (auto simp: load_counts_def load_finished_def)
  let ?l = "concat (map lw_latencies (ls_workers st))" and ?m = "ls_metrics st"
  have total: "length ?l = n * 200"
    using ws lens by (simp add: length_concat comp_def OPS_PER_TASK_def sum_list_const_mult cong: map_cong)
       (simp add: sum_list_triv)
  have m: "route_successes ?m = of_nat (\<Sum>w < n. if w mod 3 = 1 then 66 else 67)"
    "lm_failure_transitions ?m = 30" "lm_recovery_transitions ?m = 30" "lm_route_errors ?m = 0"
    using counts each cyc by (auto simp: load_counts_def Let_def no_escalations_def injections_total routes_of_worker)
  have none: "open_nodes ''load'' (ls_router st) = {}" using safe cyc by (auto simp: load_safe_def dest: drilled_idle)
  have "length ?l \<le> 2 ^ 40" using total assms(3) by simp
  then obtain l where l: "percentiles ?l = Some l" "p50 l \<le> p95 l" "p95 l \<le> p99 l" by (rule percentiles_bounds)
  then show ?thesis
    using m none total
    by (auto simp: load_report_of_def percentiles_def from_sorted_def duration_percentile_us Let_def split: option.splits)
qed

lemma load_test_accounts_witness:
  "\<exists>st rep. load_finished st \<and> load_report_of 0 st = Some rep \<and> lr_total_ops rep = 20000
    \<and> route_successes (lr_metrics rep) = 6667 \<and> \<not> correctness_degraded rep"
proof -
  obtain st where st: "load_reachable 100 st" "load_finished st"
    using load_reaches_end [OF load_reachable.start] by blast
  have "(\<Sum>w < (100 :: nat). if w mod 3 = 1 then 66 else 67 :: nat) = 6667" by (simp add: lessThan_nat_numeral)
  then show ?thesis using load_test_accounts [OF st, of 0] st(2) by fastforce
qed

end
