(* ===== verification/SoakTest.thy ===== *)
theory SoakTest
  imports Drills SidecarConfig
begin

text \<open>
  The soak test (\<open>trust-router-soaktest.rs\<close>): agents that route and report the tools of the route as
  successful until a stop flag is set, while an injector opens and heals tools.  As in the load
  test, a step is what happens between two lock acquisitions.
\<close>

section \<open>The program\<close>

definition DEFAULT_SECONDS :: u64 where "DEFAULT_SECONDS = 30"
definition DEFAULT_AGENTS :: nat where "DEFAULT_AGENTS = 200"

text \<open>The two arguments of the command line: seconds and agents.\<close>

definition soak_arguments :: "string option \<Rightarrow> string option \<Rightarrow> u64 \<times> nat" where
  "soak_arguments first second =
     (case Option.bind first parse_u64 of None \<Rightarrow> DEFAULT_SECONDS | Some n \<Rightarrow> n,
      case Option.bind second (parse_unsigned (2 ^ 64)) of None \<Rightarrow> DEFAULT_AGENTS | Some n \<Rightarrow> n)"

definition SOAK_SEARCH_NODES :: "node_id list" where
  "SOAK_SEARCH_NODES = [''search_a'', ''search_b'', ''search_c'', ''search_d'', ''search_e'', ''search_f'']"

definition SOAK_SUMMARY_NODES :: "node_id list" where
  "SOAK_SUMMARY_NODES =
     [''summarize_a'', ''summarize_b'', ''summarize_c'', ''summarize_d'', ''summarize_e'', ''summarize_f'']"

definition SOAK_TOOL_NODES :: "node_id list" where
  "SOAK_TOOL_NODES =
     [''search_a'', ''search_b'', ''search_c'', ''search_d'', ''search_e'', ''search_f'',
      ''summarize_a'', ''summarize_b'', ''summarize_c'', ''summarize_d'', ''summarize_e'', ''summarize_f'']"

definition soak_edges :: "edge list" where
  "soak_edges =
     map (\<lambda>i. edge_with_costs (fadd (f64_lit 1) (f64_of_nat i)) (fmul (f64_lit (1/1000)) (f64_of_nat (i + 1)))
         (100 + of_nat i * 20) (fadd (f64_lit (1/10)) (fmul (f64_of_nat i) (f64_lit (3/100))))
         (edge_new ''start'' (SOAK_SEARCH_NODES ! i))) [0..<length SOAK_SEARCH_NODES]
   @ concat (map (\<lambda>i. map (\<lambda>j. edge_with_costs (fadd (f64_lit 1) (fdiv (f64_of_nat (i + j)) (f64_lit 3)))
         (fmul (f64_lit (1/1000)) (f64_of_nat (j + 1))) (160 + of_nat j * 20)
         (fadd (f64_lit (1/10)) (fmul (f64_of_nat j) (f64_lit (3/100))))
         (edge_new (SOAK_SEARCH_NODES ! i) (SOAK_SUMMARY_NODES ! j))) [0..<length SOAK_SUMMARY_NODES])
       [0..<length SOAK_SEARCH_NODES])
   @ map (\<lambda>j. edge_with_costs (fadd (f64_lit 1) (fdiv (f64_of_nat j) (f64_lit 3))) (f64_lit (1/1000))
         (90 + of_nat j * 20) (f64_lit (1/10)) (edge_new (SOAK_SUMMARY_NODES ! j) ''done'')) [0..<length SOAK_SUMMARY_NODES]"

definition soak_build_router :: router where
  "soak_build_router = built_router ''soak'' soak_edges"

record soak_metrics =
  sm_routes :: usize
  sm_escalations :: usize
  sm_result_updates :: usize
  sm_failure_transitions :: usize
  sm_recovery_transitions :: usize
  sm_latencies :: "duration list"

definition default_soak_metrics :: soak_metrics where
  "default_soak_metrics = \<lparr>sm_routes = 0, sm_escalations = 0, sm_result_updates = 0,
     sm_failure_transitions = 0, sm_recovery_transitions = 0, sm_latencies = []\<rparr>"

subsection \<open>Agents\<close>

text \<open>
  An agent reads the stop flag, looks the route up, searches it under the write lock after a miss,
  and then reports one interior node of the route after the other; with none left it pushes its
  latency and starts again.
\<close>

datatype agent_phase = Checking | Looking | Searching | Reporting "node_id list" | Returned

record soak_agent =
  sa_iteration :: usize
  sa_phase :: agent_phase

record soak_injector =
  si_cycle :: nat
  si_ops :: "inject_op list"
  si_returned :: bool

record soak_state =
  ss_router :: router
  ss_metrics :: soak_metrics
  ss_stop :: bool
  ss_agents :: "soak_agent list"
  ss_injector :: soak_injector

definition agent_phase_to :: "nat \<Rightarrow> agent_phase \<Rightarrow> soak_state \<Rightarrow> soak_state" where
  "agent_phase_to a p st = st\<lparr>ss_agents := (ss_agents st)[a := (ss_agents st ! a)\<lparr>sa_phase := p\<rparr>]\<rparr>"

definition interior :: "node_id list \<Rightarrow> node_id list" where
  "interior ns = take (length ns - 2) (drop 1 ns)"

definition agent_decided :: "nat \<Rightarrow> route_decision \<Rightarrow> soak_state \<Rightarrow> soak_state" where
  "agent_decided a d st =
     (let m = ss_metrics st
      in case d of
           Routed rt \<Rightarrow> agent_phase_to a (Reporting (interior (nodes rt))) (st\<lparr>ss_metrics := m\<lparr>sm_routes := sm_routes m + 1\<rparr>\<rparr>)
         | Escalate _ \<Rightarrow> agent_phase_to a (Reporting []) (st\<lparr>ss_metrics := m\<lparr>sm_escalations := sm_escalations m + 1\<rparr>\<rparr>))"

text \<open>The end of an iteration, which took \<open>lat\<close>.\<close>

definition latency_pushed :: "nat \<Rightarrow> duration \<Rightarrow> soak_state \<Rightarrow> soak_state" where
  "latency_pushed a lat st =
     (let m = ss_metrics st
      in st\<lparr>ss_metrics := m\<lparr>sm_latencies := sm_latencies m @ [lat]\<rparr>,
            ss_agents := (ss_agents st)[a := \<lparr>sa_iteration = sa_iteration (ss_agents st ! a) + 1, sa_phase = Checking\<rparr>]\<rparr>)"

text \<open>The latency an agent reports for a node.\<close>

definition agent_latency :: "nat \<Rightarrow> usize \<Rightarrow> u64" where
  "agent_latency a iteration = 80 + (of_nat a + iteration) mod 120"

definition agent_step :: "nat \<Rightarrow> instant \<Rightarrow> duration \<Rightarrow> soak_state \<Rightarrow> soak_state option" where
  "agent_step a now lat st =
     (let k = ss_agents st ! a; r = ss_router st; m = ss_metrics st
      in case sa_phase k of
           Checking \<Rightarrow> Some (agent_phase_to a (if ss_stop st then Returned else Looking) st)
         | Looking \<Rightarrow>
             (case route_fast ''soak'' ''start'' ''done'' r of
                (Some d, r') \<Rightarrow> Some (agent_decided a d (st\<lparr>ss_router := r'\<rparr>))
              | (None, r') \<Rightarrow> Some (agent_phase_to a Searching (st\<lparr>ss_router := r'\<rparr>)))
         | Searching \<Rightarrow>
             (case route_slow ''soak'' ''start'' ''done'' r of (d, r') \<Rightarrow> Some (agent_decided a d (st\<lparr>ss_router := r'\<rparr>)))
         | Reporting (node # ns) \<Rightarrow>
             Some (agent_phase_to a (Reporting ns)
               (st\<lparr>ss_router := record_result now ''soak'' node True (agent_latency a (sa_iteration k)) r,
                   ss_metrics := m\<lparr>sm_result_updates := sm_result_updates m + 1\<rparr>\<rparr>))
         | Reporting [] \<Rightarrow>
             Some (latency_pushed a lat st)
         | Returned \<Rightarrow> None)"

subsection \<open>The failure injector, the deadline\<close>

definition soak_count :: "inject_op \<Rightarrow> soak_metrics \<Rightarrow> soak_metrics" where
  "soak_count op m =
     (case op of
        CountFailure \<Rightarrow> m\<lparr>sm_failure_transitions := sm_failure_transitions m + 1\<rparr>
      | CountRecovery \<Rightarrow> m\<lparr>sm_recovery_transitions := sm_recovery_transitions m + 1\<rparr>
      | _ \<Rightarrow> m)"

definition soak_injector_step :: "instant \<Rightarrow> soak_state \<Rightarrow> soak_state option" where
  "soak_injector_step now st =
     (let i = ss_injector st
      in if si_returned i then None
         else case si_ops i of
           op # ops \<Rightarrow>
             Some (st\<lparr>ss_router := inject ''soak'' 30000 90 now op (ss_router st),
                      ss_metrics := soak_count op (ss_metrics st), ss_injector := i\<lparr>si_ops := ops\<rparr>\<rparr>)
         | [] \<Rightarrow>
             if ss_stop st then Some (st\<lparr>ss_injector := i\<lparr>si_returned := True\<rparr>\<rparr>)
             else Some (st\<lparr>ss_injector := i\<lparr>si_cycle := si_cycle i + 1,
                    si_ops := cycle_ops (cycle_nodes 5 SOAK_TOOL_NODES (si_cycle i))\<rparr>\<rparr>))"

definition soak_start :: "nat \<Rightarrow> soak_state" where
  "soak_start agents = \<lparr>ss_router = soak_build_router, ss_metrics = default_soak_metrics, ss_stop = False,
     ss_agents = replicate agents \<lparr>sa_iteration = 0, sa_phase = Checking\<rparr>,
     ss_injector = \<lparr>si_cycle = 0, si_ops = [], si_returned = False\<rparr>\<rparr>"

inductive soak_step :: "soak_state \<Rightarrow> soak_state \<Rightarrow> bool" where
  agent: "a < length (ss_agents st) \<Longrightarrow> agent_step a now lat st = Some st' \<Longrightarrow> soak_step st st'"
| injector: "soak_injector_step now st = Some st' \<Longrightarrow> soak_step st st'"
| deadline: "soak_step st (st\<lparr>ss_stop := True\<rparr>)"

inductive soak_reachable :: "nat \<Rightarrow> soak_state \<Rightarrow> bool" for n where
  start: "soak_reachable n (soak_start n)"
| step: "soak_reachable n st \<Longrightarrow> soak_step st st' \<Longrightarrow> soak_reachable n st'"

definition soak_finished :: "soak_state \<Rightarrow> bool" where
  "soak_finished st \<longleftrightarrow> (\<forall>k \<in> set (ss_agents st). sa_phase k = Returned) \<and> si_returned (ss_injector st)"

subsection \<open>The report\<close>

record soak_report =
  sr_metrics :: soak_metrics
  sr_panics :: usize
  sr_p50 :: nat
  sr_p95 :: nat
  sr_p99 :: nat
  contention_observed :: bool

definition soak_report_of :: "usize \<Rightarrow> soak_state \<Rightarrow> soak_report option" where
  "soak_report_of panics st =
     (let latencies = sort (sm_latencies (ss_metrics st));
          p = (\<lambda>q. duration_percentile latencies (f64_lit q))
      in case (p 50, p 95, p 99) of
           (Some a, Some b, Some c) \<Rightarrow>
             Some \<lparr>sr_metrics = ss_metrics st, sr_panics = panics, sr_p50 = as_micros a, sr_p95 = as_micros b,
                sr_p99 = as_micros c, contention_observed = (c > millis 5)\<rparr>
         | _ \<Rightarrow> None)"

section \<open>The network of the soak test\<close>

lemma soak_tools [simp]: "SOAK_TOOL_NODES = SOAK_SEARCH_NODES @ SOAK_SUMMARY_NODES"
  "length SOAK_SEARCH_NODES = 6" "length SOAK_SUMMARY_NODES = 6"
  by (simp_all add: SOAK_TOOL_NODES_def SOAK_SEARCH_NODES_def SOAK_SUMMARY_NODES_def)

lemma soak_edges_usable: "\<forall>e \<in> set soak_edges. usable_edge e"
proof -
  have third: "i \<le> 100 \<Longrightarrow> ranged 0 (2 ^ 28) (fdiv (f64_of_nat i) (f64_lit 3))" for i
    using fine_quotient [of i 3] by simp
  show ?thesis
    unfolding soak_edges_def
    by (simp only: set_append ball_Un set_concat set_map ball_simps ball_UN set_upt)
       (intro conjI ballI fine_costs third; simp)
qed

lemma soak_links:
  "edge_among soak_edges a b \<longleftrightarrow> a = ''start'' \<and> b \<in> set SOAK_SEARCH_NODES
     \<or> a \<in> set SOAK_SEARCH_NODES \<and> b \<in> set SOAK_SUMMARY_NODES \<or> a \<in> set SOAK_SUMMARY_NODES \<and> b = ''done''"
proof -
  have ends: "(\<lambda>e. (edge_from e, edge_to e)) ` set soak_edges =
      ({''start''} \<times> set SOAK_SEARCH_NODES) \<union> (set SOAK_SEARCH_NODES \<times> set SOAK_SUMMARY_NODES) \<union> (set SOAK_SUMMARY_NODES \<times> {''done''})"
    unfolding soak_edges_def set_by_index [of SOAK_SEARCH_NODES] set_by_index [of SOAK_SUMMARY_NODES]
    by (simp only: set_append set_concat set_map image_Un image_image image_UN set_upt costed_ends) auto
  show ?thesis by (auto simp: edge_among_usable [OF soak_edges_usable] ends)
qed

lemma soak_edges_few: "length soak_edges = 48"
  by (simp add: soak_edges_def upt_rec)

interpretation soak: layered_network "''soak''" SOAK_SEARCH_NODES SOAK_SUMMARY_NODES soak_edges
proof
  show "\<forall>e \<in> set soak_edges. wf_edge e" using soak_edges_usable by (simp add: usable_edge_def)
  show "2 * length soak_edges < 2 ^ 32 - 1" by (simp add: soak_edges_few)
qed (rule soak_links, simp add: SOAK_SEARCH_NODES_def SOAK_SUMMARY_NODES_def)

section \<open>Every request is routed\<close>

definition soak_safe :: "soak_state \<Rightarrow> bool" where
  "soak_safe st \<longleftrightarrow> drilled ''soak'' soak_edges SOAK_TOOL_NODES (si_ops (ss_injector st)) (ss_router st)"

lemma soak_safe_open:
  assumes "soak_safe st"
  shows "configured ''soak'' soak_edges (ss_router st)" "soak.both_layers_up (ss_router st)"
  using assms soak.drilled_up [of "si_ops (ss_injector st)" "ss_router st"]
  by (auto simp: soak_safe_def dest: drilled_configured)

abbreviation same_tools :: "soak_state \<Rightarrow> router \<Rightarrow> bool" where
  "same_tools st r \<equiv> configured ''soak'' soak_edges r
     \<and> open_nodes ''soak'' r \<subseteq> open_nodes ''soak'' (ss_router st)"

lemma agent_step_cases:
  assumes "soak_safe st" "agent_step a now lat st = Some st'"
  obtains (checked) "sa_phase (ss_agents st ! a) = Checking"
      "st' = agent_phase_to a (if ss_stop st then Returned else Looking) st"
  | (missed) r where "sa_phase (ss_agents st ! a) = Looking" "same_tools st r"
      "st' = agent_phase_to a Searching (st\<lparr>ss_router := r\<rparr>)"
  | (routed) r s u where "sa_phase (ss_agents st ! a) \<in> {Looking, Searching}" "same_tools st r"
      "st' = agent_phase_to a (Reporting [s, u])
         (st\<lparr>ss_router := r, ss_metrics := (ss_metrics st)\<lparr>sm_routes := sm_routes (ss_metrics st) + 1\<rparr>\<rparr>)"
  | (reported) node ns r where "sa_phase (ss_agents st ! a) = Reporting (node # ns)" "same_tools st r"
      "st' = agent_phase_to a (Reporting ns) (st\<lparr>ss_router := r,
         ss_metrics := (ss_metrics st)\<lparr>sm_result_updates := sm_result_updates (ss_metrics st) + 1\<rparr>\<rparr>)"
  | (pushed) "sa_phase (ss_agents st ! a) = Reporting []" "st' = latency_pushed a lat st"
proof -
  let ?r = "ss_router st"
  note safe = soak_safe_open [OF assms(1)]
  have shape: "interior [''start'', s, u, ''done''] = [s, u]" for s u by (simp add: interior_def)
  show thesis
  proof (cases "sa_phase (ss_agents st ! a)")
    case Checking
    then show thesis using checked assms(2) by (simp add: agent_step_def Let_def)
  next
    case Looking
    obtain d r' where f: "route_fast ''soak'' ''start'' ''done'' ?r = (d, r')" by (metis surj_pair)
    then have same: "same_tools st r'"
      using configured_fast [OF safe(1), of "''start''" "''done''"] open_after_route(2) [of "''soak''" "''start''" "''done''" ?r] by simp
    show thesis
    proof (cases d)
      case None
      then show thesis using missed [of r'] assms(2) Looking f same by (simp add: agent_step_def)
    next
      case (Some d')
      obtain rt s u where "d' = Routed rt" "nodes rt = [''start'', s, u, ''done'']"
        by (rule soak.fast_routed [OF safe(1), of d']) (simp_all add: f Some)
      then show thesis using routed [of r' s u] assms(2) Looking f same Some
        by (simp add: agent_step_def agent_decided_def shape Let_def)
    qed
  next
    case Searching
    obtain rt s u r' where f: "route_slow ''soak'' ''start'' ''done'' ?r = (Routed rt, r')" "nodes rt = [''start'', s, u, ''done'']"
      by (rule soak.slow_routed [OF safe]) (metis prod.collapse)
    have "same_tools st r'"
      using configured_slow [OF safe(1), of "''start''" "''done''"] open_after_route(1) [OF safe(1), of "''start''" "''done''"] f by simp
    then show thesis using routed [of r' s u] assms(2) Searching f
      by (simp add: agent_step_def agent_decided_def shape Let_def)
  next
    case (Reporting ns)
    show thesis
    proof (cases ns)
      case Nil
      then show thesis using pushed assms(2) Reporting by (simp add: agent_step_def Let_def)
    next
      case (Cons node ns')
      let ?r' = "record_result now ''soak'' node True (agent_latency a (sa_iteration (ss_agents st ! a))) ?r"
      have "same_tools st ?r'" using safe(1) by (simp add: configured_result open_after_result)
      then show thesis using reported [of node ns' ?r'] assms(2) Reporting Cons by (simp add: agent_step_def Let_def)
    qed
  next
    case Returned
    then show thesis using assms(2) by (simp add: agent_step_def)
  qed
qed

lemma agent_phase_to_fields [simp]:
  "ss_router (agent_phase_to a p st) = ss_router st" "ss_metrics (agent_phase_to a p st) = ss_metrics st"
  "ss_injector (agent_phase_to a p st) = ss_injector st" "ss_stop (agent_phase_to a p st) = ss_stop st"
  "length (ss_agents (agent_phase_to a p st)) = length (ss_agents st)"
  "map sa_phase (ss_agents (agent_phase_to a p st)) = (map sa_phase (ss_agents st))[a := p]"
  by (simp_all add: agent_phase_to_def map_update)

lemma latency_pushed_fields [simp]:
  "ss_router (latency_pushed a lat st) = ss_router st" "ss_stop (latency_pushed a lat st) = ss_stop st"
  "ss_metrics (latency_pushed a lat st) = (ss_metrics st)\<lparr>sm_latencies := sm_latencies (ss_metrics st) @ [lat]\<rparr>"
  "ss_injector (latency_pushed a lat st) = ss_injector st"
  "length (ss_agents (latency_pushed a lat st)) = length (ss_agents st)"
  "map sa_phase (ss_agents (latency_pushed a lat st)) = (map sa_phase (ss_agents st))[a := Checking]"
  by (simp_all add: latency_pushed_def map_update Let_def)

lemma soak_safe_agent:
  assumes "soak_safe st" "agent_step a now lat st = Some st'"
  shows "soak_safe st'"
  using assms(1) by (cases rule: agent_step_cases [OF assms]) (auto simp: soak_safe_def dest: drilled_mono)

lemma soak_injector_cases:
  assumes "soak_injector_step now st = Some st'"
  obtains (act) op ops where "si_ops (ss_injector st) = op # ops" "\<not> si_returned (ss_injector st)"
      "st' = st\<lparr>ss_router := inject ''soak'' 30000 90 now op (ss_router st), ss_metrics := soak_count op (ss_metrics st),
         ss_injector := (ss_injector st)\<lparr>si_ops := ops\<rparr>\<rparr>"
  | (returned) "si_ops (ss_injector st) = []" "\<not> si_returned (ss_injector st)" "ss_stop st"
      "st' = st\<lparr>ss_injector := (ss_injector st)\<lparr>si_returned := True\<rparr>\<rparr>"
  | (cycle) c where "si_ops (ss_injector st) = []" "\<not> si_returned (ss_injector st)" "\<not> ss_stop st" "c = si_cycle (ss_injector st)"
      "st' = st\<lparr>ss_injector := (ss_injector st)\<lparr>si_cycle := c + 1, si_ops := cycle_ops (cycle_nodes 5 SOAK_TOOL_NODES c)\<rparr>\<rparr>"
  using assms by (auto simp: soak_injector_step_def Let_def split: list.splits if_splits)

lemma soak_safe_injector:
  assumes "soak_safe st" "soak_injector_step now st = Some st'"
  shows "soak_safe st'"
  using assms(2)
proof (cases rule: soak_injector_cases)
  case (cycle c)
  have "SOAK_TOOL_NODES \<noteq> []" by (simp add: SOAK_SEARCH_NODES_def)
  then show ?thesis using assms(1) cycle by (simp add: soak_safe_def drilled_cycle del: soak_tools)
qed (use assms(1) in \<open>simp_all add: soak_safe_def drilled_act\<close>)

lemma soak_reachable_safe: "soak_reachable n st \<Longrightarrow> soak_safe st"
proof (induction rule: soak_reachable.induct)
  case start
  show ?case using drilled_start [OF soak.edges_wf soak.few_edges, of "''soak''" SOAK_TOOL_NODES]
    by (simp add: soak_safe_def soak_start_def soak_build_router_def)
next
  case (step st st')
  from step.hyps(2) show ?case
  proof cases
    case deadline
    then show ?thesis using step.IH by (simp add: soak_safe_def)
  qed (use step.IH soak_safe_agent soak_safe_injector in blast)+
qed

section \<open>The counters\<close>

fun reports_left :: "agent_phase \<Rightarrow> nat" where
  "reports_left (Reporting ns) = length ns"
| "reports_left _ = 0"

fun latency_due :: "agent_phase \<Rightarrow> nat" where
  "latency_due (Reporting ns) = 1"
| "latency_due _ = 0"

definition soak_counts :: "soak_state \<Rightarrow> bool" where
  "soak_counts st \<longleftrightarrow> (let m = ss_metrics st; phases = map sa_phase (ss_agents st); ops = si_ops (ss_injector st);
       total = injections (si_cycle (ss_injector st))
     in sm_escalations m = 0
      \<and> sm_result_updates m + of_nat (sum_list (map reports_left phases)) = 2 * sm_routes m
      \<and> of_nat (length (sm_latencies m)) + of_nat (sum_list (map latency_due phases)) = sm_routes m
      \<and> sm_failure_transitions m + of_nat (count_list ops CountFailure) = of_nat total
      \<and> sm_recovery_transitions m + of_nat (count_list ops CountRecovery) = of_nat total
      \<and> (si_returned (ss_injector st) \<longrightarrow> ops = []))"

lemma sum_moved:
  assumes "a < length xs"
  shows "sum_list (map f (xs[a := p])) + f (xs ! a) = sum_list (map f xs) + (f p :: nat)"
  using assms elem_le_sum_list [of a "map f xs"] by (simp add: map_update sum_list_update)

lemma soak_counts_agent:
  assumes "soak_safe st" "soak_counts st" "a < length (ss_agents st)" "agent_step a now lat st = Some st'"
  shows "soak_counts st'"
proof -
  let ?ph = "map sa_phase (ss_agents st)"
  have move: "of_nat (sum_list (map f (?ph[a := p])))
      = of_nat (sum_list (map f ?ph)) + (of_nat (f p) - of_nat (f (sa_phase (ss_agents st ! a))) :: usize)"
    for f :: "agent_phase \<Rightarrow> nat" and p
    using arg_cong [OF sum_moved [of a ?ph f p], of "of_nat :: nat \<Rightarrow> usize"] assms(3)
    by (simp add: algebra_simps del: map_map)
  show ?thesis
    using assms(2)
    by (cases rule: agent_step_cases [OF assms(1,4)])
      (auto simp: soak_counts_def Let_def move algebra_simps simp del: map_map)
qed

lemma soak_counts_injector:
  assumes "soak_counts st" "soak_injector_step now st = Some st'"
  shows "soak_counts st'"
  using assms(2)
proof (cases rule: soak_injector_cases)
  case (act op ops)
  then show ?thesis using assms(1)
    by (cases op) (auto simp: soak_counts_def soak_count_def Let_def algebra_simps)
next
  case (cycle c)
  then show ?thesis using assms(1) by (auto simp: soak_counts_def Let_def cycle_counts cycle_length injections_def)
qed (use assms(1) in \<open>auto simp: soak_counts_def Let_def\<close>)

lemma soak_reachable_counts: "soak_reachable n st \<Longrightarrow> soak_counts st"
proof (induction rule: soak_reachable.induct)
  case start
  show ?case by (simp add: soak_counts_def soak_start_def default_soak_metrics_def injections_def sum_list_replicate Let_def)
next
  case (step st st')
  from step.hyps(2) show ?case
  proof cases
    case deadline
    then show ?thesis using step.IH by (simp add: soak_counts_def)
  qed (use step.IH soak_counts_agent soak_counts_injector soak_reachable_safe [OF step.hyps(1)] in blast)+
qed

section \<open>After the deadline the test ends\<close>

fun agent_left :: "agent_phase \<Rightarrow> nat" where
  "agent_left Returned = 0"
| "agent_left Checking = 1"
| "agent_left (Reporting ns) = 2 + length ns"
| "agent_left Searching = 5"
| "agent_left Looking = 6"

definition soak_work_left :: "soak_state \<Rightarrow> nat" where
  "soak_work_left st = sum_list (map agent_left (map sa_phase (ss_agents st)))
     + length (si_ops (ss_injector st)) + (if si_returned (ss_injector st) then 0 else 1)"

lemma soak_work_decreases:
  assumes "soak_reachable n st" "soak_step st st'" "ss_stop st"
  shows "ss_stop st' \<and> (st' = st \<or> soak_work_left st' < soak_work_left st)"
  using assms(2)
proof cases
  case (agent a now lat)
  note safe = soak_reachable_safe [OF assms(1)]
  let ?ph = "map sa_phase (ss_agents st)"
  have less: "sum_list (map agent_left (?ph[a := p])) < sum_list (map agent_left ?ph)"
    if "agent_left p < agent_left (sa_phase (ss_agents st ! a))" for p
    using sum_moved [of a ?ph agent_left p] agent(1) that by simp
  show ?thesis
    using assms(3)
    by (cases rule: agent_step_cases [OF safe agent(2)])
      (auto simp: soak_work_left_def less simp del: map_map)
next
  case (injector now)
  from injector show ?thesis using assms(3)
    by (cases rule: soak_injector_cases) (simp_all add: soak_work_left_def)
next
  case deadline
  then show ?thesis using assms(3) by simp
qed

lemma soak_can_step:
  assumes "ss_stop st" "\<not> soak_finished st" "soak_reachable n st"
  shows "\<exists>st'. soak_step st st' \<and> ss_stop st' \<and> soak_work_left st' < soak_work_left st"
proof -
  have "\<exists>st'. soak_step st st' \<and> st' \<noteq> st"
  proof (cases "\<exists>a < length (ss_agents st). sa_phase (ss_agents st ! a) \<noteq> Returned")
    case True
    then obtain a where a: "a < length (ss_agents st)" "sa_phase (ss_agents st ! a) \<noteq> Returned" by blast
    from a(2) have "\<exists>st'. agent_step a 0 0 st = Some st'"
      by (auto simp: agent_step_def Let_def split: agent_phase.split list.split prod.split option.split)
    then obtain st' where st': "agent_step a 0 0 st = Some st'" by blast
    have "map sa_phase (ss_agents st') ! a \<noteq> sa_phase (ss_agents st ! a)"
      using a assms(1)
      by (cases rule: agent_step_cases [OF soak_reachable_safe [OF assms(3)] st']) (auto simp del: nth_map)
    then have "st' \<noteq> st" using a(1) by auto
    then show ?thesis using soak_step.agent [OF a(1) st'] by blast
  next
    case False
    then have "\<forall>k \<in> set (ss_agents st). sa_phase k = Returned" by (metis in_set_conv_nth)
    then have open_end: "\<not> si_returned (ss_injector st)" using assms(2) by (simp add: soak_finished_def)
    define left where "left st = (length (si_ops (ss_injector st)), si_returned (ss_injector st))" for st :: soak_state
    have "\<exists>st'. soak_injector_step 0 st = Some st' \<and> left st' \<noteq> left st"
      using open_end assms(1) by (cases "si_ops (ss_injector st)") (simp_all add: soak_injector_step_def left_def Let_def)
    then show ?thesis using soak_step.injector by blast
  qed
  then show ?thesis using soak_work_decreases [OF assms(3) _ assms(1)] by blast
qed

lemma soak_reaches_end:
  "soak_reachable n st \<Longrightarrow> ss_stop st \<Longrightarrow> \<exists>st'. soak_step\<^sup>*\<^sup>* st st' \<and> soak_reachable n st' \<and> soak_finished st'"
proof (induction "soak_work_left st" arbitrary: st rule: less_induct)
  case less
  show ?case
  proof (cases "soak_finished st")
    case False
    then obtain s where s: "soak_step st s" "ss_stop s" "soak_work_left s < soak_work_left st"
      using soak_can_step [OF less.prems(2) _ less.prems(1)] by blast
    from less.hyps [OF s(3) soak_reachable.step [OF less.prems(1) s(1)] s(2)] s(1) show ?thesis
      by (meson converse_rtranclp_into_rtranclp)
  qed (use less.prems in blast)
qed

section \<open>What holds of the soak test\<close>

text \<open>
  C30: in every interleaving of the soak test no request escalates and at most three tools are open;
  each route accounts for exactly two reported results, those still to be reported included, and for
  one latency sample.
\<close>

theorem soak_test_accounts:
  assumes "soak_reachable n st"
  shows "sm_escalations (ss_metrics st) = 0 \<and> card (open_nodes ''soak'' (ss_router st)) \<le> 3
    \<and> sm_result_updates (ss_metrics st) + of_nat (sum_list (map reports_left (map sa_phase (ss_agents st))))
        = 2 * sm_routes (ss_metrics st)
    \<and> (soak_finished st \<longrightarrow> open_nodes ''soak'' (ss_router st) = {}
        \<and> sm_result_updates (ss_metrics st) = 2 * sm_routes (ss_metrics st)
        \<and> of_nat (length (sm_latencies (ss_metrics st))) = sm_routes (ss_metrics st)
        \<and> sm_failure_transitions (ss_metrics st) = sm_recovery_transitions (ss_metrics st))"
proof -
  note safe = soak_reachable_safe [OF assms] and counts = soak_reachable_counts [OF assms]
  have idle: "si_ops (ss_injector st) = []" "sum_list (map reports_left (map sa_phase (ss_agents st))) = 0"
    "sum_list (map latency_due (map sa_phase (ss_agents st))) = 0" if "soak_finished st"
    using that counts by (auto simp: soak_counts_def soak_finished_def Let_def)
  let ?m = "ss_metrics st"
  have "sm_result_updates ?m = 2 * sm_routes ?m" "of_nat (length (sm_latencies ?m)) = sm_routes ?m"
    "sm_failure_transitions ?m = sm_recovery_transitions ?m" if "soak_finished st"
    using counts idle [OF that] by (auto simp: soak_counts_def Let_def simp del: map_map)
  moreover have "open_nodes ''soak'' (ss_router st) = {}" if "soak_finished st"
    using safe idle(1) [OF that] by (auto simp: soak_safe_def dest: drilled_idle)
  moreover have "card (open_nodes ''soak'' (ss_router st)) \<le> 3" using safe by (auto simp: soak_safe_def dest: drilled_open)
  ultimately show ?thesis using counts by (simp add: soak_counts_def Let_def del: map_map)
qed

lemma soak_start_stopped: "\<exists>st. soak_reachable n st \<and> ss_stop st"
  using soak_reachable.step [OF soak_reachable.start soak_step.deadline] by fastforce

lemma soak_test_accounts_witness:
  "\<exists>st. soak_finished st \<and> sm_result_updates (ss_metrics st) = 2 * sm_routes (ss_metrics st)"
  using soak_start_stopped [of DEFAULT_AGENTS] soak_reaches_end soak_test_accounts by metis

text \<open>
  C31: once the deadline has set the stop flag, every further step lowers the work that is left (or
  sets the flag again), so the test ends, and its end can be reached.
\<close>

theorem soak_test_stops:
  assumes "soak_reachable n st" "ss_stop st"
  shows "(\<forall>st'. soak_step st st' \<longrightarrow> ss_stop st' \<and> (st' = st \<or> soak_work_left st' < soak_work_left st))
    \<and> (\<exists>st'. soak_step\<^sup>*\<^sup>* st st' \<and> soak_finished st')"
  using soak_work_decreases [OF assms(1) _ assms(2)] soak_reaches_end [OF assms] by blast

lemma soak_test_stops_witness: "\<exists>st st'. ss_stop st \<and> soak_step\<^sup>*\<^sup>* st st' \<and> soak_finished st'"
  using soak_start_stopped [of DEFAULT_AGENTS] soak_test_stops by metis

end
