(* ===== verification/PlanErrors.thy ===== *)
theory PlanErrors
  imports Planner
begin

text \<open>
  When planning fails.  The cost of every route a reachable router returns, cached or searched, is
  finite and not negative, so of the planner's two checks of a route only the step limit can refuse
  one.
\<close>

section \<open>Costs of routes\<close>

definition fine_weight :: "f64 \<Rightarrow> bool" where
  "fine_weight w \<longleftrightarrow> is_finite w \<and> \<not> f_lt w f_zero"

definition fine_cache :: "tenant_state \<Rightarrow> bool" where
  "fine_cache t \<longleftrightarrow> (\<forall>(k, c) \<in> set (cache t). fine_weight (cp_weight c))"

definition fine_costs_in :: "router \<Rightarrow> bool" where
  "fine_costs_in r \<longleftrightarrow> (\<forall>(tid, t) \<in> set (tenants r). fine_cache t)"

lemma set_update_subset: "set (AList.update k v xs) \<subseteq> insert (k, v) (set xs)"
  by (induction xs) auto

lemma search_cost_fine:
  assumes "tenant_inv t" "shortest_path (health t) (cost_model t) (graph t) start goal = Some rt"
  shows "fine_weight (total_cost rt)"
proof (cases "start = goal")
  case True
  then show ?thesis using assms(2)
    by (auto simp: shortest_path_def fine_weight_def f_lt_def split: option.splits if_splits)
next
  case False
  have inv: "wf_graph (graph t)" "wf_cost_model (cost_model t)" "health_ok (health t)"
    using assms(1) by (simp_all add: tenant_inv_def)
  obtain s g where ids: "map_of (node_to_id (graph t)) start = Some s" "map_of (node_to_id (graph t)) goal = Some g"
    using assms(2) False by (auto simp: shortest_path_def split: option.splits if_splits)
  obtain p where p: "costed_path (hops (health t) (cost_model t) (graph t)) s p g (total_cost rt)" "total_cost rt \<noteq> f_inf"
    using shortest_path_search(1) [OF inv ids False] assms(2) by (auto simp: optimal_route_def)
  have "unat s < length (id_to_node (graph t))" using wf_graph_lookup [OF inv(1)] ids(1) by simp
  then have "fnonneg (total_cost rt)"
    using costed_path_ok [OF p(1) hops_ok_graph [OF wf_graph_edges [OF inv(1)] inv(2,3)]] by simp
  then show ?thesis using p(2) by (cases "total_cost rt") (auto simp: fine_weight_def f_lt_def signed_def)
qed

section \<open>Cached costs\<close>

lemma fine_cache_insert: "fine_cache t \<Longrightarrow> fine_weight (cp_weight c) \<Longrightarrow> fine_cache (insert_cache k c t)"
  using set_update_subset [of k c]
  by (fastforce simp: fine_cache_def insert_cache_def evict_def Let_def AList.delete_eq split: list.split)

lemma fine_cache_invalidate: "fine_cache t \<Longrightarrow> fine_cache (invalidate_for_node n t)"
  by (auto simp: fine_cache_def invalidate_for_node_def Let_def)

lemma fine_cache_frame: "cache t' = cache t \<Longrightarrow> fine_cache t' = fine_cache t"
  by (simp add: fine_cache_def)

lemma fine_cache_get: "fine_cache (snd (get_cached k t)) = fine_cache t"
  by (simp add: get_cached_def fine_cache_def split: option.split)

lemma fine_put: "fine_costs_in r \<Longrightarrow> fine_cache t \<Longrightarrow> fine_costs_in (put_tenant tid t r)"
  using set_update_subset [of tid t "tenants r"] by (fastforce simp: fine_costs_in_def put_tenant_def)

lemma fine_push: "fine_costs_in (push_event ev r) = fine_costs_in r"
  by (simp add: fine_costs_in_def)

lemma fine_tenant: "fine_costs_in r \<Longrightarrow> map_of (tenants r) tid = Some t \<Longrightarrow> fine_cache t"
  by (auto simp: fine_costs_in_def dest: map_of_SomeD)

lemma fine_tenant_or_default: "fine_costs_in r \<Longrightarrow> fine_cache (tenant_or_default r tid)"
  by (cases "map_of (tenants r) tid")
    (auto simp: tenant_or_default_def get_or_def fine_cache_def default_tenant_def dest!: fine_tenant)

lemma fine_flushed: "fine_cache (invalidate_all_cache t)"
  by (simp add: fine_cache_def invalidate_all_cache_def)

lemmas fine_intros = fine_put fine_cache_invalidate fine_cache_insert fine_flushed fine_tenant_or_default

lemma fine_slow:
  assumes "fine_costs_in r" "router_inv r"
  shows "fine_costs_in (snd (route_slow tid start goal r))"
proof (cases "map_of (tenants r) tid")
  case None
  then show ?thesis using assms(1) by (simp add: route_slow_def fine_push Let_def)
next
  case (Some t)
  have t: "tenant_inv t" "fine_cache t" using assms Some router_inv_tenant fine_tenant by blast+
  obtain c t1 where get: "get_cached \<lparr>rk_start = start, rk_goal = goal\<rparr> t = (c, t1)" by (metis surj_pair)
  then have "fine_cache t1" using fine_cache_get [of "\<lparr>rk_start = start, rk_goal = goal\<rparr>" t] t(2) by simp
  then show ?thesis using assms(1) Some get search_cost_fine [OF t(1), of start goal] t(2)
    by (auto simp: route_slow_def Let_def fine_push intro!: fine_intros split: option.split)
qed

lemma fine_probe: "fine_costs_in r \<Longrightarrow> fine_costs_in (snd (run_recovery_probe_once cd now r))"
proof -
  assume r: "fine_costs_in r"
  let ?r = "r\<lparr>tenants := map (\<lambda>(tid, t). (tid, t\<lparr>health := probe_trackers cd now (health t)\<rparr>)) (tenants r)\<rparr>"
  have "fine_costs_in ?r" using r by (force simp: fine_costs_in_def fine_cache_def)
  moreover have "fine_costs_in (probe_opened p r')" if "fine_costs_in r'" for p r'
    using that by (cases p) (auto simp: probe_opened_def fine_push intro!: fine_intros dest: fine_tenant split: option.split)
  then have "fine_costs_in (fold probe_opened ps r')" if "fine_costs_in r'" for ps r'
    using that by (induction ps arbitrary: r') simp_all
  ultimately show ?thesis by (simp add: run_recovery_probe_once_def Let_def)
qed

lemma fine_result: "fine_costs_in r \<Longrightarrow> fine_costs_in (record_result now tid n ok l r)"
proof -
  assume r: "fine_costs_in r"
  let ?t = "tenant_or_default r tid"
  obtain changed h' where h': "record_result_with_policy now ok l (health_policy_of ?t)
      (get_or default_health_tracker (health ?t) n) = (changed, h')" by (metis surj_pair)
  have "fine_cache (?t\<lparr>health := h\<rparr>)" for h using fine_tenant_or_default [OF r] by (simp add: fine_cache_def)
  then show ?thesis using r h' by (simp add: record_result_def Let_def fine_push fine_put fine_cache_invalidate)
qed

lemma fine_force: "fine_costs_in r \<Longrightarrow> fine_costs_in (snd (force_half_open tid n r))"
  by (auto simp: force_half_open_def fine_push Let_def split: option.split prod.split intro!: fine_put fine_cache_invalidate)
     (auto simp: fine_cache_def dest!: fine_tenant)

lemma fine_step: "router_step r r' \<Longrightarrow> router_inv r \<Longrightarrow> fine_costs_in r \<Longrightarrow> fine_costs_in r'"
  by (erule router_stepE)
     (auto simp: add_tenant_def set_cost_model_def try_set_cost_model_def try_set_health_policy_def add_edge_def Let_def
        route_fast_def fine_push fine_slow fine_probe fine_result fine_force
        intro!: fine_intros split: sum.split option.split)

lemma reachable_fine: "router_reachable r \<Longrightarrow> fine_costs_in r"
proof (induction rule: router_reachable.induct)
  case (reach_step r r')
  then show ?case using fine_step router_reachable_inv by blast
qed (simp add: fine_costs_in_def router_new_def)

lemma route_cost_fine:
  assumes "router_reachable r" "fst (route_request tid start goal r) = Routed rt"
  shows "fine_weight (total_cost rt)"
proof -
  obtain t where t: "map_of (tenants r) tid = Some t"
    using assms(2) by (cases "map_of (tenants r) tid") (simp_all add: route_request_def route_fast_def route_slow_def Let_def)
  have inv: "tenant_inv t" "fine_cache t"
    using router_inv_tenant [OF router_reachable_inv [OF assms(1)] t] fine_tenant [OF reachable_fine [OF assms(1)] t] .
  have hit: "fine_weight (cp_weight c)" if "map_of (cache t) k = Some c" for k c
    using inv(2) map_of_SomeD [OF that] by (auto simp: fine_cache_def)
  show ?thesis
  proof (cases "map_of (cache t) \<lparr>rk_start = start, rk_goal = goal\<rparr>")
    case (Some c)
    then show ?thesis using assms(2) t hit [OF Some] by (auto simp: route_request_def route_fast_def cached_route_def)
  next
    case None
    then have "shortest_path (health t) (cost_model t) (graph t) start goal = Some rt"
      using assms(2) t by (auto simp: route_request_def route_fast_def route_slow_def get_cached_def Let_def split: option.splits)
    then show ?thesis by (rule search_cost_fine [OF inv(1)])
  qed
qed

section \<open>The errors of the planner\<close>

lemma planning_errors:
  assumes "router_reachable r"
  shows "fst (plan p q r) = Inl e \<longleftrightarrow> request_validate q = Inl e
    \<or> request_validate q = Inr () \<and> (\<exists>rt. fst (route_request (pr_tenant_id q) (pr_start q) (pr_goal q) r) = Routed rt
        \<and> length (nodes rt) > max_steps p \<and> e = RouteExceedsStepLimit (length (nodes rt)) (max_steps p))"
proof -
  have "is_finite (total_cost rt) \<and> \<not> f_lt (total_cost rt) f_zero"
    if "fst (route_request (pr_tenant_id q) (pr_start q) (pr_goal q) r) = Routed rt" for rt
    using route_cost_fine [OF assms that] by (simp add: fine_weight_def)
  then show ?thesis
    by (cases "request_validate q"; cases "route_request (pr_tenant_id q) (pr_start q) (pr_goal q) r")
       (auto simp: plan_def make_plan_def split: route_decision.splits)
qed

text \<open>
  C12: planning fails exactly when the request is malformed or the route has more steps than the
  limit; the planner's other check, of the score of the route, never fails on a reachable router.
\<close>

theorem planning_fails_iff:
  assumes "router_reachable r"
  shows "fst (plan p q r) = Inl e \<longleftrightarrow> request_validate q = Inl e
    \<or> request_validate q = Inr () \<and> (\<exists>rt. fst (route_request (pr_tenant_id q) (pr_start q) (pr_goal q) r) = Routed rt
        \<and> length (nodes rt) > max_steps p \<and> e = RouteExceedsStepLimit (length (nodes rt)) (max_steps p))"
  using planning_errors [OF assms] .

lemma planning_fails_iff_witness:
  "fst (plan planner_new trivial_request demo_router) \<noteq> Inl (RouteExceedsStepLimit 1 64)
   \<and> fst (plan planner_new (trivial_request\<lparr>pr_goal := []\<rparr>) demo_router) = Inl (InvalidRequest ''goal must be 1-128 characters'')"
proof -
  have v: "request_validate trivial_request = Inr ()"
    "request_validate (trivial_request\<lparr>pr_goal := []\<rparr>) = Inl (InvalidRequest ''goal must be 1-128 characters'')"
    by code_simp+
  show ?thesis
    using planning_fails_iff [OF demo_router_reachable, of planner_new trivial_request "RouteExceedsStepLimit 1 64"]
      planning_fails_iff [OF demo_router_reachable, of planner_new "trivial_request\<lparr>pr_goal := []\<rparr>"
        "InvalidRequest ''goal must be 1-128 characters''"] v
    by (auto simp: planner_new_def with_limits_def MAX_EXECUTION_PLAN_STEPS_def)
qed

end
