(* ===== verification/PlannerBenchmark.thy ===== *)
theory PlannerBenchmark
  imports Drills PlanErrors SidecarConfig
begin

text \<open>
  The benchmark of the router and the planner (\<open>trust-router-planner-benchmark.rs\<close>): 2048 disjoint
  routes, requested in turn so that the cache of 1024 never helps, or one route over and over.
\<close>

section \<open>The program\<close>

definition DEFAULT_ITERATIONS :: nat where "DEFAULT_ITERATIONS = 20000"
definition UNIQUE_ROUTES :: nat where "UNIQUE_ROUTES = 2048"

text \<open>The first argument of the command line, if it is a positive \<open>usize\<close>.\<close>

definition iterations_of :: "string option \<Rightarrow> nat" where
  "iterations_of argument =
     (case Option.bind argument (parse_unsigned (2 ^ 64)) of
        None \<Rightarrow> DEFAULT_ITERATIONS | Some n \<Rightarrow> if n > 0 then n else DEFAULT_ITERATIONS)"

definition start_node :: "nat \<Rightarrow> node_id" where "start_node i = ''start_'' @ decimal i"
definition tool_node :: "nat \<Rightarrow> node_id" where "tool_node i = ''tool_'' @ decimal i"
definition done_node :: "nat \<Rightarrow> node_id" where "done_node i = ''done_'' @ decimal i"

definition benchmark_edges :: "edge list" where
  "benchmark_edges = concat (map (\<lambda>i.
     [edge_with_costs (f64_lit 1) (f64_lit (1/1000)) 20 (f64_lit (1/10)) (edge_new (start_node i) (tool_node i)),
      edge_with_costs (f64_lit 1) (f64_lit (1/1000)) 20 (f64_lit (1/10)) (edge_new (tool_node i) (done_node i))])
     [0..<UNIQUE_ROUTES])"

definition benchmark_router_graph :: router where
  "benchmark_router_graph = built_router ''benchmark'' benchmark_edges"

definition route_id :: "bool \<Rightarrow> nat \<Rightarrow> nat" where
  "route_id hits index = (if hits then 0 else index mod UNIQUE_ROUTES)"

definition benchmark_route :: "bool \<Rightarrow> nat \<Rightarrow> router \<Rightarrow> route_decision \<times> router" where
  "benchmark_route hits index r =
     route_request ''benchmark'' (start_node (route_id hits index)) (done_node (route_id hits index)) r"

text \<open>\<open>None\<close> is the panic of the \<open>expect\<close>, which a recovery plan does not cause.\<close>

definition benchmark_plan :: "bool \<Rightarrow> nat \<Rightarrow> router \<Rightarrow> router option" where
  "benchmark_plan hits index r =
     (case plan planner_new \<lparr>pr_tenant_id = ''benchmark'', pr_start = start_node (route_id hits index),
          pr_goal = done_node (route_id hits index)\<rparr> r of
        (Inl e, r') \<Rightarrow> None | (Inr _, r') \<Rightarrow> Some r')"

record benchmark_result =
  br_iterations :: nat
  br_elapsed :: duration
  br_p50 :: duration
  br_p95 :: duration
  br_p99 :: duration

definition bench_percentile :: "duration list \<Rightarrow> f64 \<Rightarrow> duration option" where
  "bench_percentile xs p =
     (if xs = [] then None
      else let i = f64_to_nat (2 ^ 64 - 1) (fround (fdiv (fmul (f64_of_nat (length xs - 1)) p) (f64_lit 100)))
           in if i < length xs then Some (xs ! i) else None)"

fun run_operations :: "(nat \<Rightarrow> router \<Rightarrow> router option) \<Rightarrow> nat list \<Rightarrow> router \<Rightarrow> router option" where
  "run_operations operation [] r = Some r"
| "run_operations operation (i # is) r =
     (case operation i r of None \<Rightarrow> None | Some r' \<Rightarrow> run_operations operation is r')"

text \<open>The measured durations are arguments.\<close>

definition measure_operations ::
  "(nat \<Rightarrow> duration) \<Rightarrow> duration \<Rightarrow> nat \<Rightarrow> (nat \<Rightarrow> router \<Rightarrow> router option) \<Rightarrow> router \<Rightarrow> benchmark_result option" where
  "measure_operations took elapsed iterations operation r =
     (case run_operations operation [0..<iterations] r of
        None \<Rightarrow> None
      | Some _ \<Rightarrow>
          (let samples = sort (map took [0..<iterations]); p = (\<lambda>q. bench_percentile samples (f64_lit q))
           in case (p 50, p 95, p 99) of
                (Some a, Some b, Some c) \<Rightarrow>
                  Some \<lparr>br_iterations = iterations, br_elapsed = elapsed, br_p50 = a, br_p95 = b, br_p99 = c\<rparr>
              | _ \<Rightarrow> None))"

definition benchmark_router :: "(nat \<Rightarrow> duration) \<Rightarrow> duration \<Rightarrow> nat \<Rightarrow> bool \<Rightarrow> benchmark_result option" where
  "benchmark_router took elapsed iterations hits =
     measure_operations took elapsed iterations (\<lambda>i r. Some (snd (benchmark_route hits i r))) benchmark_router_graph"

definition benchmark_planner :: "(nat \<Rightarrow> duration) \<Rightarrow> duration \<Rightarrow> nat \<Rightarrow> bool \<Rightarrow> benchmark_result option" where
  "benchmark_planner took elapsed iterations hits =
     measure_operations took elapsed iterations (benchmark_plan hits) benchmark_router_graph"

definition benchmark_main :: "string option \<Rightarrow> (nat \<Rightarrow> nat \<Rightarrow> duration) \<Rightarrow> (nat \<Rightarrow> duration) \<Rightarrow> benchmark_result option list" where
  "benchmark_main argument took elapsed =
     (let n = iterations_of argument
      in [benchmark_router (took 0) (elapsed 0) n False, benchmark_router (took 1) (elapsed 1) n True,
          benchmark_planner (took 2) (elapsed 2) n False, benchmark_planner (took 3) (elapsed 3) n True])"

section \<open>The network\<close>

lemma decimal_inj: "decimal m = decimal n \<longleftrightarrow> m = n"
  using decimal_digits [of m] decimal_digits [of n] by metis

lemma node_names [simp]:
  "start_node i = start_node j \<longleftrightarrow> i = j" "tool_node i = tool_node j \<longleftrightarrow> i = j" "done_node i = done_node j \<longleftrightarrow> i = j"
  "start_node i \<noteq> tool_node j" "tool_node i \<noteq> start_node j" "start_node i \<noteq> done_node j" "done_node i \<noteq> start_node j"
  "tool_node i \<noteq> done_node j" "done_node i \<noteq> tool_node j"
  by (simp_all add: start_node_def tool_node_def done_node_def decimal_inj)

lemma benchmark_edges_usable: "\<forall>e \<in> set benchmark_edges. usable_edge e"
  unfolding benchmark_edges_def
  by (simp only: set_concat set_map ball_simps ball_UN set_upt list.set) (intro conjI ballI fine_costs; simp)

lemma benchmark_edges_wf: "\<forall>e \<in> set benchmark_edges. wf_edge e" "2 * length benchmark_edges < 2 ^ 32 - 1"
proof -
  show "\<forall>e \<in> set benchmark_edges. wf_edge e" using benchmark_edges_usable by (simp add: usable_edge_def)
  have "length benchmark_edges = 2 * UNIQUE_ROUTES" by (simp add: benchmark_edges_def length_concat comp_def sum_list_triv)
  then show "2 * length benchmark_edges < 2 ^ 32 - 1" by (simp add: UNIQUE_ROUTES_def)
qed

lemma benchmark_link:
  "edge_among benchmark_edges a b \<longleftrightarrow>
   (\<exists>i < UNIQUE_ROUTES. a = start_node i \<and> b = tool_node i \<or> a = tool_node i \<and> b = done_node i)"
proof -
  have ends: "(\<lambda>e. (edge_from e, edge_to e)) ` set benchmark_edges
      = (\<Union>i \<in> {0..<UNIQUE_ROUTES}. {(start_node i, tool_node i), (tool_node i, done_node i)})"
    unfolding benchmark_edges_def
    by (simp only: set_concat set_map image_UN image_image list.set image_insert image_empty costed_ends set_upt UN_extend_simps)
  show ?thesis unfolding edge_among_usable [OF benchmark_edges_usable] ends by fastforce
qed

abbreviation chain :: "nat \<Rightarrow> node_id list" where
  "chain i \<equiv> [start_node i, tool_node i, done_node i]"

lemma benchmark_paths:
  assumes "i < UNIQUE_ROUTES" "open_nodes ''benchmark'' r = {}"
  shows "net_path ''benchmark'' benchmark_edges r (start_node i) (done_node i) p \<longleftrightarrow> p = chain i"
proof
  assume p: "net_path ''benchmark'' benchmark_edges r (start_node i) (done_node i) p"
  then obtain xs where xs: "p = start_node i # xs" by (cases p) (auto simp: net_path_def)
  then obtain q where q: "p = start_node i # tool_node i # q" using p by (cases xs) (auto simp: net_path_def benchmark_link)
  then obtain q' where q': "q = done_node i # q'" using p by (cases q) (auto simp: net_path_def benchmark_link)
  have "q' = []" using p by (cases q') (auto simp: q q' net_path_def benchmark_link)
  then show "p = chain i" by (simp add: q q')
next
  assume "p = chain i"
  then show "net_path ''benchmark'' benchmark_edges r (start_node i) (done_node i) p"
    using assms by (auto simp: net_path_def benchmark_link)
qed

section \<open>The cache during the benchmark\<close>

definition bench_key :: "nat \<Rightarrow> route_key" where
  "bench_key i = \<lparr>rk_start = start_node (i mod UNIQUE_ROUTES), rk_goal = done_node (i mod UNIQUE_ROUTES)\<rparr>"

text \<open>The router before request \<open>i\<close>.\<close>

definition before_request :: "bool \<Rightarrow> nat \<Rightarrow> router" where
  "before_request hits i = fold (\<lambda>k r. snd (benchmark_route hits k r)) [0..<i] benchmark_router_graph"

lemma before_request_simps:
  "before_request hits 0 = benchmark_router_graph"
  "before_request hits (Suc i) = snd (benchmark_route hits i (before_request hits i))"
  by (simp_all add: before_request_def)

abbreviation idle_router :: "router \<Rightarrow> bool" where
  "idle_router r \<equiv> configured ''benchmark'' benchmark_edges r \<and> open_nodes ''benchmark'' r = {}"

lemma idle_start: "idle_router benchmark_router_graph"
  unfolding benchmark_router_graph_def by (simp add: configured_built [OF benchmark_edges_wf] built_state)

lemma idle_next: "idle_router r \<Longrightarrow> idle_router (snd (benchmark_route hits i r))"
  using open_nodes_route [of "''benchmark''" benchmark_edges r]
  by (simp add: benchmark_route_def configured_route)

lemma idle_routes:
  assumes "idle_router r"
  obtains rt where "fst (benchmark_route hits i r) = Routed rt" "nodes rt = chain (route_id hits i)"
proof -
  have id: "route_id hits i < UNIQUE_ROUTES" by (simp add: route_id_def UNIQUE_ROUTES_def)
  note path = benchmark_paths [OF id, of r] 
  have c: "configured ''benchmark'' benchmark_edges r" and o: "open_nodes ''benchmark'' r = {}" using assms by simp_all
  show thesis
  proof (rule request_decides [OF c benchmark_edges_wf, of "start_node (route_id hits i)" "done_node (route_id hits i)"])
    fix rt assume "fst (route_request ''benchmark'' (start_node (route_id hits i)) (done_node (route_id hits i)) r) = Routed rt"
      and "net_path ''benchmark'' benchmark_edges r (start_node (route_id hits i)) (done_node (route_id hits i)) (nodes rt)"
    then show thesis using that path [OF o] by (simp add: benchmark_route_def)
  qed (use path [OF o] in blast)
qed

lemma cache_order_length: "cache_inv t \<Longrightarrow> length (cache t) = length (cache_order t)"
  by (metis cache_inv_def distinct_card length_map list.set_map)

lemma insert_cache_order:
  assumes "cache_inv t" "k \<notin> set (cache_order t)"
  shows "cache_order (insert_cache k c t)
    = (if length (cache_order t) = ROUTE_CACHE_LIMIT then tl (cache_order t) else cache_order t) @ [k]"
proof -
  have "\<not> contains_key (cache t) k" using assms unfolding contains_key_dom cache_inv_def by blast
  moreover have "filter (\<lambda>k'. k' \<noteq> k) (cache_order t) = cache_order t" "filter (\<lambda>k'. k' \<noteq> k) (tl (cache_order t)) = tl (cache_order t)"
    using assms(2) by (cases "cache_order t"; auto simp: filter_id_conv)+
  ultimately show ?thesis
    using cache_order_length [OF assms(1)]
    by (auto simp: insert_cache_def evict_def Let_def ROUTE_CACHE_LIMIT_def split: list.split)
qed

text \<open>When every request has another key, the cache holds those of the last 1024 requests.\<close>

definition holds_last :: "nat \<Rightarrow> router \<Rightarrow> bool" where
  "holds_last k r \<longleftrightarrow> idle_router r \<and> (\<exists>t. map_of (tenants r) ''benchmark'' = Some t
     \<and> cache_order t = map bench_key [k - ROUTE_CACHE_LIMIT..<k])"

lemma bench_key_fresh: "bench_key k \<notin> set (map bench_key [k - ROUTE_CACHE_LIMIT..<k])"
proof
  assume "bench_key k \<in> set (map bench_key [k - ROUTE_CACHE_LIMIT..<k])"
  then obtain j where j: "k - ROUTE_CACHE_LIMIT \<le> j" "j < k" "k mod UNIQUE_ROUTES = j mod UNIQUE_ROUTES"
    by (auto simp: bench_key_def)
  then have "UNIQUE_ROUTES dvd k - j" by (simp add: mod_eq_dvd_iff_nat)
  then have "UNIQUE_ROUTES \<le> k - j" using j(2) by (simp add: dvd_imp_le)
  then show False using j(1,2) by (simp add: UNIQUE_ROUTES_def ROUTE_CACHE_LIMIT_def)
qed

lemma miss_step:
  assumes "holds_last k r"
  shows "holds_last (Suc k) (snd (benchmark_route False k r))"
    and "\<exists>rt. fst (benchmark_route False k r) = Routed rt \<and> nodes rt = chain (k mod UNIQUE_ROUTES) \<and> \<not> cache_hit rt"
proof -
  obtain t where t: "map_of (tenants r) ''benchmark'' = Some t" "cache_order t = map bench_key [k - ROUTE_CACHE_LIMIT..<k]"
    and idle: "idle_router r" using assms by (auto simp: holds_last_def)
  have reach: "router_reachable r" using idle configured_reachable by blast
  have inv: "cache_inv t" using router_inv_tenant [OF router_reachable_inv [OF reach] t(1)] by (simp add: tenant_inv_def)
  have key: "bench_key k = \<lparr>rk_start = start_node (route_id False k), rk_goal = done_node (route_id False k)\<rparr>"
    by (simp add: bench_key_def route_id_def)
  have new: "bench_key k \<notin> set (cache_order t)" using bench_key_fresh t(2) by simp
  then have none: "map_of (cache t) (bench_key k) = None" using inv by (simp add: cache_inv_def map_of_eq_None_iff)
  obtain rt where rt: "fst (benchmark_route False k r) = Routed rt" "nodes rt = chain (route_id False k)"
    using idle by (rule idle_routes)
  have s: "\<not> cache_hit rt" "map_of (tenants (snd (benchmark_route False k r))) ''benchmark''
      = Some (insert_cache (bench_key k) \<lparr>cp_path = nodes rt, cp_weight = total_cost rt, touched_nodes = set (nodes rt)\<rparr> t)"
    using searched_route(2,3) [OF t(1) none [unfolded key] rt(1) [unfolded benchmark_route_def]]
    by (simp_all add: benchmark_route_def key)
  have "Suc (k - 1024) = k - 1023" if "1024 \<le> k" using that by simp
  then have "cache_order (insert_cache (bench_key k) c t) = map bench_key [Suc k - ROUTE_CACHE_LIMIT..<Suc k]" for c
    using insert_cache_order [OF inv new, of c] t(2)
    by (cases "ROUTE_CACHE_LIMIT \<le> k") (auto simp: Suc_diff_le map_tl [symmetric] ROUTE_CACHE_LIMIT_def)
  then show "holds_last (Suc k) (snd (benchmark_route False k r))" using s(2) idle_next [OF idle] by (simp add: holds_last_def)
  show "\<exists>rt. fst (benchmark_route False k r) = Routed rt \<and> nodes rt = chain (k mod UNIQUE_ROUTES) \<and> \<not> cache_hit rt"
    using rt s(1) by (simp add: route_id_def)
qed

lemma holds_last_before: "holds_last i (before_request False i)"
proof (induction i)
  case 0
  show ?case using idle_start built_tenant [of "''benchmark''" benchmark_edges]
    by (simp add: holds_last_def before_request_simps) (simp add: benchmark_router_graph_def default_tenant_def)
next
  case (Suc i)
  then show ?case by (simp add: before_request_simps miss_step(1))
qed

text \<open>When every request has the same key, it stays cached from the first request on.\<close>

definition holds_first :: "f64 \<Rightarrow> router \<Rightarrow> bool" where
  "holds_first cost r \<longleftrightarrow> idle_router r \<and> (\<exists>t. map_of (tenants r) ''benchmark'' = Some t
     \<and> map_of (cache t) (bench_key 0) = Some \<lparr>cp_path = chain 0, cp_weight = cost, touched_nodes = set (chain 0)\<rparr>)"

lemma key_zero: "bench_key 0 = \<lparr>rk_start = start_node (route_id True i), rk_goal = done_node (route_id True i)\<rparr>"
  by (simp add: bench_key_def route_id_def)

lemma first_step:
  obtains cost where "fst (benchmark_route True 0 benchmark_router_graph)
      = Routed \<lparr>nodes = chain 0, total_cost = cost, cache_hit = False\<rparr>"
    "holds_first cost (snd (benchmark_route True 0 benchmark_router_graph))"
proof -
  let ?r = benchmark_router_graph
  have t: "map_of (tenants ?r) ''benchmark'' = Some (default_tenant\<lparr>graph := graph_of benchmark_edges\<rparr>)"
    unfolding benchmark_router_graph_def by (rule built_tenant)
  obtain rt where rt: "fst (benchmark_route True 0 ?r) = Routed rt" "nodes rt = chain (route_id True 0)"
    using idle_start by (rule idle_routes)
  have z: "nodes rt = chain 0" using rt(2) by (simp add: route_id_def)
  have none: "map_of (cache (default_tenant\<lparr>graph := graph_of benchmark_edges\<rparr>)) (bench_key 0) = None"
    by (simp add: default_tenant_def)
  note s = searched_route(2,3) [OF t none [unfolded key_zero [of 0]] rt(1) [unfolded benchmark_route_def]]
  have "rt = \<lparr>nodes = chain 0, total_cost = total_cost rt, cache_hit = False\<rparr>" using z s(1) by simp
  moreover have "holds_first (total_cost rt) (snd (benchmark_route True 0 ?r))"
    using s(2) idle_next [OF idle_start, of True 0] inserted_hit z
    by (simp add: holds_first_def benchmark_route_def flip: key_zero [of 0])
  ultimately show thesis using that rt(1) by metis
qed

lemma hit_step:
  assumes "holds_first cost r"
  shows "holds_first cost (snd (benchmark_route True i r))"
    and "fst (benchmark_route True i r) = Routed \<lparr>nodes = chain 0, total_cost = cost, cache_hit = True\<rparr>"
proof -
  obtain t where t: "map_of (tenants r) ''benchmark'' = Some t" "map_of (cache t) (bench_key 0)
      = Some \<lparr>cp_path = chain 0, cp_weight = cost, touched_nodes = set (chain 0)\<rparr>"
    using assms by (auto simp: holds_first_def)
  have f: "fst (route_fast ''benchmark'' (start_node (route_id True i)) (done_node (route_id True i)) r)
      = Some (Routed \<lparr>nodes = chain 0, total_cost = cost, cache_hit = True\<rparr>)"
    using t by (simp add: route_fast_def cached_route_def flip: key_zero [of i])
  then show "fst (benchmark_route True i r) = Routed \<lparr>nodes = chain 0, total_cost = cost, cache_hit = True\<rparr>"
    by (simp add: benchmark_route_def route_request_split)
  have "tenants (snd (benchmark_route True i r)) = tenants r"
    using f by (simp add: benchmark_route_def route_request_split route_fast_tenants)
  then show "holds_first cost (snd (benchmark_route True i r))"
    using assms idle_next [of r True i] by (simp add: holds_first_def)
qed

lemma holds_first_after:
  obtains cost where "\<And>i. holds_first cost (before_request True (Suc i))"
proof (rule first_step)
  fix cost assume first: "holds_first cost (snd (benchmark_route True 0 benchmark_router_graph))"
  have "holds_first cost (before_request True (Suc i))" for i
  proof (induction i)
    case 0
    show ?case using first by (simp add: before_request_simps)
  next
    case (Suc i)
    then show ?case using hit_step(1) by (simp add: before_request_simps(2) [of True "Suc i"])
  qed
  then show thesis by (rule that)
qed

section \<open>What the benchmark measures\<close>

text \<open>
  C36: the two modes of the benchmark measure what they are named after: with 2048 routes in turn
  every request misses the cache of 1024, and with one route every request after the first is a hit;
  every request is routed along its own chain.
\<close>

theorem benchmark_modes:
  "\<exists>rt. fst (benchmark_route hits i (before_request hits i)) = Routed rt
     \<and> nodes rt = [start_node (route_id hits i), tool_node (route_id hits i), done_node (route_id hits i)]
     \<and> (cache_hit rt \<longleftrightarrow> hits \<and> 0 < i)"
proof (cases hits)
  case False
  then show ?thesis using miss_step(2) [OF holds_last_before, of i] by (auto simp: route_id_def)
next
  case True
  obtain c where c: "\<And>i. holds_first c (before_request True (Suc i))" by (rule holds_first_after) blast
  obtain c0 where c0: "fst (benchmark_route True 0 benchmark_router_graph) = Routed \<lparr>nodes = chain 0, total_cost = c0, cache_hit = False\<rparr>"
    by (rule first_step) blast
  show ?thesis
  proof (cases i)
    case 0
    then show ?thesis using True c0 by (simp add: before_request_simps route_id_def)
  next
    case (Suc k)
    then show ?thesis using True hit_step(2) [OF c [of k], of "Suc k"] by (simp add: route_id_def)
  qed
qed

section \<open>The benchmark completes\<close>

lemma decimal_short: "n < 10000 \<Longrightarrow> length (decimal n) \<le> 4"
  by (simp add: decimal.simps [of n] decimal.simps [of "n div 10"] decimal.simps [of "n div 10 div 10"]
      decimal.simps [of "n div 10 div 10 div 10"])

lemma decimal_id_chars: "list_all id_char (decimal n)"
  using decimal_digits [of n] by (auto simp: list_all_iff id_char_def is_digit_def is_ascii_alphanumeric_def)

lemma node_names_valid:
  assumes "i < UNIQUE_ROUTES"
  shows "valid_identifier (start_node i)" "valid_identifier (done_node i)"
proof -
  have "length (decimal i) \<le> 4" using assms by (intro decimal_short) (simp add: UNIQUE_ROUTES_def)
  moreover have "list_all id_char ''start_''" "list_all id_char ''done_''" by code_simp+
  ultimately show "valid_identifier (start_node i)" "valid_identifier (done_node i)"
    using decimal_id_chars [of i] by (simp_all add: valid_identifier_def start_node_def done_node_def)
qed

lemma idle_before: "idle_router (before_request hits i)"
  by (induction i) (simp_all only: before_request_simps idle_start idle_next)

lemma benchmark_plan_ok: "benchmark_plan hits i (before_request hits i) = Some (before_request hits (Suc i))"
proof -
  let ?r = "before_request hits i" and ?q = "\<lparr>pr_tenant_id = ''benchmark'', pr_start = start_node (route_id hits i),
    pr_goal = done_node (route_id hits i)\<rparr>"
  have idle: "idle_router ?r" by (rule idle_before)
  have reach: "router_reachable ?r" using idle configured_reachable by blast
  obtain rt where rt: "fst (benchmark_route hits i ?r) = Routed rt" "nodes rt = chain (route_id hits i)"
    using idle by (rule idle_routes)
  have "valid_identifier ''benchmark''" by code_simp
  moreover have "route_id hits i < UNIQUE_ROUTES" by (simp add: route_id_def UNIQUE_ROUTES_def)
  ultimately have valid: "request_validate ?q = Inr ()" using node_names_valid by (simp add: request_validate_iff)
  have "\<not> isl (fst (plan planner_new ?q ?r))"
    using planning_errors [OF reach, of planner_new ?q] rt valid
    by (auto simp: isl_def benchmark_route_def planner_new_def with_limits_def MAX_EXECUTION_PLAN_STEPS_def)
  moreover have "snd (plan planner_new ?q ?r) = snd (benchmark_route hits i ?r)"
    using valid by (simp add: plan_def benchmark_route_def split: prod.split route_decision.split)
  ultimately show ?thesis
    by (cases "plan planner_new ?q ?r"; cases "fst (plan planner_new ?q ?r)")
      (simp_all add: benchmark_plan_def before_request_simps(2))
qed

lemma run_operations_before:
  assumes "\<And>i. operation i (before_request hits i) = Some (before_request hits (Suc i))"
  shows "run_operations operation [i..<i + n] (before_request hits i) = Some (before_request hits (i + n))"
proof (induction n arbitrary: i)
  case (Suc n)
  have "[i..<i + Suc n] = i # [Suc i..<Suc i + n]" by (simp add: upt_rec)
  then show ?case using assms Suc.IH [of "Suc i"] by simp
qed simp

lemma bench_percentile: "xs \<noteq> [] \<Longrightarrow> bench_percentile xs p = duration_percentile xs p"
  by (simp add: bench_percentile_def duration_percentile_def)

lemma measure_total:
  assumes "\<And>i. operation i (before_request hits i) = Some (before_request hits (Suc i))" "0 < n" "n \<le> 2 ^ 40"
  obtains res where "measure_operations took elapsed n operation benchmark_router_graph = Some res"
    "br_iterations res = n" "br_p50 res \<le> br_p95 res" "br_p95 res \<le> br_p99 res" "br_p99 res \<in> took ` {..<n}"
proof -
  define xs where "xs = sort (map took [0..<n])"
  have xs: "xs \<noteq> []" "length xs \<le> 2 ^ 40" "sorted xs" "set xs = took ` {..<n}"
    using assms(2,3) by (auto simp: xs_def sort_key_Nil_iff atLeast0LessThan)
  let ?v = "\<lambda>p. xs ! percentile_rank (length xs - 1) p"
  have pc: "bench_percentile xs (f64_lit (of_nat p)) = Some (?v p)" "percentile_rank (length xs - 1) p < length xs" if "p \<le> 100" for p
    using duration_percentile_rank [OF xs(1,2) that] by (simp_all add: bench_percentile [OF xs(1)])
  have mono: "?v p \<le> ?v q" if "p \<le> q" "q \<le> 100" for p q
    using sorted_nth_mono [OF xs(3) percentile_rank_mono [OF that(1)] pc(2) [OF that(2)]] .
  have run: "run_operations operation [0..<n] benchmark_router_graph = Some (before_request hits n)"
    using run_operations_before [of operation hits 0 n, OF assms(1)] by (simp add: before_request_simps(1))
  show thesis
  proof (rule that)
    show "measure_operations took elapsed n operation benchmark_router_graph
        = Some \<lparr>br_iterations = n, br_elapsed = elapsed, br_p50 = ?v 50, br_p95 = ?v 95, br_p99 = ?v 99\<rparr>"
      using run pc(1) [of 50] pc(1) [of 95] pc(1) [of 99] by (simp add: measure_operations_def Let_def flip: xs_def)
  qed (use mono [of 50 95] mono [of 95 99] pc(2) [of 99] xs(4) nth_mem in \<open>auto simp: image_iff\<close>)
qed

lemma iterations_positive: "0 < iterations_of argument"
  by (simp add: iterations_of_def DEFAULT_ITERATIONS_def split: option.split)

text \<open>
  whatever its argument, the benchmark performs at least one iteration and completes: no plan is
  refused, the percentiles are in range and ordered, and the four results count the iterations.
\<close>

theorem benchmark_completes:
  assumes "iterations_of argument \<le> 2 ^ 40"
  shows "\<exists>rs. benchmark_main argument took elapsed = map Some rs \<and> length rs = 4
    \<and> list_all (\<lambda>res. 0 < br_iterations res \<and> br_iterations res = iterations_of argument
        \<and> br_p50 res \<le> br_p95 res \<and> br_p95 res \<le> br_p99 res) rs"
proof -
  let ?n = "iterations_of argument"
  have router: "\<exists>res. benchmark_router (took k) (elapsed k) ?n hits = Some res \<and> br_iterations res = ?n
      \<and> br_p50 res \<le> br_p95 res \<and> br_p95 res \<le> br_p99 res" for k hits
    using measure_total [of "\<lambda>i r. Some (snd (benchmark_route hits i r))" hits, OF _ iterations_positive assms]
    unfolding benchmark_router_def by (metis before_request_simps(2))
  have planner: "\<exists>res. benchmark_planner (took k) (elapsed k) ?n hits = Some res \<and> br_iterations res = ?n
      \<and> br_p50 res \<le> br_p95 res \<and> br_p95 res \<le> br_p99 res" for k hits
    using measure_total [of "benchmark_plan hits" hits, OF benchmark_plan_ok iterations_positive assms]
    unfolding benchmark_planner_def by metis
  obtain a b c d where "benchmark_main argument took elapsed = map Some [a, b, c, d]"
    and "\<forall>res \<in> {a, b, c, d}. br_iterations res = ?n \<and> br_p50 res \<le> br_p95 res \<and> br_p95 res \<le> br_p99 res"
    using router [of 0 False] router [of 1 True] planner [of 2 False] planner [of 3 True]
    by (auto simp: benchmark_main_def Let_def)
  then show ?thesis using iterations_positive [of argument] by (intro exI [of _ "[a, b, c, d]"]) simp
qed

lemma benchmark_completes_witness:
  "\<exists>rs. benchmark_main None (\<lambda>k i. k + i) (\<lambda>k. 7) = map Some rs \<and> list_all (\<lambda>res. br_iterations res = 20000) rs"
proof -
  have "iterations_of None = 20000" by (simp add: iterations_of_def DEFAULT_ITERATIONS_def)
  then show ?thesis using benchmark_completes [of None "\<lambda>k i. k + i" "\<lambda>k. 7"] by (auto simp: list_all_iff)
qed

end
