(* ===== verification/ToolServer.thy ===== *)
theory ToolServer
  imports SidecarConfig
begin

text \<open>
  The mock tool server (\<open>trust-router-mock-tool-server.rs\<close>): one request per connection, answered
  with a simulated success or failure and a simulated latency that the query string controls.  What
  the read returned is an argument; the answer is the time slept and the bytes written.
\<close>

section \<open>Text\<close>

text \<open>
  \<open>String::from_utf8_lossy\<close>: maximal invalid prefixes of an encoded character become \<open>U+FFFD\<close>.
\<close>

definition byte_of :: "char \<Rightarrow> nat" where "byte_of c = of_char c"

definition REPLACEMENT :: string where "REPLACEMENT = [CHR 0xEF, CHR 0xBF, CHR 0xBD]"

definition utf8_width :: "char \<Rightarrow> nat" where
  "utf8_width c =
     (let b = byte_of c
      in if b < 128 then 1 else if 0xC2 \<le> b \<and> b \<le> 0xDF then 2 else if 0xE0 \<le> b \<and> b \<le> 0xEF then 3
         else if 0xF0 \<le> b \<and> b \<le> 0xF4 then 4 else 0)"

definition is_continuation :: "char \<Rightarrow> bool" where
  "is_continuation c \<longleftrightarrow> 0x80 \<le> byte_of c \<and> byte_of c \<le> 0xBF"

text \<open>Which second bytes may follow a leading one: no overlong forms, no surrogates, nothing above \<open>U+10FFFF\<close>.\<close>

definition second_ok :: "char \<Rightarrow> char \<Rightarrow> bool" where
  "second_ok lead c \<longleftrightarrow> is_continuation c
     \<and> (byte_of lead = 0xE0 \<longrightarrow> 0xA0 \<le> byte_of c) \<and> (byte_of lead = 0xED \<longrightarrow> byte_of c \<le> 0x9F)
     \<and> (byte_of lead = 0xF0 \<longrightarrow> 0x90 \<le> byte_of c) \<and> (byte_of lead = 0xF4 \<longrightarrow> byte_of c \<le> 0x8F)"

fun from_utf8_lossy :: "string \<Rightarrow> string" where
  "from_utf8_lossy [] = []"
| "from_utf8_lossy (a # s) =
     (if utf8_width a = 1 then a # from_utf8_lossy s
      else if utf8_width a = 0 then REPLACEMENT @ from_utf8_lossy s
      else case s of
        [] \<Rightarrow> REPLACEMENT
      | b # s2 \<Rightarrow>
          if \<not> second_ok a b then REPLACEMENT @ from_utf8_lossy s
          else if utf8_width a = 2 then a # b # from_utf8_lossy s2
          else (case s2 of
             [] \<Rightarrow> REPLACEMENT
           | c # s3 \<Rightarrow>
               if \<not> is_continuation c then REPLACEMENT @ from_utf8_lossy s2
               else if utf8_width a = 3 then a # b # c # from_utf8_lossy s3
               else (case s3 of
                  [] \<Rightarrow> REPLACEMENT
                | d # s4 \<Rightarrow>
                    if \<not> is_continuation d then REPLACEMENT @ from_utf8_lossy s3
                    else a # b # c # d # from_utf8_lossy s4)))"

text \<open>\<open>lines().next()\<close>, empty for the empty text.\<close>

definition first_line :: "string \<Rightarrow> string" where
  "first_line s =
     (let line = takeWhile (\<lambda>c. c \<noteq> CHR 0x0A) s
      in if line \<noteq> s \<and> line \<noteq> [] \<and> last line = CHR 0x0D then butlast line else line)"

text \<open>How many bytes the Unicode white space at the head of a text has; 0 when there is none.\<close>

definition space_length :: "string \<Rightarrow> nat" where
  "space_length s =
     (case map byte_of (take 3 s) of
        [] \<Rightarrow> 0
      | a # rest \<Rightarrow>
          if 9 \<le> a \<and> a \<le> 13 \<or> a = 32 then 1
          else if (case rest of b # _ \<Rightarrow> a = 0xC2 \<and> (b = 0x85 \<or> b = 0xA0) | [] \<Rightarrow> False) then 2
          else (case rest of
                  [b, c] \<Rightarrow>
                    if a = 0xE1 \<and> b = 0x9A \<and> c = 0x80
                      \<or> a = 0xE2 \<and> b = 0x80 \<and> (0x80 \<le> c \<and> c \<le> 0x8A \<or> c = 0xA8 \<or> c = 0xA9 \<or> c = 0xAF)
                      \<or> a = 0xE2 \<and> b = 0x81 \<and> c = 0x9F \<or> a = 0xE3 \<and> b = 0x80 \<and> c = 0x80
                    then 3 else 0
                | _ \<Rightarrow> 0))"

text \<open>\<open>split_whitespace\<close>: the non-empty pieces; the first argument is the piece being read, reversed.\<close>

function split_spaces :: "string \<Rightarrow> string \<Rightarrow> string list" where
  "split_spaces piece s =
     (case s of
        [] \<Rightarrow> if piece = [] then [] else [rev piece]
      | c # t \<Rightarrow>
          if space_length s = 0 then split_spaces (c # piece) t
          else (if piece = [] then [] else [rev piece]) @ split_spaces [] (drop (space_length s) s))"
  by pat_completeness auto
termination
  by (relation "measure (\<lambda>(piece, s). length s)") auto

definition split_whitespace :: "string \<Rightarrow> string list" where
  "split_whitespace s = split_spaces [] s"

definition split_once :: "char \<Rightarrow> string \<Rightarrow> (string \<times> string) option" where
  "split_once sep s =
     (case dropWhile (\<lambda>c. c \<noteq> sep) s of [] \<Rightarrow> None | _ # rest \<Rightarrow> Some (takeWhile (\<lambda>c. c \<noteq> sep) s, rest))"

unbundle bit_operations_syntax

section \<open>The program\<close>

text \<open>The query, with the last value of a repeated key; pairs without \<open>=\<close> are dropped.\<close>

definition split_target :: "string \<Rightarrow> string \<times> (string, string) hmap" where
  "split_target target =
     (case split_once (CHR ''?'') target of
        None \<Rightarrow> (target, [])
      | Some (path, query) \<Rightarrow>
          (path, fold (\<lambda>(k, v) m. AList.update k v m)
             (List.map_filter (split_once (CHR ''='')) (split_on (CHR 0x26) query)) []))"

definition query_u64 :: "(string, string) hmap \<Rightarrow> string \<Rightarrow> u64 \<Rightarrow> u64" where
  "query_u64 query key def_value = (case Option.bind (map_of query key) parse_u64 of None \<Rightarrow> def_value | Some v \<Rightarrow> v)"

definition pseudo_random :: "u64 \<Rightarrow> string \<Rightarrow> u64" where
  "pseudo_random sequence tool =
     fold (\<lambda>byte state. (state XOR of_nat (byte_of byte)) * 6364136223846793005 + 1) tool
       (sequence XOR 0x9e3779b97f4a7c15)"

record tool_answer =
  ta_success :: bool
  ta_latency_ms :: u64

text \<open>
  The simulated tool call; \<open>None\<close> is a panic.  The arithmetic wraps as in a release build, where a
  remainder by zero still panics.
\<close>

definition invoke_tool :: "(string, string) hmap \<Rightarrow> u64 \<Rightarrow> tool_answer option" where
  "invoke_tool query sequence =
     (let fail_pct = min (query_u64 query ''fail_pct'' 10) 100;
          slow_pct = min (query_u64 query ''slow_pct'' 5) 100;
          min_latency_ms = query_u64 query ''min_latency_ms'' 5;
          max_latency_ms = max (query_u64 query ''max_latency_ms'' 50) min_latency_ms;
          slow_latency_ms = query_u64 query ''slow_latency_ms'' (max_latency_ms * 5);
          roll = pseudo_random sequence (case map_of query ''tool'' of None \<Rightarrow> ''tool'' | Some t \<Rightarrow> t);
          ok = (roll mod 100 \<ge> fail_pct);
          slow = (ok \<and> (roll div 100) mod 100 < slow_pct)
      in if slow then Some \<lparr>ta_success = ok, ta_latency_ms = slow_latency_ms\<rparr>
         else if max_latency_ms - min_latency_ms + 1 = 0 then None
         else Some \<lparr>ta_success = ok,
                ta_latency_ms = min_latency_ms + roll mod (max_latency_ms - min_latency_ms + 1)\<rparr>)"

definition CRLF :: string where "CRLF = [CHR 0x0D, CHR 0x0A]"
definition QUOTE :: string where "QUOTE = [CHR 0x22]"

definition quoted :: "string \<Rightarrow> string" where "quoted s = QUOTE @ s @ QUOTE"

definition write_response :: "nat \<Rightarrow> string \<Rightarrow> string" where
  "write_response status body =
     (let reason = (if status = 200 then ''OK'' else ''Not Found'')
      in ''HTTP/1.1 '' @ decimal status @ '' '' @ reason @ CRLF @ ''Content-Type: application/json'' @ CRLF
         @ ''Content-Length: '' @ decimal (length body) @ CRLF @ ''Connection: close'' @ CRLF @ CRLF @ body)"

definition answer_body :: "tool_answer \<Rightarrow> string" where
  "answer_body a = ''{'' @ quoted ''success'' @ '':'' @ (if ta_success a then ''true'' else ''false'') @ '',''
     @ quoted ''latency_ms'' @ '':'' @ decimal (unat (ta_latency_ms a)) @ ''}''"

definition not_found_body :: string where
  "not_found_body = ''{'' @ quoted ''error'' @ '':'' @ quoted ''not found'' @ ''}''"

datatype served = NoAnswer | ThreadPanicked | Answered u64 string

definition next_or_empty :: "string list \<Rightarrow> string \<times> string list" where
  "next_or_empty parts = (case parts of [] \<Rightarrow> ([], []) | p # ps \<Rightarrow> (p, ps))"

text \<open>
  A connection: the bytes that have arrived when it is read, \<open>None\<close> for an error of the read, and the
  shared counter.  There is a single read into a buffer of 2048 bytes; what does not fit is never seen.
  The answer carries the milliseconds slept before it is written.
\<close>

definition BUFFER_SIZE :: nat where "BUFFER_SIZE = 2048"

definition handle_connection :: "string option \<Rightarrow> u64 \<Rightarrow> served \<times> u64" where
  "handle_connection arrived counter =
     (case map_option (take BUFFER_SIZE) arrived of
        None \<Rightarrow> (NoAnswer, counter)
      | Some [] \<Rightarrow> (NoAnswer, counter)
      | Some bytes \<Rightarrow>
          (let request_line = first_line (from_utf8_lossy bytes);
               (method, parts) = next_or_empty (split_whitespace request_line);
               (target, _) = next_or_empty parts;
               (path, query) = split_target target
           in if method \<noteq> ''GET'' \<or> path \<noteq> ''/invoke'' then (Answered 0 (write_response 404 not_found_body), counter)
              else (case invoke_tool query counter of
                      None \<Rightarrow> (ThreadPanicked, counter + 1)
                    | Some a \<Rightarrow> (Answered (ta_latency_ms a) (write_response 200 (answer_body a)), counter + 1))))"

text \<open>The connections of the accept loop, in the order in which their threads take a sequence number.\<close>

fun serve_connections :: "string option list \<Rightarrow> u64 \<Rightarrow> served list \<times> u64" where
  "serve_connections [] counter = ([], counter)"
| "serve_connections (r # rs) counter =
     (case handle_connection r counter of (s, counter) \<Rightarrow>
        case serve_connections rs counter of (ss, counter) \<Rightarrow> (s # ss, counter))"

definition server_main :: "string option list \<Rightarrow> served list" where
  "server_main connections = fst (serve_connections connections 0)"

section \<open>Rolls\<close>

lemma roll_step_inj: "(a XOR x) * 6364136223846793005 + 1 = (b XOR x) * 6364136223846793005 + 1 \<longleftrightarrow> a = (b :: u64)"
proof
  assume "(a XOR x) * 6364136223846793005 + 1 = (b XOR x) * 6364136223846793005 + 1"
  then have "(a XOR x) * 6364136223846793005 * 13877824140714322085 = (b XOR x) * 6364136223846793005 * 13877824140714322085"
    by simp
  moreover have "6364136223846793005 * 13877824140714322085 = (1 :: u64)" by code_simp
  then have "(y * 6364136223846793005) * 13877824140714322085 = y" for y :: u64
    by (simp only: mult.assoc mult_1_right)
  ultimately have "a XOR x = b XOR x" by simp
  then have "(a XOR x) XOR x = (b XOR x) XOR x" by simp
  then show "a = b" by (simp add: xor.assoc)
qed simp

lemma fold_roll_inj:
  "fold (\<lambda>byte state. (state XOR of_nat (byte_of byte)) * 6364136223846793005 + 1) tool a
   = fold (\<lambda>byte state. (state XOR of_nat (byte_of byte)) * 6364136223846793005 + 1) tool b \<longleftrightarrow> a = (b :: u64)"
proof (induction tool arbitrary: a b)
  case (Cons c tool)
  then show ?case using roll_step_inj [of a "of_nat (byte_of c)" b] by simp
qed simp

text \<open>
  for each tool the simulated rolls do not repeat before the counter does: requests with
  different sequence numbers get different rolls.
\<close>

theorem rolls_do_not_repeat: "pseudo_random i tool = pseudo_random j tool \<longleftrightarrow> i = j"
proof -
  have cancel: "(x XOR c) XOR c = x" for x c :: u64 by (simp add: xor.assoc)
  have "i XOR 0x9e3779b97f4a7c15 = j XOR 0x9e3779b97f4a7c15 \<longleftrightarrow> i = j"
    using cancel [of i "0x9e3779b97f4a7c15"] cancel [of j "0x9e3779b97f4a7c15"] by (metis (no_types))
  then show ?thesis unfolding pseudo_random_def fold_roll_inj .
qed

section \<open>The simulated call\<close>

definition in_range :: "(string, string) hmap \<Rightarrow> u64 \<Rightarrow> bool" where
  "in_range query l \<longleftrightarrow> query_u64 query ''min_latency_ms'' 5 \<le> l
     \<and> l \<le> max (query_u64 query ''max_latency_ms'' 50) (query_u64 query ''min_latency_ms'' 5)"

lemma offset_in_range:
  fixes lo hi r :: u64
  assumes "lo \<le> hi" "hi - lo + 1 \<noteq> 0"
  shows "lo \<le> lo + r mod (hi - lo + 1) \<and> lo + r mod (hi - lo + 1) \<le> hi"
proof -
  let ?w = "hi - lo" and ?o = "r mod (hi - lo + 1)"
  have w: "unat ?w = unat hi - unat lo" using assms(1) by (simp add: unat_sub word_le_nat_alt)
  have "unat (?w + 1) = unat ?w + 1" using assms(2) unatSuc [of ?w] by (simp add: add.commute)
  then have "unat ?o \<le> unat ?w" using unat_mod [of r "?w + 1"] mod_less_divisor [of "unat ?w + 1" "unat r"] by simp
  then have "unat lo + unat ?o \<le> unat hi" using w assms(1) by (simp add: word_le_nat_alt)
  moreover have "unat (lo + ?o) = unat lo + unat ?o"
    using calculation unsigned_less [of hi, where ?'a = nat] by (simp add: unat_plus_if')
  ultimately show ?thesis by (simp add: word_le_nat_alt)
qed

text \<open>
  C39: the query controls the simulated call: with a failure percentage of 100 or more it fails, with 0
  it succeeds; a call that fails, or that is not slow, takes between the two latency bounds; and the
  thread panics only for the full range of latencies, and does so whenever no call can be slow.
\<close>

theorem tool_call_as_configured:
  "case invoke_tool query sequence of
     None \<Rightarrow> query_u64 query ''min_latency_ms'' 5 = 0 \<and> query_u64 query ''max_latency_ms'' 50 = - 1
   | Some a \<Rightarrow>
       (100 \<le> query_u64 query ''fail_pct'' 10 \<longrightarrow> \<not> ta_success a)
       \<and> (query_u64 query ''fail_pct'' 10 = 0 \<longrightarrow> ta_success a)
       \<and> (\<not> ta_success a \<or> query_u64 query ''slow_pct'' 5 = 0 \<longrightarrow> in_range query (ta_latency_ms a)
            \<and> \<not> (query_u64 query ''min_latency_ms'' 5 = 0 \<and> query_u64 query ''max_latency_ms'' 50 = - 1))
       \<and> (in_range query (ta_latency_ms a) \<or> ta_latency_ms a = query_u64 query ''slow_latency_ms''
            (max (query_u64 query ''max_latency_ms'' 50) (query_u64 query ''min_latency_ms'' 5) * 5))"
proof -
  define lo where "lo = query_u64 query ''min_latency_ms'' 5"
  define hi where "hi = max (query_u64 query ''max_latency_ms'' 50) lo"
  define roll where "roll = pseudo_random sequence (case map_of query ''tool'' of None \<Rightarrow> ''tool'' | Some t \<Rightarrow> t)"
  define fail where "fail = min (query_u64 query ''fail_pct'' 10) 100"
  define sl where "sl = min (query_u64 query ''slow_pct'' 5) 100"
  have le: "lo \<le> hi" by (simp add: hi_def)
  have full: "hi - lo + 1 = 0 \<longleftrightarrow> lo = 0 \<and> query_u64 query ''max_latency_ms'' 50 = - 1"
  proof
    assume "hi - lo + 1 = 0"
    then have d: "hi - lo = - 1" by (simp add: eq_neg_iff_add_eq_0)
    have "unat (hi - lo) = unat hi - unat lo" using le by (simp add: unat_sub word_le_nat_alt)
    moreover have "unat (- 1 :: u64) = 2 ^ 64 - 1" by (simp add: unsigned_minus_1_eq_mask mask_eq_exp_minus_1)
    ultimately have "unat hi = 2 ^ 64 - 1" "unat lo = 0" using d unsigned_less [of hi, where ?'a = nat] by simp_all
    then have "lo = 0" by (simp add: unat_eq_0)
    then show "lo = 0 \<and> query_u64 query ''max_latency_ms'' 50 = - 1" using d by (simp add: hi_def max_def split: if_splits)
  qed (simp add: hi_def max_def)
  have small: "roll mod 100 < 100" by (simp add: word_mod_less_divisor)
  have range: "in_range query (lo + roll mod (hi - lo + 1))" if "hi - lo + 1 \<noteq> 0"
    using offset_in_range [OF le that, of roll] by (simp add: in_range_def lo_def hi_def)
  have inv: "invoke_tool query sequence =
    (if roll mod 100 \<ge> fail \<and> (roll div 100) mod 100 < sl
     then Some \<lparr>ta_success = True, ta_latency_ms = query_u64 query ''slow_latency_ms'' (hi * 5)\<rparr>
     else if hi - lo + 1 = 0 then None
     else Some \<lparr>ta_success = (roll mod 100 \<ge> fail), ta_latency_ms = lo + roll mod (hi - lo + 1)\<rparr>)"
    by (simp add: invoke_tool_def Let_def lo_def hi_def roll_def fail_def sl_def)
  have fails: "\<not> fail \<le> roll mod 100" if "100 \<le> query_u64 query ''fail_pct'' 10"
    using that small by (simp add: fail_def min_absorb2)
  have succeeds: "fail \<le> roll mod 100" if "query_u64 query ''fail_pct'' 10 = 0" using that by (simp add: fail_def)
  have never_slow: "\<not> (roll div 100) mod 100 < sl" if "query_u64 query ''slow_pct'' 5 = 0" using that by (simp add: sl_def)
  show ?thesis
    unfolding inv lo_def [symmetric] hi_def [symmetric] full
    using fails succeeds never_slow range [unfolded full] by auto
qed

lemma tool_call_as_configured_witness:
  "case invoke_tool [(''fail_pct'', ''100''), (''max_latency_ms'', ''20'')] 7 of
     None \<Rightarrow> False
   | Some a \<Rightarrow> \<not> ta_success a \<and> 5 \<le> ta_latency_ms a \<and> ta_latency_ms a \<le> 20"
proof -
  let ?q = "[(''fail_pct'', ''100''), (''max_latency_ms'', ''20'')]"
  have "parse_u64 ''100'' = Some 100" "parse_u64 ''20'' = Some 20"
    by (simp_all add: parse_u64_def parse_unsigned_def Let_def is_digit_def digits_value_def digit_value_def)
  then have "query_u64 ?q ''fail_pct'' 10 = 100" "query_u64 ?q ''min_latency_ms'' 5 = 5" "query_u64 ?q ''max_latency_ms'' 50 = 20"
    by (simp_all add: query_u64_def)
  moreover have "(0 :: u64) \<noteq> 5" "(20 :: u64) \<noteq> - 1" "max 20 5 = (20 :: u64)" by code_simp+
  moreover note tool_call_as_configured [of ?q 7]
  ultimately show ?thesis by (cases "invoke_tool ?q 7") (simp_all only: in_range_def option.case order_refl simp_thms)
qed

section \<open>Requests\<close>

text \<open>What may stand in a request line: ASCII without white space.\<close>

definition plain :: "string \<Rightarrow> bool" where
  "plain s \<longleftrightarrow> (\<forall>c \<in> set s. 33 \<le> byte_of c \<and> byte_of c < 127)"

lemma lossy_ascii: "\<forall>c \<in> set a. byte_of c < 128 \<Longrightarrow> from_utf8_lossy (a @ s) = a @ from_utf8_lossy s"
  by (induction a) (auto simp: utf8_width_def)

lemma space_length_plain: "33 \<le> byte_of c \<Longrightarrow> byte_of c < 127 \<Longrightarrow> space_length (c # s) = 0"
  by (auto simp: space_length_def split: list.split)

lemma space_length_blank: "space_length (CHR '' '' # s) = 1"
  by (simp add: space_length_def byte_of_def)

lemma split_plain:
  "plain w \<Longrightarrow> split_spaces p (w @ s) = split_spaces (rev w @ p) s"
proof (induction w arbitrary: p)
  case (Cons c w)
  then show ?case by (simp add: plain_def space_length_plain split_spaces.simps [of p "c # w @ s"])
qed simp

lemma split_words:
  "plain w \<Longrightarrow> w \<noteq> [] \<Longrightarrow> split_whitespace (w @ CHR '' '' # s) = w # split_whitespace s"
  "plain w \<Longrightarrow> w \<noteq> [] \<Longrightarrow> split_whitespace w = [w]"
  using split_plain [of w "[]" "CHR '' '' # s"] split_plain [of w "[]" "[]"]
  by (simp_all add: split_whitespace_def split_spaces.simps [of "rev w"] space_length_blank)

lemma first_line_of:
  assumes "\<forall>c \<in> set line. byte_of c < 128 \<and> c \<noteq> CHR 0x0A"
  shows "first_line (from_utf8_lossy (line @ CRLF @ rest)) = line"
proof -
  have "\<forall>c \<in> set (line @ CRLF). byte_of c < 128" using assms by (auto simp: CRLF_def byte_of_def)
  then have "from_utf8_lossy ((line @ CRLF) @ rest) = (line @ CRLF) @ from_utf8_lossy rest" by (rule lossy_ascii)
  then have lossy: "from_utf8_lossy (line @ CRLF @ rest) = line @ CRLF @ from_utf8_lossy rest" by simp
  have line: "takeWhile (\<lambda>c. c \<noteq> CHR 0x0A) (line @ CRLF @ t) = line @ [CHR 0x0D]" "line @ [CHR 0x0D] \<noteq> line @ CRLF @ t" for t
    using assms by (simp_all add: takeWhile_append2 CRLF_def)
  show ?thesis unfolding first_line_def lossy Let_def line(1) using line(2) by simp
qed

lemma split_once_at: "sep \<notin> set a \<Longrightarrow> split_once sep (a @ sep # b) = Some (a, b)"
  by (induction a) (auto simp: split_once_def split: list.splits)

lemma fold_update_distinct:
  "distinct (map fst (m @ ps)) \<Longrightarrow> fold (\<lambda>(k, v) m. AList.update k v m) ps m = m @ ps"
proof (induction ps arbitrary: m)
  case (Cons p ps)
  obtain k v where p: "p = (k, v)" by (cases p)
  have "k \<notin> fst ` set m" using Cons.prems by (auto simp: p)
  then have "AList.update k v m = m @ [p]" by (induction m) (auto simp: p)
  then show ?case using Cons.IH [of "m @ [p]"] Cons.prems by (simp add: p)
qed simp

definition query_string :: "(string \<times> string) list \<Rightarrow> string" where
  "query_string params = join_with (CHR 0x26) (map (\<lambda>(k, v). k @ CHR ''='' # v) params)"

text \<open>Parameters that may stand in a query: plain, with distinct keys, and with no separator inside.\<close>

definition plain_params :: "(string \<times> string) list \<Rightarrow> bool" where
  "plain_params params \<longleftrightarrow> distinct (map fst params)
     \<and> (\<forall>(k, v) \<in> set params. plain k \<and> plain v \<and> CHR 0x26 \<notin> set k \<union> set v \<and> CHR ''='' \<notin> set k)"

lemma plain_join: "\<forall>w \<in> set ws. plain w \<Longrightarrow> plain (join_with (CHR 0x26) ws)"
proof (induction ws)
  case C: (Cons w ws)
  have sep: "plain [CHR 0x26]" by (simp add: plain_def byte_of_def)
  show ?case
  proof (cases ws)
    case (Cons x xs)
    have "join_with (CHR 0x26) (w # ws) = w @ [CHR 0x26] @ join_with (CHR 0x26) ws" by (simp add: Cons)
    then show ?thesis using sep C.prems C.IH unfolding plain_def set_append by auto
  qed (use C.prems in simp)
qed (simp add: plain_def)

lemma plain_query: "plain_params params \<Longrightarrow> plain (query_string params)"
proof -
  assume params: "plain_params params"
  have "plain (k @ CHR ''='' # v)" if "(k, v) \<in> set params" for k v
  proof -
    have "plain k" "plain v" using params that by (auto simp: plain_params_def)
    moreover have "plain [CHR ''='']" by (simp add: plain_def byte_of_def)
    ultimately show ?thesis by (auto simp: plain_def)
  qed
  then show ?thesis unfolding query_string_def by (intro plain_join) auto
qed

lemma split_target_query:
  assumes "plain_params params"
  shows "split_target (''/invoke?'' @ query_string params) = (''/invoke'', params)"
proof -
  let ?ws = "map (\<lambda>(k, v). k @ CHR ''='' # v) params"
  have q: "split_once (CHR ''?'') (''/invoke?'' @ query_string params) = Some (''/invoke'', query_string params)"
    using split_once_at [of "CHR ''?''" "''/invoke''" "query_string params"] by simp
  have pieces: "List.map_filter (split_once (CHR ''='')) (split_on (CHR 0x26) (query_string params)) = params"
  proof (cases "params = []")
    case False
    have "\<forall>w \<in> set ?ws. CHR 0x26 \<notin> set w" using assms by (auto simp: plain_params_def)
    then have "split_on (CHR 0x26) (query_string params) = ?ws"
      using False by (simp add: query_string_def split_on_join)
    moreover have "List.map_filter (split_once (CHR ''='')) (map (\<lambda>(k, v). k @ CHR ''='' # v) ps) = ps"
      if "\<forall>(k, v) \<in> set ps. CHR ''='' \<notin> set k" for ps
      using that by (induction ps) (auto simp: List.map_filter_simps split_once_at)
    ultimately show ?thesis using assms by (auto simp: plain_params_def)
  qed (simp add: query_string_def split_once_def List.map_filter_simps)
  have "fold (\<lambda>(k, v) m. AList.update k v m) params [] = params"
    using fold_update_distinct [of "[]" params] assms by (simp add: plain_params_def)
  then show ?thesis unfolding split_target_def q by (simp add: pieces)
qed

lemma take_prefix: "length xs \<le> n \<Longrightarrow> take n (xs @ ys) = xs @ take (n - length xs) ys"
  by simp

text \<open>
  C38: a tool request that fits is understood as it was written: when the request line and its end lie
  within the 2048 bytes that are read, the parameters of the query string are those the call is
  simulated with, whatever headers and body follow, each call takes the next sequence number, and its
  outcome is sent after the simulated latency.
\<close>

theorem tool_request_round_trip:
  assumes "plain_params params" "length (''GET /invoke?'' @ query_string params @ '' HTTP/1.1'' @ CRLF) \<le> 2048"
  shows "handle_connection (Some (''GET /invoke?'' @ query_string params @ '' HTTP/1.1'' @ CRLF @ rest)) counter
    = (case invoke_tool params counter of
         None \<Rightarrow> (ThreadPanicked, counter + 1)
       | Some a \<Rightarrow> (Answered (ta_latency_ms a) (write_response 200 (answer_body a)), counter + 1))"
proof -
  let ?t = "''/invoke?'' @ query_string params"
  let ?line = "''GET'' @ CHR '' '' # ?t @ CHR '' '' # ''HTTP/1.1''"
  let ?rest = "take (2048 - length (?line @ CRLF)) rest"
  have t: "plain ?t" using plain_query [OF assms(1)] by (auto simp: plain_def byte_of_def)
  have fixed: "plain ''GET''" "plain ''HTTP/1.1''" by (auto simp: plain_def byte_of_def)
  have low: "\<forall>c \<in> set w. byte_of c < 128 \<and> c \<noteq> CHR 0x0A" if "plain w" for w
    using that by (auto simp: plain_def byte_of_def)
  have "\<forall>c \<in> set ?line. byte_of c < 128 \<and> c \<noteq> CHR 0x0A"
    using low [OF t] low [OF fixed(1)] low [OF fixed(2)] by (auto simp: byte_of_def)
  then have line: "first_line (from_utf8_lossy (?line @ CRLF @ ?rest)) = ?line" by (rule first_line_of)
  have words: "split_whitespace ?line = [''GET'', ?t, ''HTTP/1.1'']"
    using split_words(1) [OF fixed(1), of "?t @ CHR '' '' # ''HTTP/1.1''"] split_words(1) [OF t, of "''HTTP/1.1''"]
      split_words(2) [OF fixed(2)] by simp
  have "''GET /invoke?'' @ query_string params @ '' HTTP/1.1'' @ CRLF @ rest = (?line @ CRLF) @ rest" by simp
  moreover have "length (?line @ CRLF) \<le> 2048" using assms(2) by simp
  then have "take 2048 ((?line @ CRLF) @ rest) = (?line @ CRLF) @ ?rest" by (rule take_prefix)
  ultimately have bytes: "take BUFFER_SIZE (''GET /invoke?'' @ query_string params @ '' HTTP/1.1'' @ CRLF @ rest)
      = ?line @ CRLF @ ?rest" by (simp only: BUFFER_SIZE_def append_assoc)
  have "\<exists>c u. ?line @ CRLF @ ?rest = c # u" by simp
  then show ?thesis
    unfolding handle_connection_def option.map bytes using line words split_target_query [OF assms(1)]
    by (auto simp: next_or_empty_def Let_def split: option.splits simp del: append_Cons append.simps)
qed

lemma tool_request_round_trip_witness:
  "handle_connection (Some (''GET /invoke?'' @ query_string [(''tool'', ''search''), (''fail_pct'', ''100'')]
       @ '' HTTP/1.1'' @ CRLF @ ''Host: x'')) 7
   = (case invoke_tool [(''tool'', ''search''), (''fail_pct'', ''100'')] 7 of
        None \<Rightarrow> (ThreadPanicked, 8)
      | Some a \<Rightarrow> (Answered (ta_latency_ms a) (write_response 200 (answer_body a)), 8))"
proof -
  let ?q = "[(''tool'', ''search''), (''fail_pct'', ''100'')]"
  have "plain_params ?q" by code_simp
  moreover have "length (''GET /invoke?'' @ query_string ?q @ '' HTTP/1.1'' @ CRLF) \<le> 2048"
    by (simp add: query_string_def CRLF_def)
  moreover have "7 + 1 = (8 :: u64)" by simp
  ultimately show ?thesis by (simp only: tool_request_round_trip)
qed

end
