(* ===== verification/Spec2Isabelle.thy ===== *)
theory Spec2Isabelle
  imports Execution PipelineProps SidecarProps Maintenance Demos LoadTest SoakTest PlannerBenchmark ToolServer
begin

text \<open>
  A verification library of the trust router, the Rust crate under \<open>src/src/\<close>: a router that sends
  tool calls along paths of healthy tools, a planner and an inference pipeline on top of it, and an
  HTTP sidecar that serves it.

  \<^bold>\<open>How the program is put together.\<close>  The router (\<open>lib.rs\<close>) keeps, per tenant, a graph of tools, a
  circuit breaker per tool, a cost model and a cache of routes, and one audit trail.  The planner
  (\<open>planner.rs\<close>, \<open>escalation.rs\<close>) turns routes into bounded plans; \<open>execution.rs\<close> runs plans on a
  backend of the registry and reports to \<open>health_monitor.rs\<close>, which feeds the router back.  The
  inference side decides among placements: \<open>kv.rs\<close>, \<open>capacity.rs\<close>, \<open>backend_registry.rs\<close>,
  \<open>inference.rs\<close> and \<open>system_planning.rs\<close> are the registries and the ranking, \<open>intelligence.rs\<close> the
  observations, predictions and the decision firewall, \<open>fabric.rs\<close> transports, load shedding, node
  life cycle, leases and the audit chain, and \<open>pipeline.rs\<close> the ten stages that use them all.  The
  sidecar (\<open>bin/trust-router-sidecar.rs\<close>, \<open>sidecar_config.rs\<close>, \<open>sidecar_security.rs\<close>) authenticates,
  limits, routes, plans, records and reports.  The other programs under \<open>bin/\<close> drive the library: a
  demonstration, a statistical baseline, a crash writer, a load test, a soak test, a benchmark of the
  planner, and a mock tool server.

  \<^bold>\<open>Theories.\<close>
  \<^item> \<open>Prelude\<close>: machine and container types, identifiers, the locales \<open>bounded_log\<close> (a deque that drops
    its oldest entry) and \<open>registry\<close> (a keyed table that validates), interpreted by the components;
  \<^item> \<open>F64\<close>: IEEE binary64 computed exactly on rationals, rounding, order and bounds;
  \<^item> \<open>Health\<close>, \<open>Costs\<close>, \<open>ToolGraph\<close>, \<open>Dijkstra\<close>, \<open>RouteSearch\<close>, \<open>AuditTrail\<close>, \<open>Router\<close>, \<open>RouterSafety\<close>,
    \<open>RouterProps\<close>, \<open>RouterLiveness\<close>: \<open>lib.rs\<close>.  \<open>HealthTracker\<close> is \<open>health_tracker\<close>, \<open>ToolGraph::shortest_path\<close> is
    \<open>shortest_path\<close>, \<open>Router::route\<close> is \<open>route_fast\<close> followed by \<open>route_slow\<close>, and \<open>router_step\<close> lets other
    operations run between them;
  \<^item> \<open>Kv\<close>, \<open>ControlPlane\<close>, \<open>Capacity\<close>, \<open>Backends\<close>, \<open>Admission\<close>, \<open>Inference\<close>, \<open>SystemPlanning\<close>: the modules of
    these names, with \<open>backend.rs\<close>, \<open>decision_trace.rs\<close> and \<open>evaluation.rs\<close>;
  \<^item> \<open>Planner\<close>, \<open>PlanErrors\<close>, \<open>Execution\<close>: planning on the router, when it fails, execution and the health
    monitor;
  \<^item> \<open>Observations\<close>, \<open>Intelligence\<close>: the two halves of \<open>intelligence.rs\<close>;
  \<^item> \<open>Fabric\<close>, \<open>NodeLifecycle\<close>, \<open>AuditChain\<close>: the three parts of \<open>fabric.rs\<close>;
  \<^item> \<open>Pipeline\<close>, \<open>PipelineProps\<close>: \<open>pipeline.rs\<close>, one definition per stage, composed by \<open>process_request\<close>;
  \<^item> \<open>TokenBucket\<close>, \<open>SidecarConfig\<close>, \<open>SidecarMetrics\<close>, \<open>Sidecar\<close>, \<open>SidecarProps\<close>: the sidecar; \<open>serve\<close> is
    one request, \<open>service_reachable\<close> the states of a running service;
  \<^item> \<open>FloatRanges\<close>: bounds on the results of binary64 computations, for sums and quotients of constants;
  \<^item> \<open>Drivers\<close>: routers built from a list of edges, what results and probes do to their open nodes, what
    is logged, and which requests they route (\<open>request_decides\<close>);
  \<^item> \<open>Maintenance\<close>: the recovery and the flush loop of a router, as runs of ticks between which other
    operations happen (\<open>recovery_run\<close>, \<open>flush_run\<close>), and the recovery loop of the sidecar;
  \<^item> \<open>SearchNetwork\<close>, \<open>Demos\<close>: the demonstration, the baseline and the crash writer;
  \<^item> \<open>Drills\<close>: networks of two layers of tools (the locale \<open>layered_network\<close>, interpreted by both tests),
    the failure injector and the percentiles; \<open>LoadTest\<close>, \<open>SoakTest\<close>: the two tests as interleavings
    (\<open>load_step\<close>, \<open>soak_step\<close>) of their tasks, one step between two acquisitions of a lock;
  \<^item> \<open>PlannerBenchmark\<close>, \<open>ToolServer\<close>: the benchmark and the mock tool server.

  \<^bold>\<open>Conventions.\<close>  Strings are byte lists.  Counters of the code are words and wrap as the release
  build does; lengths and indices are natural numbers.  A hash map is an association list in one
  possible iteration order, a B-tree map a sorted one.  Instants and durations are nanoseconds, and
  the clock is an argument of what reads it.  \<open>Result\<close> is a sum with the error on the left; where a
  function can panic, its model returns an option and \<open>None\<close> is the panic.  Concurrency appears as
  separate atomic steps where the code releases a lock between them: the two steps of a routing
  call, the load and the increment of the load shedder, what other requests do between a
  routing call and the reading of the audit trail (\<open>meanwhile\<close>), and the operations between two ticks of
  a background loop.  A request of the pipeline is one step, from any state in which others hold
  permits.  Instants do not leave their range: adding the lifetime of a lease to the time does not
  overflow.

  \<^bold>\<open>What is shown.\<close>
  \<^item> Routing: in every reachable state and interleaving a returned path is a simple path of usable
    edges into tools whose breaker is not open (\<open>routed_paths_are_safe\<close>), and with a moderate cost model
    one is returned whenever there is one (\<open>routing_is_complete\<close>); the search ends and is optimal in the
    rounded arithmetic; escalations are justified; tenants do not influence each other; the
    breaker keeps its invariant, opens and recovers; the cache is bounded.  With the recovery loop of
    the sidecar an open node that is left alone stays open for the cooldown and is half-open after one
    more scan (\<open>sidecar_nodes_recover\<close>).
  \<^item> Decisions: admission counts exactly the live permits; the inference and the system planner
    select a feasible candidate of least score, independently of the order; plans are bounded, follow
    safe paths, and planning fails only for malformed requests and long routes; KV transfer happens exactly when every gate holds.
  \<^item> Fabric: fencing of leases, the path property of life-cycle logs, the queue as a bounded FIFO answer
    by answer (\<open>fifo_answer\<close>), the exact
    overshoot of the load shedder, what the audit chain detects and what it does not.
  \<^item> Pipeline: whatever is executed passed every gate; what fails changes nothing, whatever permits
    others hold (\<open>pipeline_in_flight\<close>); and the consequences of the prediction engine that is never fed:
    the limits and the firewall do not tell candidates apart (\<open>screening_is_uniform\<close>).
  \<^item> Sidecar: a loaded configuration is valid and starts; unauthorised requests are inert; every
    request is answered; a served route is safe, and the newest event of the trail is on disk before the
    answer; a batch is the sequence of its items, both whatever other requests do meanwhile; the metrics
    are a count of the past (\<open>tenant_account\<close>); keys compare by equality; lists and numbers of the environment are
    read back.
  \<^item> Programs: the demonstration and the baseline print what their labels announce; in every
    interleaving of the load and soak tests no request escalates, the counters account for every
    operation, and the tests end; the benchmark misses and hits the cache as its modes are named; the
    tool server reads its parameters back and simulates calls within their bounds.
  Where the code does not do what its documents say, a theorem states what it does.

  \<^bold>\<open>Fuel.\<close>  \<open>search_loop\<close> is the only loop with fuel: \<open>search_fuel\<close> bounds the number of heap pops, and
  \<open>route_search_returns\<close> shows that the search ends within it and that more fuel gives the same result.

  \<^bold>\<open>Parameters.\<close>  The JSON printer and parser, the file system calls, the environment, the MD5 digest,
  the state store, the transports and backends, the formatting of numbers, the parser of socket
  addresses and the clock are arguments of the definitions.  \<open>BinaryHeap\<close> is modelled by its
  contract, and \<open>str::parse\<close> of numbers on ASCII text.

  \<^bold>\<open>Not modelled.\<close>  What the programs print, beyond the values that are computed for it; their sockets,
  sleeps and file paths; the tokio runtime, the accept loop and the shutdown signal; poisoned locks,
  which need a panic under the lock first; allocation failure; the OpenTelemetry SDK beyond the calls
  it receives; the unit tests.
\<close>

end
